(* ===== verification/Prelude.thy ===== *)
theory Prelude
  imports Main "HOL-Library.Word" "HOL-Library.AList"
begin

text \<open>
  What every component of the development shares.

  \<^item> Python exceptions as values: \<^verbatim>\<open>py_error\<close> has one constructor per exception class the
    sources raise, carrying the constant part of the message, and a fallible pure function
    returns \<^verbatim>\<open>py_error + 'a\<close> (\<open>Inl\<close> is the raised exception), sequenced by \<^verbatim>\<open>rbind\<close>.
  \<^item> Python dictionaries as association lists with insertion order: a lookup is \<open>map_of\<close>,
    an assignment \<open>AList.update\<close> (in place for a present key, appended for a new one) and
    \<open>del\<close> is \<open>AList.delete\<close>, which is exactly the order a Python dictionary keeps.
  \<^item> Bytes are 8-bit words. \<^verbatim>\<open>be_bytes\<close> and \<^verbatim>\<open>of_be\<close> are \<open>int.to_bytes(n, "big")\<close> and
    \<open>int.from_bytes(\<dots>, "big")\<close>, with their round trips.
  \<^item> Slices of byte arrays: \<^verbatim>\<open>slice\<close> is \<open>b[o : o + n]\<close> and \<^verbatim>\<open>splice\<close> the assignment of a
    byte string to a slice of the same length, with the lemmas about reading back what was
    written and about everything outside the slice.
\<close>

unbundle bit_operations_syntax

named_theorems wf_intros \<open>well-formedness is kept by the operations\<close>
named_theorems frame_simps \<open>fields an operation does not touch\<close>

section \<open>Exceptions as values\<close>

datatype py_error =
    ValueError string
  | TypeError string
  | KeyError string
  | IndexError string
  | RuntimeError string
  | FileNotFoundError string
  | OSError string
  | BufferError string
  | PermissionError string
  | TimeoutError string
  | OverflowError string
  | StructError string
  | AttributeError string
  | CorruptStateError string

type_synonym 'a result = "py_error + 'a"

definition rbind :: "'a result \<Rightarrow> ('a \<Rightarrow> 'b result) \<Rightarrow> 'b result" where
  "rbind m f = (case m of Inl e \<Rightarrow> Inl e | Inr x \<Rightarrow> f x)"

lemma rbind_simps [simp]: "rbind (Inl e) f = Inl e" "rbind (Inr x) f = f x"
  by (simp_all add: rbind_def)

lemma rbind_eq_Inr [simp]: "rbind m f = Inr y \<longleftrightarrow> (\<exists>x. m = Inr x \<and> f x = Inr y)"
  by (cases m) auto

lemma rbind_eq_Inl: "rbind m f = Inl e \<longleftrightarrow> m = Inl e \<or> (\<exists>x. m = Inr x \<and> f x = Inl e)"
  by (cases m) auto

lemma rbind_cong [fundef_cong]:
  "m = m' \<Longrightarrow> (\<And>x. m' = Inr x \<Longrightarrow> f x = g x) \<Longrightarrow> rbind m f = rbind m' g"
  by (cases m') auto

text \<open>A guard that raises when its condition holds, as \<open>if c: raise e\<close>.\<close>

definition raise_if :: "bool \<Rightarrow> py_error \<Rightarrow> unit result" where
  "raise_if c e = (if c then Inl e else Inr ())"

lemma raise_if_eq [simp]:
  "raise_if c e = Inr u \<longleftrightarrow> \<not> c"
  "raise_if c e = Inl e' \<longleftrightarrow> c \<and> e' = e"
  by (auto simp: raise_if_def)

lemma raise_if_True [simp]: "raise_if True e = Inl e"
  and raise_if_False [simp]: "raise_if False e = Inr ()"
  by (simp_all add: raise_if_def)

section \<open>Dictionaries\<close>

type_synonym ('k, 'v) dict = "('k \<times> 'v) list"

abbreviation dget :: "('k, 'v) dict \<Rightarrow> 'k \<Rightarrow> 'v option" where
  "dget \<equiv> map_of"

abbreviation dset :: "'k \<Rightarrow> 'v \<Rightarrow> ('k, 'v) dict \<Rightarrow> ('k, 'v) dict" where
  "dset \<equiv> AList.update"

abbreviation ddel :: "'k \<Rightarrow> ('k, 'v) dict \<Rightarrow> ('k, 'v) dict" where
  "ddel \<equiv> AList.delete"

abbreviation dkeys :: "('k, 'v) dict \<Rightarrow> 'k set" where
  "dkeys d \<equiv> fst ` set d"

definition dict_ok :: "('k, 'v) dict \<Rightarrow> bool" where
  "dict_ok d \<longleftrightarrow> distinct (map fst d)"

lemma dict_ok_empty [simp]: "dict_ok []"
  by (simp add: dict_ok_def)

lemma dict_ok_set [simp]: "dict_ok d \<Longrightarrow> dict_ok (dset k v d)"
  by (simp add: dict_ok_def distinct_update)

lemma dict_ok_del [simp]: "dict_ok d \<Longrightarrow> dict_ok (ddel k d)"
  by (simp add: dict_ok_def distinct_delete)

lemma dget_dset: "dget (dset k v d) k' = (if k' = k then Some v else dget d k')"
  by (simp add: update_conv')

lemma dget_ddel: "dget (ddel k d) k' = (if k' = k then None else dget d k')"
  by (simp add: delete_conv')

lemmas dict_simps [simp] = dget_dset dget_ddel

lemma dkeys_dset [simp]: "dkeys (dset k v d) = insert k (dkeys d)"
  using dom_update [of k v d] by simp

lemma set_ddel: "set (ddel k d) = {p \<in> set d. fst p \<noteq> k}"
  by (induction d) auto

lemma dkeys_ddel [simp]: "dkeys (ddel k d) = dkeys d - {k}"
  by (auto simp: set_ddel)

lemma dget_None_iff: "dget d k = None \<longleftrightarrow> k \<notin> dkeys d"
  by (simp add: map_of_eq_None_iff)

lemma dget_in_set: "dict_ok d \<Longrightarrow> dget d k = Some v \<longleftrightarrow> (k, v) \<in> set d"
  by (simp add: dict_ok_def)

lemma set_dset_subset: "set (dset k v d) \<subseteq> insert (k, v) (set d)"
  by (induction d) auto

lemma set_dset: "dict_ok d \<Longrightarrow> set (dset k v d) = insert (k, v) {p \<in> set d. fst p \<noteq> k}"
  by (induction d) (auto simp: dict_ok_def rev_image_eqI)

lemma dset_same: "dget d k = Some v \<Longrightarrow> dset k v d = d"
  by (induction d) (auto split: if_splits)

lemma dget_some_in_set: "dget d k = Some v \<Longrightarrow> (k, v) \<in> set d"
  by (rule map_of_SomeD)

lemma dkeys_iff: "k \<in> dkeys d \<longleftrightarrow> (\<exists>v. dget d k = Some v)"
  using dget_None_iff [of d k] by (metis not_Some_eq)

section \<open>Bytes\<close>

type_synonym byte = "8 word"
type_synonym bytes = "byte list"

text \<open>\<open>n.to_bytes(k, "big")\<close>: the last byte is the least significant.\<close>

fun be_bytes :: "nat \<Rightarrow> nat \<Rightarrow> bytes" where
  "be_bytes 0 n = []"
| "be_bytes (Suc k) n = be_bytes k (n div 256) @ [of_nat (n mod 256)]"

definition of_be :: "bytes \<Rightarrow> nat" where
  "of_be bs = foldl (\<lambda>acc b. acc * 256 + unat b) 0 bs"

lemma of_be_Nil [simp]: "of_be [] = 0"
  by (simp add: of_be_def)

lemma of_be_snoc [simp]: "of_be (bs @ [b]) = of_be bs * 256 + unat b"
  by (simp add: of_be_def)

lemma of_be_single [simp]: "of_be [b] = unat b"
  by (simp add: of_be_def)

lemma length_be_bytes [simp]: "length (be_bytes k n) = k"
  by (induction k n rule: be_bytes.induct) auto

lemma unat_of_nat_byte [simp]: "unat (of_nat (n mod 256) :: byte) = n mod 256"
  by (simp add: unat_of_nat)

lemma of_be_be_bytes [simp]: "of_be (be_bytes k n) = n mod 256 ^ k"
proof (induction k n rule: be_bytes.induct)
  case (2 k n)
  have "n mod (256 * 256 ^ k) = 256 * (n div 256 mod 256 ^ k) + n mod 256"
    by (simp add: mod_mult2_eq)
  with 2 show ?case by simp
qed simp

lemma unat_byte_less: "unat (b :: byte) < 256"
  using unsigned_less [of b, where ?'a = nat] by simp

lemma of_be_bound: "of_be bs < 256 ^ length bs"
proof (induction bs rule: rev_induct)
  case (snoc b bs)
  have "unat b < 256" by (rule unat_byte_less)
  with snoc show ?case by simp
qed simp

lemma be_bytes_of_be [simp]: "be_bytes (length bs) (of_be bs) = bs"
proof (induction bs rule: rev_induct)
  case (snoc b bs)
  have "unat b < 256" by (rule unat_byte_less)
  with snoc show ?case by simp
qed simp

text \<open>\<open>int.bit_length\<close>.\<close>

fun bit_length :: "nat \<Rightarrow> nat" where
  "bit_length n = (if n = 0 then 0 else Suc (bit_length (n div 2)))"

declare bit_length.simps [simp del]

section \<open>Slices of byte arrays\<close>

definition slice :: "nat \<Rightarrow> nat \<Rightarrow> 'a list \<Rightarrow> 'a list" where
  "slice off n xs = take n (drop off xs)"

definition splice :: "nat \<Rightarrow> 'a list \<Rightarrow> 'a list \<Rightarrow> 'a list" where
  "splice off ys xs = take off xs @ ys @ drop (off + length ys) xs"

lemma length_slice [simp]: "off + n \<le> length xs \<Longrightarrow> length (slice off n xs) = n"
  by (simp add: slice_def)

lemma length_splice [simp]: "off + length ys \<le> length xs \<Longrightarrow> length (splice off ys xs) = length xs"
  by (simp add: splice_def)

lemma nth_slice: "off + n \<le> length xs \<Longrightarrow> i < n \<Longrightarrow> slice off n xs ! i = xs ! (off + i)"
  by (simp add: slice_def)

lemma nth_splice:
  "off + length ys \<le> length xs \<Longrightarrow> i < length xs \<Longrightarrow>
   splice off ys xs ! i = (if off \<le> i \<and> i < off + length ys then ys ! (i - off) else xs ! i)"
  by (auto simp: splice_def nth_append min_def not_less)

lemma slice_splice_same [simp]:
  "off + length ys \<le> length xs \<Longrightarrow> slice off (length ys) (splice off ys xs) = ys"
  by (simp add: slice_def splice_def)

lemma slice_splice_within:
  "off + length ys \<le> length xs \<Longrightarrow> off \<le> o' \<Longrightarrow> o' + n \<le> off + length ys \<Longrightarrow>
   slice o' n (splice off ys xs) = slice (o' - off) n ys"
  by (intro nth_equalityI) (auto simp: nth_slice nth_splice)

lemma slice_splice_disjoint:
  "off + length ys \<le> length xs \<Longrightarrow> o' + n \<le> length xs \<Longrightarrow>
   o' + n \<le> off \<or> off + length ys \<le> o' \<Longrightarrow>
   slice o' n (splice off ys xs) = slice o' n xs"
  by (intro nth_equalityI) (auto simp: nth_slice nth_splice)

lemma splice_Nil [simp]: "splice off [] xs = xs"
  by (simp add: splice_def)

lemma slice_slice:
  "o2 + n2 \<le> n1 \<Longrightarrow> slice o2 n2 (slice o1 n1 xs) = slice (o1 + o2) n2 xs"
  by (simp add: slice_def drop_take add.commute)

section \<open>Floor division\<close>

lemma zdiv_less_iff:
  assumes "0 < (w :: int)"
  shows "a div w < h \<longleftrightarrow> a < h * w"
proof -
  have "h \<le> a div w \<longleftrightarrow> h * w \<le> a"
  proof
    assume "h \<le> a div w"
    then have "h * w \<le> a div w * w" using assms by simp
    also have "\<dots> \<le> a" using assms by (simp add: div_mult_mod_eq minus_mod_eq_div_mult [symmetric])
    finally show "h * w \<le> a" .
  next
    assume "h * w \<le> a"
    then have "(h * w) div w \<le> a div w" using assms by (intro zdiv_mono1) auto
    with assms show "h \<le> a div w" by simp
  qed
  then show ?thesis by linarith
qed

lemma zmod_mono_same_div: "(a :: int) \<le> b \<Longrightarrow> a div w = b div w \<Longrightarrow> a mod w \<le> b mod w"
  by (simp add: minus_div_mult_eq_mod [symmetric])

section \<open>Masks on Python integers\<close>

text \<open>\<open>x & 0xFF\<close> on an unbounded integer.\<close>

definition mask_ff :: "int \<Rightarrow> int" where
  "mask_ff x = x AND 255"

lemma mask_ff_mod: "mask_ff x = x mod 256"
proof -
  have "x AND mask 8 = x mod 2 ^ 8"
    by (simp only: flip: take_bit_eq_mask take_bit_eq_mod)
  then show ?thesis by (simp add: mask_ff_def mask_eq_exp_minus_1)
qed

lemma mask_ff_bounds [simp]: "0 \<le> mask_ff x" "mask_ff x \<le> 255"
  by (simp_all add: mask_ff_mod)

definition byte_range :: "int \<Rightarrow> bool" where
  "byte_range v \<longleftrightarrow> 0 \<le> v \<and> v \<le> 255"

lemma byte_range_mask [simp, intro]: "byte_range (mask_ff x)"
  by (simp add: byte_range_def)

lemma byte_range_uint [simp, intro]: "byte_range (uint (b :: byte))"
  using unsigned_less [of b, where ?'a = int] by (simp add: byte_range_def)

lemma byte_range_01 [simp, intro]: "byte_range 0" "byte_range 1"
  by (simp_all add: byte_range_def)

lemma byte_range_div: "byte_range a \<Longrightarrow> byte_range b \<Longrightarrow> byte_range (a div b)"
proof -
  assume a: "byte_range a" and b: "byte_range b"
  show ?thesis
  proof (cases "b = 0")
    case False
    with b have "1 \<le> b" by (simp add: byte_range_def)
    with a show ?thesis
      using zdiv_mono2 [of a 1 b] by (auto simp: byte_range_def pos_imp_zdiv_nonneg_iff)
  qed simp
qed

text \<open>Round half to even at 53 significant bits.\<close>

definition round53 :: "nat \<Rightarrow> nat" where
  "round53 n =
     (let s = bit_length n - 53; q = n div 2 ^ s; r = 2 * (n mod 2 ^ s)
      in if r > 2 ^ s \<or> (r = 2 ^ s \<and> odd q) then (q + 1) * 2 ^ s else q * 2 ^ s)"

text \<open>Sorting commutes with a mapping that keeps the order of the keys.\<close>

lemma insort_key_map: "(\<And>x y. f (h x) \<le> f (h y) \<longleftrightarrow> g x \<le> g y) \<Longrightarrow> insort_key f (h x) (map h xs) = map h (insort_key g x xs)"
  by (induction xs) auto

lemma sort_key_map: "(\<And>x y. f (h x) \<le> f (h y) \<longleftrightarrow> g x \<le> g y) \<Longrightarrow> sort_key f (map h xs) = map h (sort_key g xs)"
  by (induction xs) (simp_all add: insort_key_map)

end
