(* ===== verification/Py_Text.thy ===== *)
theory Py_Text
  imports Prelude "HOL-Library.Char_ord" "HOL-Library.List_Lexorder"
begin

text \<open>
  The part of Python's text library the sources use: \<open>str.strip\<close>, \<open>str.split\<close> and
  \<open>str.upper\<close> on code points below 256, decimal formatting and parsing of integers, hexadecimal
  digests, and \<open>json.dumps(\<dots>, sort_keys=True, separators=(",", ":"))\<close> for the values the
  sources serialise (no floats). A HOL \<^typ>\<open>char\<close> is one Python code point here. CPython's
  limit of 4300 digits for integer conversions is not modelled.
\<close>

section \<open>Characters and words\<close>

definition char_code :: "char \<Rightarrow> nat" where
  "char_code c = of_char c"

text \<open>\<open>str.isspace\<close> on Latin-1 code points.\<close>

definition py_space :: "char \<Rightarrow> bool" where
  "py_space c \<longleftrightarrow> (let n = char_code c in
     (9 \<le> n \<and> n \<le> 13) \<or> (28 \<le> n \<and> n \<le> 32) \<or> n = 133 \<or> n = 160)"

definition py_lstrip :: "string \<Rightarrow> string" where
  "py_lstrip s = dropWhile py_space s"

definition py_strip :: "string \<Rightarrow> string" where
  "py_strip s = rev (py_lstrip (rev (py_lstrip s)))"

text \<open>\<open>s.split()\<close>: maximal runs of non-space characters; \<open>cur\<close> is the run being read.\<close>

fun split_from :: "string \<Rightarrow> string \<Rightarrow> string list" where
  "split_from cur [] = (if cur = [] then [] else [cur])"
| "split_from cur (c # cs) =
     (if py_space c then (if cur = [] then split_from [] cs else cur # split_from [] cs)
      else split_from (cur @ [c]) cs)"

definition py_split :: "string \<Rightarrow> string list" where
  "py_split s = split_from [] s"

text \<open>\<open>str.upper\<close>; only ASCII letters change, which decides membership among ASCII names.\<close>

definition upper_char :: "char \<Rightarrow> char" where
  "upper_char c = (let n = char_code c in
     if 97 \<le> n \<and> n \<le> 122 then char_of (n - 32) else c)"

definition py_upper :: "string \<Rightarrow> string" where
  "py_upper s = map upper_char s"

section \<open>Decimal numbers\<close>

definition digit_char :: "nat \<Rightarrow> char" where
  "digit_char d = char_of (48 + d)"

definition is_digit :: "char \<Rightarrow> bool" where
  "is_digit c \<longleftrightarrow> 48 \<le> char_code c \<and> char_code c \<le> 57"

definition digit_val :: "char \<Rightarrow> nat" where
  "digit_val c = char_code c - 48"

fun nat_str :: "nat \<Rightarrow> string" where
  "nat_str n = (if n < 10 then [digit_char n] else nat_str (n div 10) @ [digit_char (n mod 10)])"

declare nat_str.simps [simp del]

definition int_str :: "int \<Rightarrow> string" where
  "int_str i = (if i < 0 then CHR ''-'' # nat_str (nat (- i)) else nat_str (nat i))"

text \<open>
  The digits accepted by \<open>int(s)\<close>: at least one digit, single underscores between digits.
  The flag says whether the previous character was a digit.
\<close>

fun dec_scan :: "bool \<Rightarrow> nat \<Rightarrow> string \<Rightarrow> nat option" where
  "dec_scan d acc [] = (if d then Some acc else None)"
| "dec_scan d acc (c # cs) =
     (if is_digit c then dec_scan True (acc * 10 + digit_val c) cs
      else if c = CHR ''_'' \<and> d then dec_scan False acc cs
      else None)"

text \<open>\<open>int(s)\<close>; \<open>None\<close> is the \<open>ValueError\<close>.\<close>

definition py_int :: "string \<Rightarrow> int option" where
  "py_int s = (case py_strip s of
     [] \<Rightarrow> None
   | c # cs \<Rightarrow>
       if c = CHR ''-'' then map_option (\<lambda>n. - int n) (dec_scan False 0 cs)
       else if c = CHR ''+'' then map_option int (dec_scan False 0 cs)
       else map_option int (dec_scan False 0 (c # cs)))"

lemma char_code_digit [simp]: "d < 10 \<Longrightarrow> char_code (digit_char d) = 48 + d"
  by (simp add: char_code_def digit_char_def)

lemma digit_char_facts [simp]:
  assumes "d < 10"
  shows "is_digit (digit_char d)" "digit_val (digit_char d) = d" "\<not> py_space (digit_char d)"
  using assms by (simp_all add: is_digit_def digit_val_def py_space_def Let_def)

lemma digit_char_not_sign [simp]:
  assumes "d < 10"
  shows "digit_char d \<noteq> CHR ''-''" "digit_char d \<noteq> CHR ''+''"
  using assms char_code_digit [OF assms] by (auto simp: char_code_def)

lemma dec_scan_append_digits:
  "dec_scan d acc (nat_str n @ cs) = dec_scan True (acc * 10 ^ length (nat_str n) + n) cs"
proof (induction n arbitrary: d acc cs rule: nat_str.induct)
  case (1 n)
  show ?case
  proof (cases "n < 10")
    case False
    have "(acc * 10 ^ length (nat_str (n div 10)) + n div 10) * 10 + n mod 10 =
          acc * 10 ^ Suc (length (nat_str (n div 10))) + n"
      by (simp add: algebra_simps)
    then show ?thesis
      using False 1 [OF False, of d acc "digit_char (n mod 10) # cs"]
      by (simp add: nat_str.simps [of n] ac_simps)
  qed (simp add: nat_str.simps [of n])
qed

lemma nat_str_nonempty [simp]: "nat_str n \<noteq> []"
  by (subst nat_str.simps) simp

lemma nat_str_digits: "c \<in> set (nat_str n) \<Longrightarrow> \<exists>d < 10. c = digit_char d"
proof (induction n rule: nat_str.induct)
  case (1 n)
  have "\<exists>d<10. digit_char (n mod 10) = digit_char d"
    by (rule exI [of _ "n mod 10"]) simp
  with 1 show ?case
    by (cases "n < 10") (auto simp: nat_str.simps [of n])
qed

lemma nat_str_no_space: "c \<in> set (nat_str n) \<Longrightarrow> \<not> py_space c"
  using nat_str_digits by fastforce

lemma dropWhile_none: "(\<And>c. c \<in> set s \<Longrightarrow> \<not> P c) \<Longrightarrow> dropWhile P s = s"
  by (cases s) auto

lemma py_strip_id: "(\<And>c. c \<in> set s \<Longrightarrow> \<not> py_space c) \<Longrightarrow> py_strip s = s"
  using dropWhile_none [of s py_space] dropWhile_none [of "rev s" py_space]
  by (simp add: py_strip_def py_lstrip_def)

lemma py_space_minus [simp]: "\<not> py_space (CHR ''-'')"
  by (simp add: py_space_def char_code_def)

lemma int_str_no_space: "c \<in> set (int_str i) \<Longrightarrow> \<not> py_space c"
  by (auto simp: int_str_def split: if_splits dest: nat_str_no_space)

lemma py_strip_int_str: "py_strip (int_str i) = int_str i"
  by (rule py_strip_id) (rule int_str_no_space)

lemma int_str_nonempty [simp]: "int_str i \<noteq> []"
  by (simp add: int_str_def)

lemma dec_scan_nat_str [simp]: "dec_scan False 0 (nat_str n) = Some n"
  using dec_scan_append_digits [of False 0 n "[]"] by simp

lemma py_int_int_str [simp]: "py_int (int_str i) = Some i"
proof (cases "i < 0")
  case True
  then have "py_strip (int_str i) = CHR ''-'' # nat_str (nat (- i))"
    by (simp only: py_strip_int_str) (simp add: int_str_def)
  with True show ?thesis by (simp add: py_int_def)
next
  case False
  have strip: "py_strip (int_str i) = nat_str (nat i)"
    using False by (simp only: py_strip_int_str) (simp add: int_str_def)
  obtain c cs where c: "nat_str (nat i) = c # cs"
    by (cases "nat_str (nat i)") auto
  then obtain d where "d < 10" "c = digit_char d"
    using nat_str_digits [of c "nat i"] by auto
  with False strip c dec_scan_nat_str [of "nat i"] show ?thesis by (simp add: py_int_def)
qed

lemma split_from_word:
  "(\<And>c. c \<in> set w \<Longrightarrow> \<not> py_space c) \<Longrightarrow> split_from cur (w @ s) = split_from (cur @ w) s"
  by (induction w arbitrary: cur) auto

text \<open>An instruction of the form \<open>f"OP {n}"\<close> splits into its operation and its argument.\<close>

lemma py_split_op_arg:
  assumes "w \<noteq> []" "\<And>c. c \<in> set w \<Longrightarrow> \<not> py_space c"
  shows "py_split (w @ '' '' @ int_str i) = [w, int_str i]"
proof -
  have "split_from [] (w @ '' '' @ int_str i) = split_from w ('' '' @ int_str i)"
    using split_from_word [of w "[]"] assms(2) by simp
  also have "\<dots> = w # split_from [] (int_str i)"
    using assms(1) by (simp add: py_space_def char_code_def)
  also have "split_from [] (int_str i) = [int_str i]"
    using split_from_word [of "int_str i" "[]" "[]"] int_str_no_space by simp
  finally show ?thesis by (simp add: py_split_def)
qed

section \<open>Hexadecimal digests\<close>

definition hex_digit :: "nat \<Rightarrow> char" where
  "hex_digit d = (if d < 10 then char_of (48 + d) else char_of (87 + d))"

definition hexdigest :: "bytes \<Rightarrow> string" where
  "hexdigest bs = concat (map (\<lambda>b. [hex_digit (unat b div 16), hex_digit (unat b mod 16)]) bs)"

lemma length_hexdigest [simp]: "length (hexdigest bs) = 2 * length bs"
  by (induction bs) (auto simp: hexdigest_def)

lemma hex_digit_code: "n < 16 \<Longrightarrow> char_code (hex_digit n) = (if n < 10 then 48 + n else 87 + n)"
  by (simp add: hex_digit_def char_code_def)

lemma hex_digit_inj:
  assumes "d < 16" "e < 16" "hex_digit d = hex_digit e"
  shows "d = e"
proof -
  have "char_code (hex_digit d) = char_code (hex_digit e)"
    using assms(3) by simp
  with assms(1,2) show ?thesis
    by (simp add: hex_digit_code split: if_splits)
qed

text \<open>Two digests print alike only when they are the same bytes.\<close>

lemma hexdigest_inj: "hexdigest xs = hexdigest ys \<Longrightarrow> xs = ys"
proof (induction xs arbitrary: ys)
  case Nil
  then show ?case by (cases ys) (auto simp: hexdigest_def)
next
  case (Cons x xs)
  then obtain y ys' where ys: "ys = y # ys'"
    by (cases ys) (auto simp: hexdigest_def)
  from Cons.prems have
    h: "hex_digit (unat x div 16) = hex_digit (unat y div 16)"
    and l: "hex_digit (unat x mod 16) = hex_digit (unat y mod 16)"
    and t: "hexdigest xs = hexdigest ys'"
    by (auto simp: hexdigest_def ys)
  have "unat x div 16 < 16" "unat y div 16 < 16"
    using unat_byte_less [of x] unat_byte_less [of y] by simp_all
  with h have "unat x div 16 = unat y div 16"
    by (auto dest: hex_digit_inj)
  moreover from l have "unat x mod 16 = unat y mod 16"
    using hex_digit_inj [of "unat x mod 16" "unat y mod 16"] by simp
  ultimately have "x = y"
    by (metis div_mult_mod_eq word_unat_eq_iff)
  with Cons.IH [OF t] show ?case by (simp add: ys)
qed

section \<open>JSON text\<close>

datatype json =
    JNull
  | JBool bool
  | JInt int
  | JStr string
  | JList "json list"
  | JObj "(string \<times> json) list"

definition join :: "string \<Rightarrow> string list \<Rightarrow> string" where
  "join sep xs = (case xs of [] \<Rightarrow> [] | y # ys \<Rightarrow> concat (y # map (\<lambda>z. sep @ z) ys))"

text \<open>The string escapes of \<open>json.dumps\<close> with \<open>ensure_ascii\<close>.\<close>

definition json_char :: "char \<Rightarrow> string" where
  "json_char c = (let n = char_code c in
     if n = 34 then [CHR 0x5C, CHR 0x22]
     else if n = 92 then [CHR 0x5C, CHR 0x5C]
     else if n = 8 then [CHR 0x5C, CHR ''b'']
     else if n = 9 then [CHR 0x5C, CHR ''t'']
     else if n = 10 then [CHR 0x5C, CHR ''n'']
     else if n = 12 then [CHR 0x5C, CHR ''f'']
     else if n = 13 then [CHR 0x5C, CHR ''r'']
     else if n < 32 \<or> 126 < n
       then [CHR 0x5C, CHR ''u'', CHR ''0'', CHR ''0'', hex_digit (n div 16), hex_digit (n mod 16)]
     else [c])"

definition json_string :: "string \<Rightarrow> string" where
  "json_string s = [CHR 0x22] @ concat (map json_char s) @ [CHR 0x22]"

lemma json_size_obj: "p \<in> set kvs \<Longrightarrow> size (snd p) < Suc (size_list (size_prod (\<lambda>x. 0) size) kvs)"
  by (induction kvs) auto

function json_dumps :: "json \<Rightarrow> string" where
  "json_dumps JNull = ''null''"
| "json_dumps (JBool b) = (if b then ''true'' else ''false'')"
| "json_dumps (JInt i) = int_str i"
| "json_dumps (JStr s) = json_string s"
| "json_dumps (JList xs) = ''['' @ join '','' (map json_dumps xs) @ '']''"
| "json_dumps (JObj kvs) =
     ''{'' @ join '','' (map (\<lambda>p. json_string (fst p) @ '':'' @ json_dumps (snd p))
       (sort_key fst kvs)) @ ''}''"
  by pat_completeness auto
termination
proof (relation "measure size", goal_cases)
  case (3 kvs p)
  then have "p \<in> set kvs" by simp
  then show ?case using json_size_obj [of p kvs] by simp
qed (auto simp: less_Suc_eq_le size_list_estimation')

text \<open>Encoded text: every character \<open>json.dumps\<close> emits is ASCII, one byte each.\<close>

definition encode_ascii :: "string \<Rightarrow> bytes" where
  "encode_ascii s = map (\<lambda>c. of_nat (char_code c)) s"

lemma length_encode_ascii [simp]: "length (encode_ascii s) = length s"
  by (simp add: encode_ascii_def)

lemma encode_ascii_inj: "encode_ascii s = encode_ascii t \<Longrightarrow> s = t"
proof -
  have "inj (\<lambda>c. of_nat (char_code c) :: byte)"
  proof (rule injI)
    fix c d :: char
    assume eq: "(of_nat (char_code c) :: byte) = of_nat (char_code d)"
    have "unat (of_nat (char_code x) :: byte) = char_code x" for x
      by (simp add: char_code_def unat_of_nat)
    with eq have "char_code c = char_code d" by metis
    then show "c = d" by (simp add: char_code_def)
  qed
  then show "encode_ascii s = encode_ascii t \<Longrightarrow> s = t"
    by (simp add: encode_ascii_def inj_map_eq_map)
qed

end
