(* ===== verification/Pyxel_VM.thy ===== *)
theory Pyxel_VM
  imports Py_Text
begin

text \<open>
  The virtual machine of \<^verbatim>\<open>zdx_parallel_vm.py\<close>: an RGB raster is executed column by column,
  every column by all threads in order, thread \<open>y\<close> reading row \<open>y\<close>.

  \<^item> \<^verbatim>\<open>raster\<close> is the decoded image: width, height and the pixels in row-major order. The types
    carry the check that the array is an \<open>HxWx3\<close> array of \<open>uint8\<close>.
  \<^item> \<^verbatim>\<open>vm\<close> is the object state. The register dictionary \<open>T0, T1, \<dots>\<close> is a list indexed by the
    thread number, the shared dictionary \<open>M0..M7\<close> a list of eight integers; Python integers stay
    unbounded.
  \<^item> \<^verbatim>\<open>exec_ctx\<close> is the local state of one frame: halted threads, pending skips, the requested
    next frame and the jump of the current column.
  \<^item> \<^verbatim>\<open>exec_instr\<close>, \<^verbatim>\<open>exec_thread\<close>, \<^verbatim>\<open>exec_column\<close>, \<^verbatim>\<open>run_columns\<close> and \<^verbatim>\<open>execute_array\<close> are
    \<open>_execute_array\<close> from the inside out. An exception keeps the state the machine had when it
    was raised, as the mutated Python object does. The column budget \<open>max_col_steps\<close> is the
    recursion argument of \<^verbatim>\<open>run_columns\<close>, so the loop is total without any added fuel.
  \<^item> \<^verbatim>\<open>execute_texture\<close> chains frames; decoding an image file and the existence of a file are
    parameters. Debug output is not modelled.

  The lemmas show the byte invariant of registers and shared memory, that rows outside the thread
  plane are never read, that halted and absent threads are frozen, that jump-free frames end
  within the budget, and what a successful or failed execution does to the checkpoint lineage.
\<close>

section \<open>Rasters and opcode maps\<close>

type_synonym pixel = "byte \<times> byte \<times> byte"

record raster =
  rwidth :: nat
  rheight :: nat
  rcells :: "pixel list"

definition raster_ok :: "raster \<Rightarrow> bool" where
  "raster_ok arr \<longleftrightarrow> length (rcells arr) = rwidth arr * rheight arr"

definition pixel_at :: "raster \<Rightarrow> nat \<Rightarrow> nat \<Rightarrow> pixel" where
  "pixel_at arr y x = rcells arr ! (y * rwidth arr + x)"

type_synonym opcode_map = "(string, pixel) dict"

definition MAP :: opcode_map where
  "MAP = [
    (''SET_REG'', (10, 0, 0)), (''SET_B'', (11, 0, 0)), (''NOT'', (12, 0, 0)),
    (''ADD_THREAD'', (20, 0, 0)), (''SUB'', (21, 0, 0)), (''MUL'', (22, 0, 0)),
    (''DIV'', (23, 0, 0)), (''IF_A_EQ'', (30, 0, 0)), (''CMP'', (31, 0, 0)),
    (''LOAD_MEM'', (40, 0, 0)), (''STORE_MEM'', (41, 0, 0)), (''VERIFY_FREQ'', (50, 0, 0)),
    (''SAVE_STATE'', (60, 0, 0)), (''JMP'', (70, 0, 0)), (''COPY_OUT'', (24, 0, 0)),
    (''HALT'', (255, 0, 0))]"

text \<open>\<open>{v[0]: k for k, v in opmap.items()}\<close>: a later entry with the same R wins.\<close>

definition rev_opmap :: "opcode_map \<Rightarrow> byte \<Rightarrow> string option" where
  "rev_opmap m r = map_of (rev (map (\<lambda>(k, v). (fst v, k)) m)) r"

section \<open>Machine state\<close>

record thread_regs =
  reg_A :: int
  reg_B :: int
  reg_OUT :: int
  reg_T :: int

definition zero_regs :: thread_regs where
  "zero_regs = \<lparr>reg_A = 0, reg_B = 0, reg_OUT = 0, reg_T = 0\<rparr>"

record vm =
  threads :: nat
  strict_mode :: bool
  persist_shared :: bool
  max_chain :: nat
  max_col_steps :: nat
  opmap :: opcode_map
  clock :: int
  registers :: "thread_regs list"
  shared :: "int list"
  mem_map :: "(string, string) dict"
  next_frame :: "string option"
  frame_registry :: "(int, string) dict"
  execution_generation :: nat
  last_checkpoint_hash :: string
  shared_store :: "(string, json) dict option"

record exec_ctx =
  halted :: "nat set"
  skip_next :: "nat \<Rightarrow> bool"
  chain_to :: "string option"
  jump_to :: "nat option"

type_synonym xstate = "vm \<times> exec_ctx"
type_synonym xresult = "py_error option \<times> vm \<times> exec_ctx"

section \<open>Checkpoint hash and generations\<close>

definition thread_name :: "nat \<Rightarrow> string" where
  "thread_name i = ''T'' @ nat_str i"

definition slot_name :: "nat \<Rightarrow> string" where
  "slot_name i = ''M'' @ nat_str i"

definition registers_dict :: "thread_regs list \<Rightarrow> (string, thread_regs) dict" where
  "registers_dict rs = map (\<lambda>i. (thread_name i, rs ! i)) [0..<length rs]"

definition shared_dict :: "int list \<Rightarrow> (string, int) dict" where
  "shared_dict ms = map (\<lambda>i. (slot_name i, ms ! i)) [0..<length ms]"

definition regs_json :: "thread_regs \<Rightarrow> json" where
  "regs_json r = JObj [(''A'', JInt (reg_A r)), (''B'', JInt (reg_B r)),
     (''OUT'', JInt (reg_OUT r)), (''T'', JInt (reg_T r))]"

definition CHECKPOINT_HASH_DOMAIN :: bytes where
  "CHECKPOINT_HASH_DOMAIN = encode_ascii ''zdx-vm-checkpoint-v1'' @ [0]"

definition checkpoint_payload ::
    "int \<Rightarrow> int \<Rightarrow> (string, thread_regs) dict \<Rightarrow> (string, int) dict \<Rightarrow> json" where
  "checkpoint_payload generation clk regs sh =
     JObj [(''generation'', JInt generation), (''clock'', JInt clk),
       (''registers'', JObj (map (\<lambda>(n, r). (n, regs_json r)) (sort_key fst regs))),
       (''shared'', JObj (map (\<lambda>(n, v). (n, JInt v)) (sort_key fst sh)))]"

definition compute_vm_checkpoint_hash ::
    "(bytes \<Rightarrow> bytes) \<Rightarrow> int \<Rightarrow> int \<Rightarrow> (string, thread_regs) dict \<Rightarrow> (string, int) dict \<Rightarrow>
     string result" where
  "compute_vm_checkpoint_hash sha generation clk regs sh =
     (if generation < 0 then Inl (ValueError ''generation must be a non-negative integer'')
      else Inr (hexdigest (sha (CHECKPOINT_HASH_DOMAIN @
        encode_ascii (json_dumps (checkpoint_payload generation clk regs sh))))))"

definition vm_hash :: "(bytes \<Rightarrow> bytes) \<Rightarrow> vm \<Rightarrow> string" where
  "vm_hash sha v = hexdigest (sha (CHECKPOINT_HASH_DOMAIN @ encode_ascii (json_dumps
     (checkpoint_payload (int (execution_generation v)) (clock v)
       (registers_dict (registers v)) (shared_dict (shared v))))))"

lemma vm_hash_compute:
  "compute_vm_checkpoint_hash sha (int (execution_generation v)) (clock v)
     (registers_dict (registers v)) (shared_dict (shared v)) = Inr (vm_hash sha v)"
  by (simp add: compute_vm_checkpoint_hash_def vm_hash_def)

definition record_execution_generation :: "(bytes \<Rightarrow> bytes) \<Rightarrow> vm \<Rightarrow> vm" where
  "record_execution_generation sha v =
     (let v' = v\<lparr>execution_generation := Suc (execution_generation v)\<rparr>
      in v'\<lparr>last_checkpoint_hash := vm_hash sha v'\<rparr>)"

record vm_marker =
  mk_generation :: int
  mk_clock :: int
  mk_hash :: string

definition checkpoint_marker :: "vm \<Rightarrow> vm_marker" where
  "checkpoint_marker v =
     \<lparr>mk_generation = int (execution_generation v), mk_clock = clock v,
      mk_hash = last_checkpoint_hash v\<rparr>"

definition restore_checkpoint ::
    "(bytes \<Rightarrow> bytes) \<Rightarrow> int \<Rightarrow> int \<Rightarrow> (string, thread_regs) dict \<Rightarrow> (string, int) dict \<Rightarrow> string \<Rightarrow>
     vm \<Rightarrow> vm result" where
  "restore_checkpoint sha generation clk regs sh chash v =
     rbind (compute_vm_checkpoint_hash sha generation clk regs sh) (\<lambda>actual.
       if actual \<noteq> chash then
         Inl (ValueError ''persisted VM checkpoint hash does not match checkpoint state'')
       else if dkeys regs \<noteq> thread_name ` {0..<threads v} then
         Inl (ValueError ''persisted register set does not match VM thread geometry'')
       else if dkeys sh \<noteq> slot_name ` {0..<length (shared v)} then
         Inl (ValueError ''persisted shared-memory set does not match VM'')
       else Inr (v\<lparr>
         registers := map (\<lambda>i. the (dget regs (thread_name i))) [0..<threads v],
         shared := map (\<lambda>i. the (dget sh (slot_name i))) [0..<length (shared v)],
         execution_generation := nat generation,
         clock := clk,
         last_checkpoint_hash := chash\<rparr>))"

section \<open>Construction and shared memory\<close>

text \<open>
  \<open>int(v)\<close> of a JSON value read back from the shared-memory file; \<open>None\<close> stands for the
  \<open>TypeError\<close> or \<open>ValueError\<close> the loop swallows.
\<close>

fun json_int :: "json \<Rightarrow> int option" where
  "json_int (JInt i) = Some i"
| "json_int (JBool b) = Some (if b then 1 else 0)"
| "json_int (JStr s) = py_int s"
| "json_int _ = None"

fun load_entries :: "(string, json) dict \<Rightarrow> int list \<Rightarrow> int list" where
  "load_entries [] ms = ms"
| "load_entries ((k, v) # kvs) ms =
     load_entries kvs
       (case map_of (map (\<lambda>i. (slot_name i, i)) [0..<length ms]) k of
          None \<Rightarrow> ms
        | Some i \<Rightarrow> (case json_int v of None \<Rightarrow> ms | Some n \<Rightarrow> ms[i := n]))"

text \<open>
  \<open>shared_store\<close> is what the file at \<open>shared_path\<close> holds; \<open>None\<close> is a file whose read raises,
  which the loader swallows.
\<close>

definition load_shared :: "vm \<Rightarrow> vm" where
  "load_shared v =
     (case shared_store v of None \<Rightarrow> v | Some data \<Rightarrow> v\<lparr>shared := load_entries data (shared v)\<rparr>)"

definition vm_init ::
    "(bytes \<Rightarrow> bytes) \<Rightarrow> int \<Rightarrow> bool \<Rightarrow> bool \<Rightarrow> opcode_map option \<Rightarrow> int \<Rightarrow> int \<Rightarrow>
     (string, json) dict option \<Rightarrow> vm result" where
  "vm_init sha thr persist strict omap mchain mcols stored =
     (if thr < 1 then Inl (ValueError ''threads must be >= 1'')
      else if mchain < 1 then Inl (ValueError ''max_chain must be >= 1'')
      else if mcols < 1 then Inl (ValueError ''max_col_steps must be >= 1'')
      else
        (let v0 = \<lparr>threads = nat thr, strict_mode = strict, persist_shared = persist,
                   max_chain = nat mchain, max_col_steps = nat mcols,
                   opmap = (case omap of None \<Rightarrow> MAP | Some m \<Rightarrow> m),
                   clock = 0,
                   registers = replicate (nat thr) zero_regs,
                   shared = replicate 8 0,
                   mem_map = [],
                   next_frame = None,
                   frame_registry = [(0, ''whisperframe_B.png'')],
                   execution_generation = 0,
                   last_checkpoint_hash = '''',
                   shared_store = stored\<rparr>;
             v1 = v0\<lparr>last_checkpoint_hash := vm_hash sha v0\<rparr>
         in Inr (if persist then load_shared v1 else v1)))"

definition set_mem_map :: "(string, string) dict \<Rightarrow> vm \<Rightarrow> vm" where
  "set_mem_map m v = v\<lparr>mem_map := m\<rparr>"

definition register_frame :: "int \<Rightarrow> string \<Rightarrow> vm \<Rightarrow> vm" where
  "register_frame idx path v = v\<lparr>frame_registry := dset idx path (frame_registry v)\<rparr>"

section \<open>One instruction\<close>

definition upd_thread :: "nat \<Rightarrow> (thread_regs \<Rightarrow> thread_regs) \<Rightarrow> vm \<Rightarrow> vm" where
  "upd_thread y f v = v\<lparr>registers := (registers v)[y := f (registers v ! y)]\<rparr>"

definition exec_instr ::
    "raster \<Rightarrow> nat \<Rightarrow> nat \<Rightarrow> string option \<Rightarrow> pixel \<Rightarrow> vm \<Rightarrow> exec_ctx \<Rightarrow> xresult" where
  "exec_instr arr x y opcode px v c =
     (let (r, g, b) = px;
          t = registers v ! y;
          ok = (\<lambda>v'. (None, v', c));
          width = rwidth arr
      in
      if opcode = Some ''HALT'' then (None, v, c\<lparr>halted := insert y (halted c)\<rparr>)
      else if opcode = Some ''SAVE_STATE'' then
        (case dget (frame_registry v) (uint g) of
           Some f \<Rightarrow> (None, v\<lparr>next_frame := Some f\<rparr>, c\<lparr>chain_to := Some f\<rparr>)
         | None \<Rightarrow> (None, v, c))
      else if opcode = Some ''VERIFY_FREQ'' then
        ok (upd_thread y (\<lambda>t. t\<lparr>reg_A := (if px = pixel_at arr y (width - 1 - x) then 1 else 0)\<rparr>) v)
      else if opcode = Some ''SET_REG'' then ok (upd_thread y (\<lambda>t. t\<lparr>reg_A := uint b\<rparr>) v)
      else if opcode = Some ''SET_B'' then ok (upd_thread y (\<lambda>t. t\<lparr>reg_B := uint b\<rparr>) v)
      else if opcode = Some ''ADD_THREAD'' then
        ok (upd_thread y (\<lambda>t. t\<lparr>reg_OUT := mask_ff (reg_A t + reg_B t)\<rparr>) v)
      else if opcode = Some ''IF_A_EQ'' then
        (if reg_A t \<noteq> uint b then (None, v, c\<lparr>skip_next := (skip_next c)(y := True)\<rparr>)
         else (None, v, c))
      else if opcode = Some ''LOAD_MEM'' then
        (if unat g < length (shared v)
         then ok (upd_thread y (\<lambda>t. t\<lparr>reg_A := shared v ! unat g\<rparr>) v)
         else if strict_mode v then (Some (ValueError ''LOAD_MEM invalid address''), v, c)
         else (None, v, c))
      else if opcode = Some ''STORE_MEM'' then
        (if unat g < length (shared v)
         then ok (v\<lparr>shared := (shared v)[unat g := reg_A t]\<rparr>)
         else if strict_mode v then (Some (ValueError ''STORE_MEM invalid address''), v, c)
         else (None, v, c))
      else if opcode = Some ''NOT'' then
        ok (upd_thread y (\<lambda>t. t\<lparr>reg_A := mask_ff (NOT (reg_A t))\<rparr>) v)
      else if opcode = Some ''SUB'' then
        ok (upd_thread y (\<lambda>t. t\<lparr>reg_A := mask_ff (reg_A t - reg_B t)\<rparr>) v)
      else if opcode = Some ''MUL'' then
        ok (upd_thread y (\<lambda>t. t\<lparr>reg_A := mask_ff (reg_A t * reg_B t)\<rparr>) v)
      else if opcode = Some ''DIV'' then
        ok (upd_thread y (\<lambda>t. t\<lparr>reg_A := (if reg_B t \<noteq> 0 then reg_A t div reg_B t else 0)\<rparr>) v)
      else if opcode = Some ''CMP'' then
        ok (upd_thread y (\<lambda>t. t\<lparr>reg_OUT := (if reg_A t = reg_B t then 1 else 0)\<rparr>) v)
      else if opcode = Some ''COPY_OUT'' then
        ok (upd_thread y (\<lambda>t. t\<lparr>reg_A := reg_OUT t\<rparr>) v)
      else if opcode = Some ''JMP'' then
        (if jump_to c = None \<and> unat g < width then (None, v, c\<lparr>jump_to := Some (unat g)\<rparr>)
         else (None, v, c))
      else if r \<noteq> 0 \<and> strict_mode v then (Some (ValueError ''Unknown opcode''), v, c)
      else (None, v, c))"

section \<open>Threads, columns, frames\<close>

definition exec_thread :: "raster \<Rightarrow> nat \<Rightarrow> nat \<Rightarrow> vm \<Rightarrow> exec_ctx \<Rightarrow> xresult" where
  "exec_thread arr x y v c =
     (if rheight arr \<le> y \<or> y \<in> halted c then (None, v, c)
      else if skip_next c y then (None, v, c\<lparr>skip_next := (skip_next c)(y := False)\<rparr>)
      else
        (let v' = upd_thread y (\<lambda>t. t\<lparr>reg_T := int x\<rparr>) v;
             px = pixel_at arr y x
         in exec_instr arr x y (rev_opmap (opmap v) (fst px)) px v' c))"

text \<open>The \<open>for y in range(self.threads)\<close> loop; an exception leaves it at once.\<close>

fun exec_threads :: "raster \<Rightarrow> nat \<Rightarrow> nat list \<Rightarrow> vm \<Rightarrow> exec_ctx \<Rightarrow> xresult" where
  "exec_threads arr x [] v c = (None, v, c)"
| "exec_threads arr x (y # ys) v c =
     (case exec_thread arr x y v c of
        (Some e, v', c') \<Rightarrow> (Some e, v', c')
      | (None, v', c') \<Rightarrow> exec_threads arr x ys v' c')"

definition exec_column :: "raster \<Rightarrow> nat \<Rightarrow> vm \<Rightarrow> exec_ctx \<Rightarrow> xresult" where
  "exec_column arr x v c =
     exec_threads arr x [0..<threads v] (v\<lparr>clock := int x\<rparr>) (c\<lparr>jump_to := None\<rparr>)"

definition next_column :: "nat \<Rightarrow> exec_ctx \<Rightarrow> nat" where
  "next_column x c = (case jump_to c of Some t \<Rightarrow> t | None \<Rightarrow> Suc x)"

text \<open>The \<open>while\<close> loop; the first argument is \<open>max_col_steps - _step\<close>.\<close>

fun run_columns :: "nat \<Rightarrow> raster \<Rightarrow> nat \<Rightarrow> vm \<Rightarrow> exec_ctx \<Rightarrow> xresult" where
  "run_columns 0 arr x v c =
     (if x < rwidth arr then (Some (RuntimeError ''max_col_steps reached''), v, c)
      else (None, v, c))"
| "run_columns (Suc n) arr x v c =
     (if x < rwidth arr then
        (case exec_column arr x v c of
           (Some e, v', c') \<Rightarrow> (Some e, v', c')
         | (None, v', c') \<Rightarrow> run_columns n arr (next_column x c') v' c')
      else (None, v, c))"

definition fresh_ctx :: exec_ctx where
  "fresh_ctx = \<lparr>halted = {}, skip_next = (\<lambda>_. False), chain_to = None, jump_to = None\<rparr>"

definition execute_array :: "raster \<Rightarrow> vm \<Rightarrow> string option result \<times> vm" where
  "execute_array arr v =
     (case run_columns (max_col_steps v) arr 0 (v\<lparr>next_frame := None\<rparr>) fresh_ctx of
        (Some e, v', c') \<Rightarrow> (Inl e, v')
      | (None, v', c') \<Rightarrow> (Inr (chain_to c'), v'))"

section \<open>Chained frames\<close>

text \<open>\<open>load\<close> decodes an image file to RGB; \<open>None\<close> is a file that cannot be opened.\<close>

definition execute_single ::
    "(string \<Rightarrow> raster option) \<Rightarrow> string \<Rightarrow> vm \<Rightarrow> string option result \<times> vm" where
  "execute_single load path v =
     (case load path of
        None \<Rightarrow> (Inl (OSError ''cannot open image''), v)
      | Some arr \<Rightarrow> execute_array arr v)"

text \<open>The \<open>for i in range(self.max_chain)\<close> loop with its \<open>else\<close> branch.\<close>

fun chain_frames ::
    "(string \<Rightarrow> raster option) \<Rightarrow> (string \<Rightarrow> bool) \<Rightarrow> nat \<Rightarrow> bool \<Rightarrow> string \<Rightarrow> vm \<Rightarrow> unit result \<times> vm" where
  "chain_frames load exists 0 chained cur v =
     (if chained then (Inl (RuntimeError ''max_chain reached''), v) else (Inr (), v))"
| "chain_frames load exists (Suc n) chained cur v =
     (case execute_single load cur v of
        (Inl e, v') \<Rightarrow> (Inl e, v')
      | (Inr None, v') \<Rightarrow> (Inr (), v')
      | (Inr (Some nxt), v') \<Rightarrow>
          if \<not> exists nxt then (Inl (FileNotFoundError ''SAVE_STATE chained to a missing file''), v')
          else chain_frames load exists n True nxt v')"

text \<open>A save that fails only prints a warning; the model has the save that succeeds.\<close>

definition save_shared :: "vm \<Rightarrow> vm" where
  "save_shared v =
     v\<lparr>shared_store := Some (map (\<lambda>(k, n). (k, JInt n)) (shared_dict (shared v)))\<rparr>"

definition finish_execution :: "(bytes \<Rightarrow> bytes) \<Rightarrow> vm \<Rightarrow> vm" where
  "finish_execution sha v =
     record_execution_generation sha (if persist_shared v then save_shared v else v)"

definition execute_texture ::
    "(bytes \<Rightarrow> bytes) \<Rightarrow> (string \<Rightarrow> raster option) \<Rightarrow> (string \<Rightarrow> bool) \<Rightarrow> string \<Rightarrow> vm \<Rightarrow>
     thread_regs list result \<times> vm" where
  "execute_texture sha load exists path v =
     (case chain_frames load exists (max_chain v) False path v of
        (Inl e, v') \<Rightarrow> (Inl e, v')
      | (Inr _, v') \<Rightarrow>
          (let v'' = finish_execution sha v' in (Inr (registers v''), v'')))"

section \<open>Configuration is untouched by execution\<close>

definition vm_static where
  "vm_static v = ((threads v, strict_mode v, persist_shared v, max_chain v, max_col_steps v),
     (opmap v, mem_map v, frame_registry v),
     (execution_generation v, last_checkpoint_hash v, shared_store v),
     (length (registers v), length (shared v)))"

lemma vm_staticD:
  assumes "vm_static v' = vm_static v"
  shows "threads v' = threads v" "strict_mode v' = strict_mode v"
    "persist_shared v' = persist_shared v" "max_chain v' = max_chain v"
    "max_col_steps v' = max_col_steps v" "opmap v' = opmap v"
    "execution_generation v' = execution_generation v"
    "last_checkpoint_hash v' = last_checkpoint_hash v"
    "length (registers v') = length (registers v)" "length (shared v') = length (shared v)"
  using assms by (simp_all add: vm_static_def)

lemma upd_thread_simps [simp]:
  "threads (upd_thread y f v) = threads v" "strict_mode (upd_thread y f v) = strict_mode v"
  "shared (upd_thread y f v) = shared v" "opmap (upd_thread y f v) = opmap v"
  "frame_registry (upd_thread y f v) = frame_registry v"
  "registers (upd_thread y f v) = (registers v)[y := f (registers v ! y)]"
  "vm_static (upd_thread y f v) = vm_static v"
  by (simp_all add: upd_thread_def vm_static_def)

lemmas instr_unfold = exec_instr_def Let_def split_def

lemma exec_instr_static:
  "exec_instr arr x y op px v c = (e, v', c') \<Longrightarrow> vm_static v' = vm_static v"
  by (auto simp: instr_unfold split: if_splits option.splits) (simp_all add: vm_static_def)

lemma exec_thread_static:
  "exec_thread arr x y v c = (e, v', c') \<Longrightarrow> vm_static v' = vm_static v"
  by (auto simp: exec_thread_def Let_def split: if_splits dest!: exec_instr_static)

section \<open>Invariants of a frame\<close>

text \<open>
  A predicate on the machine and its frame-local state that every thread step keeps, and that the
  start of a column keeps, is kept by whole columns and whole frames, whatever the outcome. The
  proofs below only have to look at one thread step.
\<close>

locale frame_invariant =
  fixes arr :: raster
    and P :: "vm \<Rightarrow> exec_ctx \<Rightarrow> bool"
  assumes thread_step:
      "P v c \<Longrightarrow> y < threads v \<Longrightarrow> x < rwidth arr \<Longrightarrow> exec_thread arr x y v c = (e, v', c') \<Longrightarrow> P v' c'"
    and column_start: "P v c \<Longrightarrow> P (v\<lparr>clock := int x\<rparr>) (c\<lparr>jump_to := None\<rparr>)"
begin

lemma threads_keep:
  "exec_threads arr x ys v c = (e, v', c') \<Longrightarrow> P v c \<Longrightarrow> x < rwidth arr \<Longrightarrow>
   \<forall>y \<in> set ys. y < threads v \<Longrightarrow> P v' c'"
proof (induction ys arbitrary: v c)
  case (Cons y ys)
  obtain e1 v1 c1 where step: "exec_thread arr x y v c = (e1, v1, c1)"
    by (cases "exec_thread arr x y v c") auto
  then have P1: "P v1 c1"
    using Cons.prems thread_step by auto
  have th: "threads v1 = threads v"
    using vm_staticD(1) [OF exec_thread_static [OF step]] .
  show ?case
  proof (cases e1)
    case None
    then show ?thesis
      using Cons.IH [of v1 c1] Cons.prems step P1 th by simp
  qed (use Cons.prems step P1 in auto)
qed simp

lemma column_keeps:
  "exec_column arr x v c = (e, v', c') \<Longrightarrow> P v c \<Longrightarrow> x < rwidth arr \<Longrightarrow> P v' c'"
  using threads_keep [of x _ "v\<lparr>clock := int x\<rparr>" "c\<lparr>jump_to := None\<rparr>" e v' c'] column_start
  by (simp add: exec_column_def)

lemma columns_keep: "run_columns n arr x v c = (e, v', c') \<Longrightarrow> P v c \<Longrightarrow> P v' c'"
proof (induction n arbitrary: x v c)
  case (Suc n)
  show ?case
  proof (cases "x < rwidth arr")
    case True
    obtain e1 v1 c1 where col: "exec_column arr x v c = (e1, v1, c1)"
      by (cases "exec_column arr x v c") auto
    with True Suc.prems have "P v1 c1"
      using column_keeps by blast
    then show ?thesis
      using Suc.IH [of "next_column x c1" v1 c1] Suc.prems True col by (cases e1) auto
  qed (use Suc.prems in simp)
qed (simp split: if_splits)

end

interpretation static: frame_invariant arr "\<lambda>v c. vm_static v = s" for arr s
proof unfold_locales
  fix v c y x e v' c'
  assume "vm_static v = s" "exec_thread arr x y v c = (e, v', c')"
  then show "vm_static v' = s" by (simp add: exec_thread_static)
qed (simp add: vm_static_def)

lemma exec_column_static: "exec_column arr x v c = (e, v', c') \<Longrightarrow> x < rwidth arr \<Longrightarrow> vm_static v' = vm_static v"
  using static.column_keeps [of arr x v c e v' c' "vm_static v"] by simp

lemma execute_array_static: "execute_array arr v = (res, v') \<Longrightarrow> vm_static v' = vm_static v"
  by (auto simp: execute_array_def vm_static_def [of "v\<lparr>next_frame := None\<rparr>"]
      dest!: static.columns_keep [where s = "vm_static v"] split: prod.splits option.splits)
    (auto simp: vm_static_def)

lemma chain_frames_static: "chain_frames load ex n ch cur v = (res, v') \<Longrightarrow> vm_static v' = vm_static v"
proof (induction n arbitrary: ch cur v)
  case (Suc n)
  then show ?case
    by (auto simp: execute_single_def dest!: execute_array_static
        split: prod.splits sum.splits option.splits if_splits)
qed (simp split: if_splits)

section \<open>The byte invariant\<close>

definition regs_bytes :: "thread_regs \<Rightarrow> bool" where
  "regs_bytes t \<longleftrightarrow> byte_range (reg_A t) \<and> byte_range (reg_B t) \<and> byte_range (reg_OUT t)"

definition vm_bytes :: "vm \<Rightarrow> bool" where
  "vm_bytes v \<longleftrightarrow> length (registers v) = threads v \<and>
     (\<forall>t \<in> set (registers v). regs_bytes t) \<and> (\<forall>m \<in> set (shared v). byte_range m)"

lemma vm_bytes_nth: "vm_bytes v \<Longrightarrow> y < threads v \<Longrightarrow> regs_bytes (registers v ! y)"
  by (simp add: vm_bytes_def)

lemma vm_bytes_upd:
  assumes "vm_bytes v" "y < threads v" "regs_bytes (registers v ! y) \<Longrightarrow> regs_bytes (f (registers v ! y))"
  shows "vm_bytes (upd_thread y f v)"
  using assms(1) assms(3) [OF vm_bytes_nth [OF assms(1,2)]]
  by (auto simp: vm_bytes_def dest!: set_update_subset_insert [THEN subsetD])

lemma vm_bytes_store:
  "vm_bytes v \<Longrightarrow> byte_range m \<Longrightarrow> vm_bytes (v\<lparr>shared := (shared v)[i := m]\<rparr>)"
  by (auto simp: vm_bytes_def dest!: set_update_subset_insert [THEN subsetD])

lemma vm_bytes_shared: "vm_bytes v \<Longrightarrow> i < length (shared v) \<Longrightarrow> byte_range (shared v ! i)"
  by (simp add: vm_bytes_def)

lemma vm_bytes_other [simp]:
  "vm_bytes (v\<lparr>next_frame := n\<rparr>) = vm_bytes v" "vm_bytes (v\<lparr>clock := k\<rparr>) = vm_bytes v"
  by (simp_all add: vm_bytes_def)

lemma exec_instr_bytes:
  assumes "exec_instr arr x y op px v c = (e, v', c')" "vm_bytes v" "y < threads v"
  shows "vm_bytes v'"
  using assms vm_bytes_nth [OF assms(2,3)]
  by (auto simp: instr_unfold split: if_splits option.splits
      intro!: vm_bytes_upd vm_bytes_store intro: vm_bytes_shared [OF assms(2)]
      simp: regs_bytes_def byte_range_div)

lemma exec_thread_bytes:
  assumes "exec_thread arr x y v c = (e, v', c')" "vm_bytes v" "y < threads v"
  shows "vm_bytes v'"
proof -
  have "vm_bytes (upd_thread y (\<lambda>t. t\<lparr>reg_T := int x\<rparr>) v)"
    using assms(2,3) by (intro vm_bytes_upd) (auto simp: regs_bytes_def)
  with assms exec_instr_bytes show ?thesis
    by (fastforce simp: exec_thread_def Let_def split: if_splits)
qed

interpretation bytes: frame_invariant arr "\<lambda>v c. vm_bytes v" for arr
  by unfold_locales (auto dest: exec_thread_bytes)

lemma array_keeps_bytes: "execute_array arr v = (res, v') \<Longrightarrow> vm_bytes v \<Longrightarrow> vm_bytes v'"
  using bytes.columns_keep [of "max_col_steps v" arr 0 "v\<lparr>next_frame := None\<rparr>" fresh_ctx]
  by (auto simp: execute_array_def split: prod.splits option.splits)

lemma chain_keeps_bytes: "chain_frames load ex n ch cur v = (res, v') \<Longrightarrow> vm_bytes v \<Longrightarrow> vm_bytes v'"
proof (induction n arbitrary: ch cur v)
  case (Suc n)
  then show ?case
    by (auto simp: execute_single_def split: prod.splits sum.splits option.splits if_splits
        dest: array_keeps_bytes)
qed (simp split: if_splits)

lemma finish_keeps_bytes [simp]: "vm_bytes (finish_execution sha v) = vm_bytes v"
  by (simp add: finish_execution_def record_execution_generation_def save_shared_def vm_bytes_def Let_def)

lemma texture_keeps_bytes: "execute_texture sha load ex path v = (res, v') \<Longrightarrow> vm_bytes v \<Longrightarrow> vm_bytes v'"
  by (auto simp: execute_texture_def Let_def split: prod.splits sum.splits dest: chain_keeps_bytes)

lemma texture_threads: "execute_texture sha load ex path v = (res, v') \<Longrightarrow> threads v' = threads v"
  using vm_staticD(1) [OF chain_frames_static]
  by (fastforce simp: execute_texture_def finish_execution_def record_execution_generation_def save_shared_def Let_def
      split: prod.splits sum.splits)

lemma vm_init_bytes:
  "vm_init sha thr False strict omap mchain mcols None = Inr v \<Longrightarrow> vm_bytes v \<and> threads v = nat thr"
  by (auto simp: vm_init_def vm_bytes_def zero_regs_def regs_bytes_def Let_def split: if_splits)

section \<open>Rows outside the thread plane are data\<close>

definition rows_agree :: "nat \<Rightarrow> raster \<Rightarrow> raster \<Rightarrow> bool" where
  "rows_agree k arr arr' \<longleftrightarrow> rwidth arr = rwidth arr' \<and> rheight arr = rheight arr' \<and>
     (\<forall>y < k. \<forall>x < rwidth arr. pixel_at arr y x = pixel_at arr' y x)"

lemma exec_thread_rows:
  "rows_agree k arr arr' \<Longrightarrow> y < k \<Longrightarrow> x < rwidth arr \<Longrightarrow>
   exec_thread arr x y v c = exec_thread arr' x y v c"
  by (simp add: rows_agree_def exec_thread_def instr_unfold)

lemma exec_threads_rows:
  "rows_agree k arr arr' \<Longrightarrow> \<forall>y \<in> set ys. y < k \<Longrightarrow> x < rwidth arr \<Longrightarrow>
   exec_threads arr x ys v c = exec_threads arr' x ys v c"
  by (induction ys arbitrary: v c) (auto simp: exec_thread_rows split: prod.splits option.splits)

lemma exec_column_rows:
  "rows_agree (threads v) arr arr' \<Longrightarrow> x < rwidth arr \<Longrightarrow>
   exec_column arr x v c = exec_column arr' x v c"
  by (simp add: exec_column_def exec_threads_rows)

lemma run_columns_rows:
  "rows_agree (threads v) arr arr' \<Longrightarrow> run_columns n arr x v c = run_columns n arr' x v c"
proof (induction n arbitrary: x v c)
  case (Suc n)
  have w: "rwidth arr' = rwidth arr"
    using Suc.prems by (simp add: rows_agree_def)
  show ?case
  proof (cases "x < rwidth arr")
    case True
    obtain e1 v1 c1 where col: "exec_column arr x v c = (e1, v1, c1)"
      by (cases "exec_column arr x v c") auto
    moreover have "exec_column arr' x v c = (e1, v1, c1)"
      using col exec_column_rows [OF Suc.prems True] by simp
    moreover have "threads v1 = threads v"
      using vm_staticD(1) [OF exec_column_static [OF col True]] .
    ultimately show ?thesis
      using True w Suc by (cases e1) auto
  qed (simp add: w)
qed (simp add: rows_agree_def)

section \<open>Frozen threads\<close>

lemma exec_thread_other:
  assumes "exec_thread arr x y v c = (e, v', c')" "z \<noteq> y"
  shows "registers v' ! z = registers v ! z"
  using assms by (auto simp: exec_thread_def instr_unfold split: if_splits option.splits)

lemma exec_thread_halted_mono:
  "exec_thread arr x y v c = (e, v', c') \<Longrightarrow> halted c \<subseteq> halted c'"
  by (auto simp: exec_thread_def instr_unfold split: if_splits option.splits)

lemma exec_thread_frozen:
  assumes "exec_thread arr x y v c = (e, v', c')" "z \<in> halted c \<or> rheight arr \<le> z"
  shows "registers v' ! z = registers v ! z"
proof (cases "z = y")
  case True
  with assms show ?thesis by (auto simp: exec_thread_def)
qed (use assms exec_thread_other in blast)

interpretation frozen: frame_invariant arr
  "\<lambda>v c. (z \<in> halted c \<or> rheight arr \<le> z) \<and> registers v ! z = r" for arr z r
proof unfold_locales
  fix v c y x e v' c'
  assume st: "(z \<in> halted c \<or> rheight arr \<le> z) \<and> registers v ! z = r"
    and step: "exec_thread arr x y v c = (e, v', c')"
  from exec_thread_halted_mono [OF step] exec_thread_frozen [OF step, of z] st
  show "(z \<in> halted c' \<or> rheight arr \<le> z) \<and> registers v' ! z = r" by auto
qed simp

section \<open>Jump-free frames stay within the budget\<close>

text \<open>No cell of the first \<open>k\<close> rows is a jump under the opcode map.\<close>

definition jump_free :: "nat \<Rightarrow> opcode_map \<Rightarrow> raster \<Rightarrow> bool" where
  "jump_free k m arr \<longleftrightarrow> (\<forall>y < min k (rheight arr). \<forall>x < rwidth arr.
     rev_opmap m (fst (pixel_at arr y x)) \<noteq> Some ''JMP'')"

lemma exec_thread_no_jump:
  "exec_thread arr x y v c = (e, v', c') \<Longrightarrow>
   rev_opmap (opmap v) (fst (pixel_at arr y x)) \<noteq> Some ''JMP'' \<or> rheight arr \<le> y \<Longrightarrow>
   jump_to c' = jump_to c"
  by (auto simp: exec_thread_def instr_unfold split: if_splits option.splits)

lemma exec_thread_lenient:
  "exec_thread arr x y v c = (e, v', c') \<Longrightarrow> \<not> strict_mode v \<Longrightarrow> e = None"
  by (auto simp: exec_thread_def instr_unfold split: if_splits option.splits)

lemma exec_threads_lenient:
  "exec_threads arr x ys v c = (e, v', c') \<Longrightarrow> \<not> strict_mode v \<Longrightarrow> e = None"
proof (induction ys arbitrary: v c)
  case (Cons y ys)
  obtain e1 v1 c1 where step: "exec_thread arr x y v c = (e1, v1, c1)"
    by (cases "exec_thread arr x y v c") auto
  then have "e1 = None" "strict_mode v1 = strict_mode v"
    using exec_thread_lenient Cons.prems(2) vm_staticD(2) [OF exec_thread_static] by blast+
  then show ?case
    using Cons.IH [of v1 c1] Cons.prems step by simp
qed simp

lemma exec_column_lenient:
  "exec_column arr x v c = (e, v', c') \<Longrightarrow> \<not> strict_mode v \<Longrightarrow> e = None"
  by (auto simp: exec_column_def dest: exec_threads_lenient)

lemma exec_threads_no_jump:
  "exec_threads arr x ys v c = (e, v', c') \<Longrightarrow> jump_free (threads v) (opmap v) arr \<Longrightarrow>
   \<forall>y \<in> set ys. y < threads v \<Longrightarrow> x < rwidth arr \<Longrightarrow> jump_to c' = jump_to c"
proof (induction ys arbitrary: v c)
  case (Cons y ys)
  obtain e1 v1 c1 where step: "exec_thread arr x y v c = (e1, v1, c1)"
    by (cases "exec_thread arr x y v c") auto
  have "threads v1 = threads v" "opmap v1 = opmap v"
    using vm_staticD [OF exec_thread_static [OF step]] by simp_all
  moreover have "jump_to c1 = jump_to c"
  proof (rule exec_thread_no_jump [OF step])
    show "rev_opmap (opmap v) (fst (pixel_at arr y x)) \<noteq> Some ''JMP'' \<or> rheight arr \<le> y"
      using Cons.prems(2,3,4) by (cases "rheight arr \<le> y") (auto simp: jump_free_def)
  qed
  ultimately show ?case
    using Cons.IH [of v1 c1] Cons.prems step by (cases e1) auto
qed simp

lemma exec_column_no_jump:
  "exec_column arr x v c = (e, v', c') \<Longrightarrow> jump_free (threads v) (opmap v) arr \<Longrightarrow>
   x < rwidth arr \<Longrightarrow> next_column x c' = Suc x"
  using exec_threads_no_jump [of arr x "[0..<threads v]" "v\<lparr>clock := int x\<rparr>" "c\<lparr>jump_to := None\<rparr>"]
  by (auto simp: exec_column_def next_column_def)

lemma exec_threads_clock:
  "exec_threads arr x ys v c = (e, v', c') \<Longrightarrow> clock v' = clock v"
proof (induction ys arbitrary: v c)
  case (Cons y ys)
  obtain e1 v1 c1 where step: "exec_thread arr x y v c = (e1, v1, c1)"
    by (cases "exec_thread arr x y v c") auto
  then have "clock v1 = clock v"
    by (auto simp: exec_thread_def instr_unfold upd_thread_def split: if_splits option.splits)
  then show ?case
    using Cons.IH [of v1 c1] Cons.prems step by (cases e1) auto
qed simp

lemma exec_column_clock: "exec_column arr x v c = (e, v', c') \<Longrightarrow> clock v' = int x"
  by (auto simp: exec_column_def dest: exec_threads_clock)

lemma run_columns_jump_free:
  assumes "jump_free (threads v) (opmap v) arr" "\<not> strict_mode v" "rwidth arr \<le> x + n"
    "x \<le> rwidth arr"
  shows "\<exists>v' c'. run_columns n arr x v c = (None, v', c') \<and>
    (x < rwidth arr \<longrightarrow> clock v' = int (rwidth arr) - 1) \<and> (x = rwidth arr \<longrightarrow> v' = v)"
  using assms
proof (induction n arbitrary: x v c)
  case (Suc n)
  show ?case
  proof (cases "x < rwidth arr")
    case True
    obtain e1 v1 c1 where col: "exec_column arr x v c = (e1, v1, c1)"
      by (cases "exec_column arr x v c") auto
    have e1: "e1 = None"
      using exec_column_lenient [OF col] Suc.prems(2) by simp
    have nx: "next_column x c1 = Suc x"
      using exec_column_no_jump [OF col] Suc.prems(1) True by simp
    have st: "threads v1 = threads v" "opmap v1 = opmap v" "strict_mode v1 = strict_mode v"
      using vm_staticD [OF exec_column_static [OF col True]] by simp_all
    obtain v' c' where "run_columns n arr (Suc x) v1 c1 = (None, v', c')"
      "Suc x < rwidth arr \<longrightarrow> clock v' = int (rwidth arr) - 1" "Suc x = rwidth arr \<longrightarrow> v' = v1"
      using Suc.IH [of v1 "Suc x" c1] Suc.prems True st by auto
    with True col e1 nx exec_column_clock [OF col] show ?thesis
      by (cases "Suc x = rwidth arr") auto
  qed (use Suc.prems in auto)
qed auto

section \<open>Checkpoint restore\<close>

lemma nat_str_inj [simp]: "nat_str i = nat_str j \<longleftrightarrow> i = j"
  using dec_scan_nat_str [of i] dec_scan_nat_str [of j] by (metis option.inject)

lemma name_inj [simp]:
  "thread_name i = thread_name j \<longleftrightarrow> i = j" "slot_name i = slot_name j \<longleftrightarrow> i = j"
  by (simp_all add: thread_name_def slot_name_def)

lemma map_of_indexed:
  "inj f \<Longrightarrow> i < n \<Longrightarrow> map_of (map (\<lambda>i. (f i, g i)) [0..<n]) (f i) = Some (g i)"
  by (rule map_of_is_SomeI) (auto simp: distinct_map comp_def intro: inj_on_subset)

lemma dget_registers_dict [simp]:
  "i < length rs \<Longrightarrow> dget (registers_dict rs) (thread_name i) = Some (rs ! i)"
  unfolding registers_dict_def by (rule map_of_indexed) (auto intro: injI)

lemma dget_shared_dict [simp]:
  "i < length ms \<Longrightarrow> dget (shared_dict ms) (slot_name i) = Some (ms ! i)"
  unfolding shared_dict_def by (rule map_of_indexed) (auto intro: injI)

lemma dkeys_state_dicts [simp]:
  "dkeys (registers_dict rs) = thread_name ` {0..<length rs}"
  "dkeys (shared_dict ms) = slot_name ` {0..<length ms}"
  by (auto simp: registers_dict_def shared_dict_def image_iff)

lemma restore_lists:
  "map (\<lambda>i. the (dget (registers_dict rs) (thread_name i))) [0..<length rs] = rs"
  "map (\<lambda>i. the (dget (shared_dict ms) (slot_name i))) [0..<length ms] = ms"
  by (auto intro: nth_equalityI)

lemma finish_execution_facts:
  "execution_generation (finish_execution sha v) = Suc (execution_generation v)"
  "last_checkpoint_hash (finish_execution sha v) = vm_hash sha (finish_execution sha v)"
  "registers (finish_execution sha v) = registers v"
  "shared (finish_execution sha v) = shared v"
  "threads (finish_execution sha v) = threads v"
  by (simp_all add: finish_execution_def record_execution_generation_def save_shared_def Let_def
      vm_hash_def)

section \<open>Properties\<close>

text \<open>The machine the witnesses run: \<open>n\<close> threads, the standard opcode map, all registers zero.\<close>

definition demo_vm :: "nat \<Rightarrow> bool \<Rightarrow> vm" where
  "demo_vm n strict =
     \<lparr>threads = n, strict_mode = strict, persist_shared = False, max_chain = 100,
      max_col_steps = 4, opmap = MAP, clock = 0, registers = replicate n zero_regs,
      shared = replicate 8 0, mem_map = [], next_frame = None, frame_registry = [],
      execution_generation = 0, last_checkpoint_hash = [], shared_store = None\<rparr>"

definition demo_raster :: "pixel list \<Rightarrow> pixel list \<Rightarrow> raster" where
  "demo_raster code data = \<lparr>rwidth = length code, rheight = 2, rcells = code @ data\<rparr>"

lemma vm_bytes_demo: "vm_bytes (demo_vm n strict)"
  by (simp add: vm_bytes_def demo_vm_def regs_bytes_def zero_regs_def)

lemma surjective_pairing3: "p = (fst p, fst (snd p), snd (snd p))"
  by simp

text \<open>C1. Rows outside the thread plane are data: two rasters of the same geometry that agree on
  the rows \<open>0..threads-1\<close> execute identically (same outcome, same registers, shared memory, clock
  and chained frame), whatever their remaining rows hold.\<close>

theorem storage_rows_inert:
  assumes "rows_agree (threads v) arr arr'"
  shows "execute_array arr v = execute_array arr' v"
  using run_columns_rows [of "v\<lparr>next_frame := None\<rparr>" arr arr' "max_col_steps v" 0 fresh_ctx] assms
  by (simp add: execute_array_def)

theorem storage_rows_inert_witness:
  "execute_array (demo_raster [(10, 0, 7), (255, 0, 0)] [(0, 0, 0), (0, 0, 0)]) (demo_vm 1 True) =
   execute_array (demo_raster [(10, 0, 7), (255, 0, 0)] [(70, 0, 0), (99, 1, 2)]) (demo_vm 1 True)"
  by (rule storage_rows_inert) (auto simp: rows_agree_def demo_raster_def demo_vm_def pixel_at_def
      less_Suc_eq numeral_2_eq_2)

text \<open>C2. The byte invariant: if registers A, B, OUT of every thread and all shared slots are in
  \<open>0..255\<close>, they still are after executing any raster, whether the execution returns, hits an
  unknown opcode or address in strict mode, or exhausts its column budget.\<close>

theorem execute_array_bytes:
  assumes "vm_bytes v" and "execute_array arr v = (res, v')"
  shows "vm_bytes v'"
  using assms bytes.columns_keep [of "max_col_steps v" arr 0 "v\<lparr>next_frame := None\<rparr>" fresh_ctx]
  by (auto simp: execute_array_def split: prod.splits option.splits)

theorem execute_array_bytes_witness:
  "vm_bytes (snd (execute_array (demo_raster [(10, 0, 200), (11, 0, 100), (21, 0, 0)]
     [(0, 0, 0), (0, 0, 0), (0, 0, 0)]) (demo_vm 1 True)))"
  by (rule execute_array_bytes [OF vm_bytes_demo]) (rule prod.collapse [symmetric])

text \<open>C3. Termination within the budget: a frame without jump cells in its thread rows, not wider
  than \<open>max_col_steps\<close>, always returns on a non-strict machine; it never raises, and a non-empty
  frame ends at its last column.\<close>

theorem execute_array_jump_free_returns:
  assumes "jump_free (threads v) (opmap v) arr" "\<not> strict_mode v" "rwidth arr \<le> max_col_steps v"
  shows "\<exists>nf v'. execute_array arr v = (Inr nf, v') \<and>
    (0 < rwidth arr \<longrightarrow> clock v' = int (rwidth arr) - 1)"
  using run_columns_jump_free [of "v\<lparr>next_frame := None\<rparr>" arr 0 "max_col_steps v" fresh_ctx] assms
  by (auto simp: execute_array_def)

theorem execute_array_jump_free_returns_witness:
  "\<exists>nf v'. execute_array (demo_raster [(10, 0, 200), (99, 0, 0)] [(0, 0, 0), (0, 0, 0)])
     (demo_vm 1 False) = (Inr nf, v') \<and> clock v' = 1"
proof -
  let ?arr = "demo_raster [(10, 0, 200), (99, 0, 0)] [(0, 0, 0), (0, 0, 0)]"
  have "jump_free (threads (demo_vm 1 False)) (opmap (demo_vm 1 False)) ?arr"
    by code_simp
  moreover have "\<not> strict_mode (demo_vm 1 False)" "rwidth ?arr \<le> max_col_steps (demo_vm 1 False)"
    "rwidth ?arr = 2"
    by (simp_all add: demo_vm_def demo_raster_def)
  ultimately show ?thesis
    using execute_array_jump_free_returns [of "demo_vm 1 False" ?arr] by simp
qed

text \<open>HALT freezes one thread: once a thread is halted (or has no row in the frame), none of
  its registers changes in the rest of the frame, however many columns the other threads execute.\<close>

theorem halted_thread_frozen:
  assumes "z \<in> halted c \<or> rheight arr \<le> z" and "run_columns n arr x v c = (e, v', c')"
  shows "registers v' ! z = registers v ! z"
  using frozen.columns_keep [OF assms(2), of z "registers v ! z"] assms(1) by simp

theorem halted_thread_frozen_witness:
  "registers (fst (snd (run_columns 4 (demo_raster [(255, 0, 0), (10, 0, 1)] [(10, 0, 5), (11, 0, 6)])
     0 (demo_vm 2 True) (fresh_ctx\<lparr>halted := {0}\<rparr>)))) ! 0 = registers (demo_vm 2 True) ! 0"
  by (rule halted_thread_frozen [where z = 0 and c = "fresh_ctx\<lparr>halted := {0}\<rparr>", OF _ surjective_pairing3]) simp

text \<open>C4. Checkpoint lineage: a successful execution of a chain of frames advances the generation by
  exactly one and records the hash of exactly the state it returns; an execution that raises leaves
  both the generation and the recorded hash as they were.\<close>

theorem execute_texture_lineage:
  assumes "execute_texture sha load ex path v = (res, v')"
  shows "case res of
      Inl e \<Rightarrow> execution_generation v' = execution_generation v \<and>
        last_checkpoint_hash v' = last_checkpoint_hash v
    | Inr regs \<Rightarrow> execution_generation v' = Suc (execution_generation v) \<and>
        last_checkpoint_hash v' = vm_hash sha v' \<and> regs = registers v'"
proof -
  obtain r1 v1 where ch: "chain_frames load ex (max_chain v) False path v = (r1, v1)"
    by (cases "chain_frames load ex (max_chain v) False path v") auto
  note st = vm_staticD(7,8) [OF chain_frames_static [OF ch]]
  show ?thesis
    using assms ch st by (cases r1) (auto simp: execute_texture_def Let_def finish_execution_facts)
qed

theorem execute_texture_lineage_witness:
  "case execute_texture (\<lambda>bs. bs) (\<lambda>p. if p = ''a.png'' then
       Some (demo_raster [(10, 0, 7), (255, 0, 0)] [(0, 0, 0), (0, 0, 0)]) else None)
       (\<lambda>p. True) ''a.png'' (demo_vm 1 True) of (res, v') \<Rightarrow>
     (case res of
        Inl e \<Rightarrow> execution_generation v' = execution_generation (demo_vm 1 True) \<and>
          last_checkpoint_hash v' = last_checkpoint_hash (demo_vm 1 True)
      | Inr regs \<Rightarrow> execution_generation v' = Suc (execution_generation (demo_vm 1 True)) \<and>
          last_checkpoint_hash v' = vm_hash (\<lambda>bs. bs) v' \<and> regs = registers v')"
  by (rule case_prodI2) (rule execute_texture_lineage, simp)

text \<open>Checkpoint round trip: the state captured from a machine whose recorded hash is current
  restores on any machine of the same geometry, and the restored machine has exactly the captured
  generation, clock, registers, shared memory and hash; everything else of it is unchanged.\<close>

theorem restore_checkpoint_roundtrip:
  assumes "last_checkpoint_hash v = vm_hash sha v" "length (registers v) = threads w"
    "length (shared v) = length (shared w)"
  shows "restore_checkpoint sha (int (execution_generation v)) (clock v)
      (registers_dict (registers v)) (shared_dict (shared v)) (last_checkpoint_hash v) w =
    Inr (w\<lparr>registers := registers v, shared := shared v,
      execution_generation := execution_generation v, clock := clock v,
      last_checkpoint_hash := vm_hash sha v\<rparr>)"
  by (simp add: restore_checkpoint_def vm_hash_compute restore_lists assms(1) flip: assms(2,3))

theorem restore_checkpoint_roundtrip_witness:
  "let v = finish_execution (\<lambda>bs. bs) (demo_vm 2 True) in
   restore_checkpoint (\<lambda>bs. bs) (int (execution_generation v)) (clock v)
      (registers_dict (registers v)) (shared_dict (shared v)) (last_checkpoint_hash v) (demo_vm 2 False) =
    Inr ((demo_vm 2 False)\<lparr>registers := registers v, shared := shared v,
      execution_generation := execution_generation v, clock := clock v,
      last_checkpoint_hash := vm_hash (\<lambda>bs. bs) v\<rparr>)"
  unfolding Let_def
  by (rule restore_checkpoint_roundtrip) (simp_all only: finish_execution_facts, simp_all add: demo_vm_def)

text \<open>C5. A restore is verified: when \<open>restore_checkpoint\<close> succeeds, the recomputed hash of the
  presented state equals the presented hash, the register names are exactly the machine's threads,
  the generation is not negative, and the machine's marker is exactly the presented one.\<close>

theorem restore_checkpoint_verified:
  assumes "restore_checkpoint sha generation clk regs sh chash v = Inr v'"
  shows "compute_vm_checkpoint_hash sha generation clk regs sh = Inr chash \<and> 0 \<le> generation \<and>
    dkeys regs = thread_name ` {0..<threads v} \<and> length (registers v') = threads v \<and>
    checkpoint_marker v' = \<lparr>mk_generation = generation, mk_clock = clk, mk_hash = chash\<rparr>"
  using assms by (auto simp: restore_checkpoint_def compute_vm_checkpoint_hash_def checkpoint_marker_def
      split: if_splits)

theorem restore_checkpoint_verified_witness:
  "\<exists>v'. restore_checkpoint (\<lambda>bs. []) 3 5 (registers_dict [zero_regs]) (shared_dict (replicate 8 1)) []
      (demo_vm 1 True) = Inr v' \<and>
    compute_vm_checkpoint_hash (\<lambda>bs. []) 3 5 (registers_dict [zero_regs]) (shared_dict (replicate 8 1)) = Inr [] \<and>
    checkpoint_marker v' = \<lparr>mk_generation = 3, mk_clock = 5, mk_hash = []\<rparr>"
proof -
  obtain v' where v': "restore_checkpoint (\<lambda>bs. []) 3 5 (registers_dict [zero_regs])
      (shared_dict (replicate 8 1)) [] (demo_vm 1 True) = Inr v'"
    by (simp add: restore_checkpoint_def compute_vm_checkpoint_hash_def hexdigest_def demo_vm_def)
  with restore_checkpoint_verified [OF v'] show ?thesis by blast
qed

end
