(* ===== verification/Pyxel_Compiler.thy ===== *)
theory Pyxel_Compiler
  imports Pyxel_VM
begin

text \<open>
  The compilers of \<^verbatim>\<open>zdx_parallel_vm.py\<close>: \<open>SimpleCompiler\<close> (instruction text to RGB cells, with
  synthetic instructions, clamped operands and NOP padding), \<open>ThoughtCompiler\<close> (opcode names to
  cells) and the program pattern helpers. A compiled image is the raster whose cells the Python
  code writes into a blank image; saving it as PNG is left to the image library. An instruction
  table entry keeps the opcode key and the two operand builders (the lambdas of \<open>_INSTR_SPECS\<close>) as
  data.

  The lemmas show that the cells are where the program says, that the machine decodes each
  compiled instruction as the opcode the compiler meant, and what the helper programs compute when
  they are compiled and executed.
\<close>

section \<open>Instruction table\<close>

definition NOP_px :: pixel where
  "NOP_px = (0, 0, 0)"

datatype operand = Op_zero | Op_arg | Op_arg_or_zero

text \<open>\<open>None\<close> is the \<open>IndexError\<close> or \<open>ValueError\<close> of the lambda.\<close>

fun operand_value :: "operand \<Rightarrow> string list \<Rightarrow> int option" where
  "operand_value Op_zero args = Some 0"
| "operand_value Op_arg args = (case args of [] \<Rightarrow> None | a # _ \<Rightarrow> py_int a)"
| "operand_value Op_arg_or_zero args = (case args of [] \<Rightarrow> Some 0 | a # _ \<Rightarrow> py_int a)"

definition INSTR_SPECS :: "(string, string \<times> operand \<times> operand) dict" where
  "INSTR_SPECS = [
    (''SET_A'', (''SET_REG'', Op_zero, Op_arg)),
    (''SET_B'', (''SET_B'', Op_zero, Op_arg)),
    (''ADD'', (''ADD_THREAD'', Op_zero, Op_zero)),
    (''IF_A_EQ'', (''IF_A_EQ'', Op_zero, Op_arg)),
    (''LOAD_MEM'', (''LOAD_MEM'', Op_arg, Op_zero)),
    (''STORE_MEM'', (''STORE_MEM'', Op_arg, Op_zero)),
    (''VERIFY_FREQ'', (''VERIFY_FREQ'', Op_zero, Op_zero)),
    (''SAVE_STATE'', (''SAVE_STATE'', Op_arg_or_zero, Op_zero)),
    (''HALT'', (''HALT'', Op_zero, Op_zero)),
    (''NOT'', (''NOT'', Op_zero, Op_zero)),
    (''SUB'', (''SUB'', Op_zero, Op_zero)),
    (''MUL'', (''MUL'', Op_zero, Op_zero)),
    (''DIV'', (''DIV'', Op_zero, Op_zero)),
    (''CMP'', (''CMP'', Op_zero, Op_zero)),
    (''JMP'', (''JMP'', Op_arg, Op_zero)),
    (''COPY_OUT'', (''COPY_OUT'', Op_zero, Op_zero))]"

definition SYNTHETIC :: "(string, string list) dict" where
  "SYNTHETIC = [(''OUT_TO_A'', [''COPY_OUT''])]"

section \<open>SimpleCompiler\<close>

definition op_of :: "string \<Rightarrow> string" where
  "op_of instr = (case py_split (py_strip instr) of [] \<Rightarrow> [] | p # _ \<Rightarrow> py_upper p)"

fun expand_row :: "string list \<Rightarrow> string list" where
  "expand_row [] = []"
| "expand_row (instr # rest) =
     (case dget SYNTHETIC (op_of instr) of
        Some prims \<Rightarrow> prims @ expand_row rest
      | None \<Rightarrow> instr # expand_row rest)"

definition expand :: "string list list \<Rightarrow> string list list" where
  "expand program = map expand_row program"

definition clamp_byte :: "int \<Rightarrow> int" where
  "clamp_byte n = max 0 (min 255 n)"

definition parse_one :: "opcode_map \<Rightarrow> string \<Rightarrow> pixel" where
  "parse_one m instr =
     (case py_split (py_strip instr) of
        [] \<Rightarrow> NOP_px
      | p # args \<Rightarrow>
          (case dget INSTR_SPECS (py_upper p) of
             None \<Rightarrow> NOP_px
           | Some (key, gf, bf) \<Rightarrow>
               (case dget m key of
                  None \<Rightarrow> NOP_px
                | Some rgb \<Rightarrow>
                    (case operand_value gf args of
                       None \<Rightarrow> NOP_px
                     | Some g \<Rightarrow>
                         (case operand_value bf args of
                            None \<Rightarrow> NOP_px
                          | Some b \<Rightarrow>
                              (fst rgb, of_int (clamp_byte g), of_int (clamp_byte b)))))))"

definition max_len :: "'a list list \<Rightarrow> nat" where
  "max_len rows = fold (\<lambda>row n. max (length row) n) rows 0"

text \<open>A blank image of \<open>cols\<close> columns with one row of cells per thread.\<close>

definition paint :: "nat \<Rightarrow> pixel list list \<Rightarrow> raster" where
  "paint cols rows =
     \<lparr>rwidth = cols, rheight = length rows,
      rcells = concat (map (\<lambda>row. row @ replicate (cols - length row) NOP_px) rows)\<rparr>"

text \<open>\<open>compile\<close>; \<open>None\<close> when the program is empty and no image is written.\<close>

definition compile :: "opcode_map \<Rightarrow> string list list \<Rightarrow> raster option" where
  "compile m program =
     (let prog = expand program; cols = max_len prog
      in if prog = [] \<or> cols = 0 then None
         else Some (paint cols (map (map (parse_one m)) prog)))"

section \<open>Warnings of the compiler\<close>

datatype warning = If_last nat | Store_ignores_add nat nat | Add_never_stored nat nat

definition a_writers :: "string set" where
  "a_writers = {''SET_A'', ''LOAD_MEM'', ''VERIFY_FREQ'', ''NOT'', ''SUB'', ''MUL'', ''DIV'', ''COPY_OUT''}"

text \<open>
  The scan behind an ADD: the warnings it prints, and whether a store was found. \<open>j\<close> is the
  position of the head of the remaining operations.
\<close>

fun scan_store :: "nat \<Rightarrow> nat \<Rightarrow> bool \<Rightarrow> string list \<Rightarrow> warning list \<times> bool" where
  "scan_store y j a_mod [] = ([], False)"
| "scan_store y j a_mod (op # ops) =
     (let a_mod' = a_mod \<or> op \<in> a_writers
      in if op = ''STORE_MEM'' then (if a_mod' then [] else [Store_ignores_add y j], True)
         else scan_store y (Suc j) a_mod' ops)"

fun scan_adds :: "nat \<Rightarrow> nat \<Rightarrow> string list \<Rightarrow> warning list" where
  "scan_adds y i [] = []"
| "scan_adds y i (op # ops) =
     (if op \<noteq> ''ADD'' then scan_adds y (Suc i) ops
      else (let (ws, stored) = scan_store y (Suc i) False ops
            in ws @ (if stored then [] else [Add_never_stored y i]) @ scan_adds y (Suc i) ops))"

definition validate_row :: "nat \<Rightarrow> string list \<Rightarrow> warning list" where
  "validate_row y row =
     (let ops = map op_of row
      in if ops = [] then []
         else (if last ops = ''IF_A_EQ'' then [If_last y] else []) @ scan_adds y 0 ops)"

definition validate_program :: "string list list \<Rightarrow> bool \<Rightarrow> warning list" where
  "validate_program program debug =
     (if \<not> debug then []
      else concat (map (\<lambda>(y, row). validate_row y row) (List.enumerate 0 program)))"

section \<open>ThoughtCompiler\<close>

definition compile_thought_matrix :: "opcode_map \<Rightarrow> string list list \<Rightarrow> raster option" where
  "compile_thought_matrix m rows =
     (let cols = max_len rows
      in if rows = [] \<or> cols = 0 then None
         else Some (paint cols (map (map (\<lambda>i. case dget m i of None \<Rightarrow> NOP_px | Some px \<Rightarrow> px)) rows)))"

section \<open>Program patterns\<close>

definition build_compute_and_store :: "int \<Rightarrow> int \<Rightarrow> int \<Rightarrow> string list list" where
  "build_compute_and_store a b mem_idx =
     [[''SET_A '' @ int_str a, ''SET_B '' @ int_str b, ''ADD'', ''STORE_MEM '' @ int_str mem_idx]]"

definition build_conditional_write :: "int \<Rightarrow> int \<Rightarrow> string list list" where
  "build_conditional_write mem_idx compare_val =
     [[''LOAD_MEM '' @ int_str mem_idx, ''IF_A_EQ '' @ int_str compare_val, ''SET_A 1'', ''HALT'']]"

definition build_validation_pattern :: "string list list" where
  "build_validation_pattern = [[''VERIFY_FREQ'', ''IF_A_EQ 1'', ''HALT'']]"

section \<open>Layout of compiled images\<close>

lemma fold_max_ge: "n \<le> fold (\<lambda>row n. max (length row) n) rows n"
  by (induction rows arbitrary: n) (auto intro: order_trans [OF max.cobounded2])

lemma fold_max_mem: "row \<in> set rows \<Longrightarrow> length row \<le> fold (\<lambda>row n. max (length row) n) rows n"
proof (induction rows arbitrary: n)
  case (Cons r rows)
  then show ?case
    using fold_max_ge [of "max (length r) n" rows] by auto
qed simp

lemma max_len_mem: "row \<in> set rows \<Longrightarrow> length row \<le> max_len rows"
  by (simp add: max_len_def fold_max_mem)

lemma max_len_map [simp]: "max_len (map (map f) rows) = max_len rows"
proof -
  have "fold (\<lambda>row n. max (length row) n) (map (map f) rows) n =
        fold (\<lambda>row n. max (length row) n) rows n" for n
    by (induction rows arbitrary: n) auto
  then show ?thesis by (simp add: max_len_def)
qed

lemma length_concat_fixed:
  "(\<And>r. r \<in> set rs \<Longrightarrow> length r = n) \<Longrightarrow> length (concat rs) = n * length rs"
  by (induction rs) auto

lemma nth_concat_fixed:
  "(\<And>r. r \<in> set rs \<Longrightarrow> length r = n) \<Longrightarrow> y < length rs \<Longrightarrow> x < n \<Longrightarrow>
   concat rs ! (y * n + x) = rs ! y ! x"
proof (induction rs arbitrary: y)
  case (Cons r rs)
  then show ?case
    by (cases y) (auto simp: nth_append)
qed simp

lemma paint_cell:
  assumes "max_len rows \<le> cols" "y < length rows" "x < cols"
  shows "pixel_at (paint cols rows) y x = (if x < length (rows ! y) then rows ! y ! x else NOP_px)"
proof -
  have len: "\<And>row. row \<in> set rows \<Longrightarrow> length row \<le> cols"
    using max_len_mem assms(1) order_trans by blast
  let ?rs = "map (\<lambda>row. row @ replicate (cols - length row) NOP_px) rows"
  have "concat ?rs ! (y * cols + x) = ?rs ! y ! x"
    by (rule nth_concat_fixed) (use assms len in auto)
  then show ?thesis
    using assms len [of "rows ! y"] by (auto simp: pixel_at_def paint_def nth_append)
qed

lemma paint_ok:
  assumes "max_len rows \<le> cols"
  shows "raster_ok (paint cols rows)"
proof -
  have len: "\<And>row. row \<in> set rows \<Longrightarrow> length row \<le> cols"
    using max_len_mem assms order_trans by blast
  have "length (concat (map (\<lambda>row. row @ replicate (cols - length row) NOP_px) rows)) = cols * length rows"
    using len by (subst length_concat_fixed [where n = cols]) auto
  then show ?thesis by (simp add: raster_ok_def paint_def)
qed

section \<open>Instructions as the machine decodes them\<close>

text \<open>The opcode key an instruction text denotes, or \<open>None\<close> when it is malformed or unknown.\<close>

definition instr_key :: "string \<Rightarrow> string option" where
  "instr_key instr =
     (case py_split (py_strip instr) of
        [] \<Rightarrow> None
      | p # args \<Rightarrow>
          (case dget INSTR_SPECS (py_upper p) of
             None \<Rightarrow> None
           | Some (key, gf, bf) \<Rightarrow>
               if operand_value gf args = None \<or> operand_value bf args = None then None
               else Some key))"

definition opmap_distinct :: "opcode_map \<Rightarrow> bool" where
  "opmap_distinct m \<longleftrightarrow> distinct (map (\<lambda>(k, v). fst v) m)"

lemma rev_opmap_hit:
  assumes "opmap_distinct m" "dget m key = Some rgb"
  shows "rev_opmap m (fst rgb) = Some key"
proof -
  have keys: "distinct (map fst (rev (map (\<lambda>(k, v). (fst v, k)) m)))"
    using assms(1) by (simp add: opmap_distinct_def split_def comp_def flip: rev_map)
  have "(key, rgb) \<in> set m"
    using assms(2) by (rule map_of_SomeD)
  then have "(fst rgb, key) \<in> set (rev (map (\<lambda>(k, v). (fst v, k)) m))"
    by force
  with keys show ?thesis
    by (simp only: rev_opmap_def map_of_is_SomeI)
qed

lemma parse_one_key:
  "instr_key instr = Some key \<Longrightarrow> dget m key = Some rgb \<Longrightarrow> fst (parse_one m instr) = fst rgb"
  by (auto simp: instr_key_def parse_one_def split: list.splits option.splits prod.splits if_splits)

lemma parse_one_malformed:
  "instr_key instr = None \<Longrightarrow> parse_one m instr = NOP_px"
  by (auto simp: instr_key_def parse_one_def split: list.splits option.splits prod.splits if_splits)

lemma MAP_distinct: "opmap_distinct MAP"
  by (simp add: opmap_distinct_def MAP_def)

text \<open>A map that leaves R = 0 to the blank cell, and what the machine does on a blank cell under it.\<close>

definition zero_reserved :: "opcode_map \<Rightarrow> bool" where
  "zero_reserved m \<longleftrightarrow> list_all (\<lambda>p. fst (snd p) \<noteq> 0) m"

definition nop_cell :: "opcode_map \<Rightarrow> raster \<Rightarrow> nat \<Rightarrow> nat \<Rightarrow> vm \<Rightarrow> exec_ctx \<Rightarrow> bool" where
  "nop_cell m arr x y v c \<longleftrightarrow> rev_opmap m 0 = None \<and> exec_instr arr x y (rev_opmap m 0) (0, 0, 0) v c = (None, v, c)"

lemma MAP_zero_reserved: "zero_reserved MAP"
  by (simp add: zero_reserved_def MAP_def)

lemma zero_reserved_nop: "zero_reserved m \<Longrightarrow> nop_cell m arr x y v c"
proof -
  assume "zero_reserved m"
  then have "rev_opmap m 0 = None"
    unfolding rev_opmap_def map_of_eq_None_iff by (auto simp: zero_reserved_def list_all_iff)
  then show ?thesis by (simp add: nop_cell_def exec_instr_def)
qed

lemma MAP_decode [simp]:
  "rev_opmap MAP 10 = Some ''SET_REG''" "rev_opmap MAP 11 = Some ''SET_B''"
  "rev_opmap MAP 20 = Some ''ADD_THREAD''" "rev_opmap MAP 30 = Some ''IF_A_EQ''"
  "rev_opmap MAP 40 = Some ''LOAD_MEM''" "rev_opmap MAP 41 = Some ''STORE_MEM''"
  "rev_opmap MAP 50 = Some ''VERIFY_FREQ''" "rev_opmap MAP 255 = Some ''HALT''"
  by (simp_all add: rev_opmap_def MAP_def)

lemma split_strip_op_arg:
  assumes "w \<noteq> []" "\<And>c. c \<in> set w \<Longrightarrow> \<not> py_space c"
  shows "py_split (py_strip (w @ '' '' @ int_str i)) = [w, int_str i]"
proof -
  obtain c cs where w: "w = c # cs" using assms(1) by (cases w) auto
  obtain ds d where i: "int_str i = ds @ [d]" using int_str_nonempty [of i] by (metis rev_exhaust)
  have "\<not> py_space c" using assms(2) w by simp
  then have l: "py_lstrip (w @ '' '' @ int_str i) = w @ '' '' @ int_str i"
    by (simp add: py_lstrip_def w)
  have "\<not> py_space d" using int_str_no_space [of d i] i by simp
  then have "py_lstrip (rev (w @ '' '' @ int_str i)) = rev (w @ '' '' @ int_str i)"
    by (simp add: py_lstrip_def i)
  then have "py_strip (w @ '' '' @ int_str i) = w @ '' '' @ int_str i"
    by (simp only: py_strip_def l rev_rev_ident)
  then show ?thesis using py_split_op_arg [OF assms] by (simp only:)
qed

text \<open>Parsed instructions of the helper programs under the standard opcode map.\<close>

lemma no_space_names:
  "c \<in> set ''SET_A'' \<Longrightarrow> \<not> py_space c" "c \<in> set ''SET_B'' \<Longrightarrow> \<not> py_space c"
  "c \<in> set ''STORE_MEM'' \<Longrightarrow> \<not> py_space c" "c \<in> set ''LOAD_MEM'' \<Longrightarrow> \<not> py_space c"
  "c \<in> set ''IF_A_EQ'' \<Longrightarrow> \<not> py_space c"
  by (auto simp: py_space_def char_code_def)

lemma upper_names [simp]:
  "py_upper ''SET_A'' = ''SET_A''" "py_upper ''SET_B'' = ''SET_B''"
  "py_upper ''STORE_MEM'' = ''STORE_MEM''" "py_upper ''LOAD_MEM'' = ''LOAD_MEM''"
  "py_upper ''IF_A_EQ'' = ''IF_A_EQ''"
  by code_simp+

lemma split_names:
  "py_split (py_strip (''SET_A '' @ int_str i)) = [''SET_A'', int_str i]"
  "py_split (py_strip (''SET_B '' @ int_str i)) = [''SET_B'', int_str i]"
  "py_split (py_strip (''STORE_MEM '' @ int_str i)) = [''STORE_MEM'', int_str i]"
  "py_split (py_strip (''LOAD_MEM '' @ int_str i)) = [''LOAD_MEM'', int_str i]"
  "py_split (py_strip (''IF_A_EQ '' @ int_str i)) = [''IF_A_EQ'', int_str i]"
  using split_strip_op_arg [of "''SET_A''" i] split_strip_op_arg [of "''SET_B''" i]
    split_strip_op_arg [of "''STORE_MEM''" i] split_strip_op_arg [of "''LOAD_MEM''" i]
    split_strip_op_arg [of "''IF_A_EQ''" i] no_space_names
  by simp_all

lemmas split_simps [simp] = split_names [unfolded append.simps]

lemma parse_names:
  "parse_one MAP (''SET_A '' @ int_str i) = (10, 0, of_int (clamp_byte i))"
  "parse_one MAP (''SET_B '' @ int_str i) = (11, 0, of_int (clamp_byte i))"
  "parse_one MAP (''STORE_MEM '' @ int_str i) = (41, of_int (clamp_byte i), 0)"
  "parse_one MAP (''LOAD_MEM '' @ int_str i) = (40, of_int (clamp_byte i), 0)"
  "parse_one MAP (''IF_A_EQ '' @ int_str i) = (30, 0, of_int (clamp_byte i))"
  by (simp_all add: parse_one_def INSTR_SPECS_def MAP_def) (simp_all add: clamp_byte_def)

lemmas parse_simps [simp] = parse_names [unfolded append.simps]

lemma parse_literals [simp]:
  "parse_one MAP ''ADD'' = (20, 0, 0)" "parse_one MAP ''SET_A 1'' = (10, 0, 1)"
  "parse_one MAP ''HALT'' = (255, 0, 0)" "parse_one MAP ''VERIFY_FREQ'' = (50, 0, 0)"
  "parse_one MAP ''IF_A_EQ 1'' = (30, 0, 1)"
  by code_simp+

lemma op_of_names:
  "op_of (''SET_A '' @ int_str i) = ''SET_A''" "op_of (''SET_B '' @ int_str i) = ''SET_B''"
  "op_of (''STORE_MEM '' @ int_str i) = ''STORE_MEM''"
  "op_of (''LOAD_MEM '' @ int_str i) = ''LOAD_MEM''"
  "op_of (''IF_A_EQ '' @ int_str i) = ''IF_A_EQ''"
  by (simp_all add: op_of_def)

lemmas op_of_simps [simp] = op_of_names [unfolded append.simps]

lemma op_of_literals [simp]:
  "op_of ''ADD'' = ''ADD''" "op_of ''SET_A 1'' = ''SET_A''" "op_of ''HALT'' = ''HALT''"
  "op_of ''VERIFY_FREQ'' = ''VERIFY_FREQ''" "op_of ''IF_A_EQ 1'' = ''IF_A_EQ''"
  by code_simp+

lemma compile_patterns:
  "compile MAP (build_compute_and_store a b k) = Some (paint 4
     [[(10, 0, of_int (clamp_byte a)), (11, 0, of_int (clamp_byte b)), (20, 0, 0),
       (41, of_int (clamp_byte k), 0)]])"
  "compile MAP (build_conditional_write k a) = Some (paint 4
     [[(40, of_int (clamp_byte k), 0), (30, 0, of_int (clamp_byte a)), (10, 0, 1), (255, 0, 0)]])"
  "compile MAP build_validation_pattern = Some (paint 3 [[(50, 0, 0), (30, 0, 1), (255, 0, 0)]])"
  by (simp_all add: compile_def build_compute_and_store_def build_conditional_write_def
      build_validation_pattern_def expand_def Let_def SYNTHETIC_def max_len_def eval_nat_numeral)

section \<open>Running the compiled patterns\<close>

lemma uint_clamp [simp]: "uint (word_of_int (clamp_byte i) :: byte) = clamp_byte i"
  by (simp add: clamp_byte_def uint_word_of_int)

lemma unat_clamp: "unat (word_of_int (clamp_byte i) :: byte) = nat (clamp_byte i)"
  by (simp add: clamp_byte_def unat_eq_nat_uint uint_word_of_int)

text \<open>A one-thread machine with the standard opcode map, whatever its registers hold.\<close>

definition single_thread :: "vm \<Rightarrow> bool" where
  "single_thread v \<longleftrightarrow> threads v = 1 \<and> length (registers v) = 1 \<and> opmap v = MAP \<and>
     length (shared v) = 8 \<and> 4 \<le> max_col_steps v"

lemma run_columns_end [simp]: "rwidth arr \<le> x \<Longrightarrow> run_columns n arr x v c = (None, v, c)"
  by (cases n) auto

lemma registers_singleton: "single_thread v \<Longrightarrow> \<exists>t. registers v = [t]"
  by (auto simp: single_thread_def length_Suc_conv)

lemma single_column:
  assumes "threads v = 1" "0 < rheight arr" "0 \<notin> halted c" "\<not> skip_next c 0"
  shows "exec_column arr x v c =
    exec_instr arr x 0 (rev_opmap (opmap v) (fst (pixel_at arr 0 x))) (pixel_at arr 0 x)
      (upd_thread 0 (\<lambda>t. t\<lparr>reg_T := int x\<rparr>) (v\<lparr>clock := int x\<rparr>)) (c\<lparr>jump_to := None\<rparr>)"
  using assms by (simp add: exec_column_def exec_thread_def Let_def split: prod.split option.split)

lemma single_column_skip:
  assumes "threads v = 1" "0 < rheight arr" "0 \<notin> halted c" "skip_next c 0"
  shows "exec_column arr x v c =
    (None, v\<lparr>clock := int x\<rparr>, c\<lparr>jump_to := None, skip_next := (skip_next c)(0 := False)\<rparr>)"
  using assms by (simp add: exec_column_def exec_thread_def)

text \<open>What each opcode of the patterns does, one equation per opcode.\<close>

lemma instr_simps:
  "exec_instr arr x y (Some ''SET_REG'') (r, g, b) v c =
     (None, upd_thread y (\<lambda>t. t\<lparr>reg_A := uint b\<rparr>) v, c)"
  "exec_instr arr x y (Some ''SET_B'') (r, g, b) v c =
     (None, upd_thread y (\<lambda>t. t\<lparr>reg_B := uint b\<rparr>) v, c)"
  "exec_instr arr x y (Some ''ADD_THREAD'') (r, g, b) v c =
     (None, upd_thread y (\<lambda>t. t\<lparr>reg_OUT := mask_ff (reg_A t + reg_B t)\<rparr>) v, c)"
  "exec_instr arr x y (Some ''IF_A_EQ'') (r, g, b) v c =
     (None, v, if reg_A (registers v ! y) = uint b then c else c\<lparr>skip_next := (skip_next c)(y := True)\<rparr>)"
  "exec_instr arr x y (Some ''HALT'') (r, g, b) v c = (None, v, c\<lparr>halted := insert y (halted c)\<rparr>)"
  "exec_instr arr x y (Some ''VERIFY_FREQ'') (r, g, b) v c =
     (None, upd_thread y (\<lambda>t. t\<lparr>reg_A :=
        (if (r, g, b) = pixel_at arr y (rwidth arr - 1 - x) then 1 else 0)\<rparr>) v, c)"
  by (simp_all add: exec_instr_def)

lemma instr_mem_simps:
  assumes "unat g < length (shared v)"
  shows "exec_instr arr x y (Some ''LOAD_MEM'') (r, g, b) v c =
      (None, upd_thread y (\<lambda>t. t\<lparr>reg_A := shared v ! unat g\<rparr>) v, c)"
    "exec_instr arr x y (Some ''STORE_MEM'') (r, g, b) v c =
      (None, v\<lparr>shared := (shared v)[unat g := reg_A (registers v ! y)]\<rparr>, c)"
  using assms by (simp_all add: exec_instr_def)

lemma paint_row_simps [simp]:
  "rwidth (paint n rows) = n" "rheight (paint n rows) = length rows"
  by (simp_all add: paint_def)

lemma paint_single [simp]:
  "x < length row \<Longrightarrow> length row = n \<Longrightarrow> pixel_at (paint n [row]) 0 x = row ! x"
  by (simp add: pixel_at_def paint_def)

lemmas run_simps = single_column single_column_skip instr_simps instr_mem_simps
  upd_thread_def next_column_def fresh_ctx_def

section \<open>Properties\<close>

text \<open>C6. Compiler and machine agree on opcodes, under every opcode map whose R channels are distinct and
  which leaves R = 0 reserved, as the machine's comments ask for: the R channel of a compiled
  instruction decodes to exactly the opcode the text denotes, and a malformed or unknown instruction
  compiles to the cell (0, 0, 0), which decodes to no opcode and which every machine, strict or not,
  passes over without an error or a change.\<close>

theorem compiled_instruction_decodes:
  assumes "opmap_distinct m" "zero_reserved m"
  shows "case instr_key instr of
      None \<Rightarrow> parse_one m instr = (0, 0, 0) \<and> nop_cell m arr x y v c
    | Some key \<Rightarrow> (case dget m key of
        None \<Rightarrow> parse_one m instr = (0, 0, 0) \<and> nop_cell m arr x y v c
      | Some rgb \<Rightarrow> rev_opmap m (fst (parse_one m instr)) = Some key)"
proof (cases "instr_key instr")
  case None
  then show ?thesis using parse_one_malformed [OF None] zero_reserved_nop [OF assms(2)] by (simp add: NOP_px_def)
next
  case (Some key)
  show ?thesis
  proof (cases "dget m key")
    case None
    with Some have "parse_one m instr = (0, 0, 0)"
      by (auto simp: instr_key_def parse_one_def NOP_px_def
          split: list.splits option.splits prod.splits if_splits)
    with None Some show ?thesis using zero_reserved_nop [OF assms(2)] by simp
  next
    case (Some rgb)
    with \<open>instr_key instr = Some key\<close> show ?thesis
      using parse_one_key rev_opmap_hit [OF assms(1) Some] by simp
  qed
qed

theorem compiled_instruction_decodes_witness:
  "rev_opmap MAP (fst (parse_one MAP ''  store_mem 3'')) = Some ''STORE_MEM'' \<and>
   parse_one MAP ''store_mem x'' = (0, 0, 0) \<and> nop_cell MAP (paint 1 [[(0, 0, 0)]]) 0 0 (demo_vm 1 True) fresh_ctx"
proof -
  have k: "instr_key ''  store_mem 3'' = Some ''STORE_MEM''" "instr_key ''store_mem x'' = None"
    "dget MAP ''STORE_MEM'' \<noteq> None" by code_simp+
  show ?thesis
    using compiled_instruction_decodes [OF MAP_distinct MAP_zero_reserved, of "''  store_mem 3''"]
      compiled_instruction_decodes [OF MAP_distinct MAP_zero_reserved, of "''store_mem x''" "paint 1 [[(0, 0, 0)]]" 0 0 "demo_vm 1 True" fresh_ctx] k
    by auto
qed

text \<open>The comments say that R = 0 is always NOP regardless of the map. Nothing enforces it: the lookup comes
  first, so a map that gives an opcode the channel R = 0 makes the machine execute that opcode on every
  blank cell, and on every cell the compiler writes for malformed text.\<close>

theorem zero_not_reserved:
  "opmap_distinct (dset ''HALT'' (0, 0, 0) MAP) \<and>
   parse_one (dset ''HALT'' (0, 0, 0) MAP) ''no such instruction'' = (0, 0, 0) \<and>
   exec_instr arr x y (rev_opmap (dset ''HALT'' (0, 0, 0) MAP) 0) (0, 0, 0) v c = (None, v, c\<lparr>halted := insert y (halted c)\<rparr>)"
proof -
  have "opmap_distinct (dset ''HALT'' (0, 0, 0) MAP)" "rev_opmap (dset ''HALT'' (0, 0, 0) MAP) 0 = Some ''HALT''"
    "parse_one (dset ''HALT'' (0, 0, 0) MAP) ''no such instruction'' = (0, 0, 0)" by code_simp+
  then show ?thesis by (simp add: exec_instr_def)
qed

text \<open>Layout of a compiled program: the image has one row per thread and as many columns as
  the longest expanded row; the cell of instruction \<open>x\<close> of thread \<open>y\<close> is its parsed instruction,
  cells past the end of a row are NOPs, and the raster is rectangular.\<close>

theorem compile_layout:
  assumes "compile m program = Some arr" "y < length program" "x < rwidth arr"
  shows "raster_ok arr \<and> rheight arr = length program \<and>
    (let row = expand program ! y in
     length row \<le> rwidth arr \<and>
     pixel_at arr y x = (if x < length row then parse_one m (row ! x) else (0, 0, 0)))"
proof -
  let ?rows = "map (map (parse_one m)) (expand program)"
  have arr: "arr = paint (max_len (expand program)) ?rows"
    using assms(1) by (simp add: compile_def Let_def split: if_splits)
  have len: "length (expand program) = length program"
    by (simp add: expand_def)
  have "expand program ! y \<in> set (expand program)"
    using assms(2) len by simp
  then have "length (expand program ! y) \<le> max_len (expand program)"
    by (rule max_len_mem)
  moreover have "pixel_at arr y x = (if x < length (?rows ! y) then ?rows ! y ! x else NOP_px)"
    using assms(2,3) len unfolding arr by (intro paint_cell) (simp_all add: paint_def)
  moreover have "raster_ok arr"
    unfolding arr by (rule paint_ok) simp
  ultimately show ?thesis
    using assms(2) len by (simp add: Let_def NOP_px_def arr paint_def)
qed

theorem compile_layout_witness:
  "\<exists>arr. compile MAP [[''SET_A 10'', ''OUT_TO_A''], [''HALT'']] = Some arr \<and> rheight arr = 2 \<and>
     pixel_at arr 1 1 = (0, 0, 0)"
proof -
  have "expand [[''SET_A 10'', ''OUT_TO_A''], [''HALT'']] = [[''SET_A 10'', ''COPY_OUT''], [''HALT'']]"
    by code_simp
  then obtain arr where c: "compile MAP [[''SET_A 10'', ''OUT_TO_A''], [''HALT'']] = Some arr"
    and w: "rwidth arr = 2" and e: "expand [[''SET_A 10'', ''OUT_TO_A''], [''HALT'']] ! 1 = [''HALT'']"
    by (simp add: compile_def Let_def max_len_def paint_def)
  show ?thesis
    using compile_layout [OF c, of 1 1] c w e by (simp add: Let_def)
qed

lemma single_thread_demo: "single_thread (demo_vm 1 strict)"
  by (simp add: single_thread_def demo_vm_def)

text \<open>The compute-and-store pattern end to end: for all integers \<open>a\<close>, \<open>b\<close> and every slot
  \<open>k\<close>, compiling and executing it on a one-thread machine returns without error, leaves the
  clamped operands in A and B, their sum modulo 256 in OUT, and A (not OUT) in slot \<open>k\<close>, with
  every other slot unchanged.\<close>

theorem compute_and_store_runs:
  assumes "single_thread v" "0 \<le> k" "k < 8"
    and "compile MAP (build_compute_and_store a b k) = Some arr"
  shows "\<exists>v'. execute_array arr v = (Inr None, v') \<and>
    registers v' = [\<lparr>reg_A = clamp_byte a, reg_B = clamp_byte b,
      reg_OUT = (clamp_byte a + clamp_byte b) mod 256, reg_T = 3\<rparr>] \<and>
    shared v' = (shared v)[nat k := clamp_byte a]"
proof -
  obtain t where t: "registers v = [t]" using registers_singleton [OF assms(1)] ..
  obtain n where n: "max_col_steps v = Suc (Suc (Suc (Suc n)))"
    using assms(1) by (auto simp: single_thread_def dest!: le_Suc_ex [of 4])
  have k: "clamp_byte k = k" "nat k < 8" using assms(2,3) by (auto simp: clamp_byte_def)
  have arr: "arr = paint 4 [[(10, 0, of_int (clamp_byte a)), (11, 0, of_int (clamp_byte b)),
      (20, 0, 0), (41, of_int k, 0)]]"
    using assms(4) k by (simp add: compile_patterns)
  show ?thesis
    using assms(1) t n k unat_clamp [of k] unfolding arr
    by (simp add: execute_array_def run_simps single_thread_def mask_ff_mod)
qed

theorem compute_and_store_runs_witness:
  "\<exists>v'. execute_array (the (compile MAP (build_compute_and_store 200 100 3))) (demo_vm 1 True) =
      (Inr None, v') \<and> shared v' = (shared (demo_vm 1 True))[nat 3 := clamp_byte 200]"
proof -
  have "compile MAP (build_compute_and_store 200 100 3) =
      Some (the (compile MAP (build_compute_and_store 200 100 3)))"
    by (simp add: compile_patterns)
  from compute_and_store_runs [OF single_thread_demo _ _ this] show ?thesis by auto
qed

text \<open>The conditional-write pattern: on a one-thread machine whose slots hold bytes, register A
  ends as 1 when slot \<open>k\<close> equals the comparison value (clamped to a byte) and as the slot's value
  otherwise; shared memory is unchanged.\<close>

theorem conditional_write_runs:
  assumes "single_thread v" "0 \<le> k" "k < 8"
    and "compile MAP (build_conditional_write k val) = Some arr"
  shows "\<exists>v'. execute_array arr v = (Inr None, v') \<and> shared v' = shared v \<and>
    reg_A (registers v' ! 0) =
      (if shared v ! nat k = clamp_byte val then 1 else shared v ! nat k)"
proof -
  obtain t where t: "registers v = [t]" using registers_singleton [OF assms(1)] ..
  obtain n where n: "max_col_steps v = Suc (Suc (Suc (Suc n)))"
    using assms(1) by (auto simp: single_thread_def dest!: le_Suc_ex [of 4])
  have k: "clamp_byte k = k" "nat k < 8" using assms(2,3) by (auto simp: clamp_byte_def)
  have arr: "arr = paint 4 [[(40, of_int k, 0), (30, 0, of_int (clamp_byte val)), (10, 0, 1),
      (255, 0, 0)]]"
    using assms(4) k by (simp add: compile_patterns)
  show ?thesis
    using assms(1) t n k unat_clamp [of k] unfolding arr
    by (cases "shared v ! nat k = clamp_byte val")
      (simp_all add: execute_array_def run_simps single_thread_def)
qed

theorem conditional_write_runs_witness:
  "\<exists>v'. execute_array (the (compile MAP (build_conditional_write 2 0))) (demo_vm 1 True) =
      (Inr None, v') \<and> reg_A (registers v' ! 0) = 1"
proof -
  have "compile MAP (build_conditional_write 2 0) = Some (the (compile MAP (build_conditional_write 2 0)))"
    by (simp add: compile_patterns)
  from conditional_write_runs [OF single_thread_demo _ _ this] show ?thesis
    by (auto simp: demo_vm_def clamp_byte_def)
qed

text \<open>The validation pattern cannot authenticate: the mirror of its VERIFY_FREQ cell is its own
  HALT cell, so on every one-thread machine the compiled pattern leaves 0 in register A and skips
  the HALT column (register T stays at column 1), although the helper describes a branch that
  halts on a match.\<close>

theorem validation_pattern_never_matches:
  assumes "single_thread v" "compile MAP build_validation_pattern = Some arr"
  shows "\<exists>v'. execute_array arr v = (Inr None, v') \<and> reg_A (registers v' ! 0) = 0 \<and>
    reg_T (registers v' ! 0) = 1"
proof -
  obtain t where t: "registers v = [t]" using registers_singleton [OF assms(1)] ..
  obtain n where n: "max_col_steps v = Suc (Suc (Suc (Suc n)))"
    using assms(1) by (auto simp: single_thread_def dest!: le_Suc_ex [of 4])
  have arr: "arr = paint 3 [[(50, 0, 0), (30, 0, 1), (255, 0, 0)]]"
    using assms(2) by (simp add: compile_patterns)
  show ?thesis
    using assms(1) t n unfolding arr
    by (simp add: execute_array_def run_simps single_thread_def)
qed

theorem validation_pattern_never_matches_witness:
  "\<exists>v'. execute_array (the (compile MAP build_validation_pattern)) (demo_vm 1 True) = (Inr None, v') \<and>
     reg_A (registers v' ! 0) = 0"
proof -
  have "compile MAP build_validation_pattern = Some (the (compile MAP build_validation_pattern))"
    by (simp add: compile_patterns)
  from validation_pattern_never_matches [OF single_thread_demo this] show ?thesis by auto
qed

end
