(* ===== verification/Spatial_Layout.thy ===== *)
theory Spatial_Layout
  imports Py_Text
begin

text \<open>
  Geometry of spatial frames, from \<^verbatim>\<open>zdx_spatial_frame.py\<close>: \<open>SpatialRegion\<close>, \<open>SpatialLayout\<close> with
  the checks of its constructor, named regions, row-major addresses, and the exchange with
  manifest dictionaries (\<open>from_dict\<close>, \<open>to_dict\<close>). Dimensions are Python integers; that they are
  integers and not booleans is checked where untyped data enters, in \<open>from_dict\<close>, and is carried
  by the types elsewhere. Floats do not occur in the modelled dictionaries.

  The lemmas show what a constructed layout guarantees (regions in bounds, outside the execution
  plane, disjoint, with distinct names), that addresses and coordinates are inverse to each other,
  and that \<open>from_dict\<close> accepts exactly what \<open>to_dict\<close> of a valid layout writes.
\<close>

section \<open>Regions\<close>

definition MAX_SPATIAL_CELLS :: int where
  "MAX_SPATIAL_CELLS = 16777216"

record region =
  rg_name :: string
  rg_x :: int
  rg_y :: int
  rg_width :: int
  rg_height :: int
  rg_kind :: string

definition region_cells :: "region \<Rightarrow> int" where
  "region_cells r = rg_width r * rg_height r"

definition region_capacity_bytes :: "region \<Rightarrow> int" where
  "region_capacity_bytes r = region_cells r * 3"

definition region_contains :: "region \<Rightarrow> int \<Rightarrow> int \<Rightarrow> bool" where
  "region_contains r x y \<longleftrightarrow>
     rg_x r \<le> x \<and> x < rg_x r + rg_width r \<and> rg_y r \<le> y \<and> y < rg_y r + rg_height r"

definition regions_overlap :: "region \<Rightarrow> region \<Rightarrow> bool" where
  "regions_overlap a b \<longleftrightarrow>
     \<not> (rg_x a + rg_width a \<le> rg_x b \<or> rg_x b + rg_width b \<le> rg_x a \<or>
        rg_y a + rg_height a \<le> rg_y b \<or> rg_y b + rg_height b \<le> rg_y a)"

section \<open>Layouts and their validation\<close>

record layout =
  lwidth :: int
  lheight :: int
  execution_rows :: int
  lregions :: "region list"

text \<open>The first loop of \<open>__post_init__\<close>; \<open>names\<close> is the set of names seen so far.\<close>

fun check_regions :: "layout \<Rightarrow> string set \<Rightarrow> region list \<Rightarrow> unit result" where
  "check_regions L names [] = Inr ()"
| "check_regions L names (r # rs) =
     (if rg_name r = [] then Inl (ValueError ''SpatialRegion name must not be empty'')
      else if rg_name r \<in> names then Inl (ValueError ''duplicate spatial region name'')
      else if rg_width r < 1 \<or> rg_height r < 1 then Inl (ValueError ''region must have positive dimensions'')
      else if rg_x r < 0 \<or> rg_y r < 0 then Inl (ValueError ''region has a negative origin'')
      else if rg_x r + rg_width r > lwidth L \<or> rg_y r + rg_height r > lheight L
        then Inl (ValueError ''region exceeds frame bounds'')
      else if rg_kind r \<noteq> ''data'' then Inl (ValueError ''named spatial region must use kind=data'')
      else if rg_y r < execution_rows L then Inl (ValueError ''data region overlaps executable rows'')
      else check_regions L (insert (rg_name r) names) rs)"

text \<open>The second loop: every pair of regions, the earlier one on the left.\<close>

fun check_overlaps :: "region list \<Rightarrow> unit result" where
  "check_overlaps [] = Inr ()"
| "check_overlaps (r # rs) =
     (if list_ex (regions_overlap r) rs then Inl (ValueError ''spatial regions overlap'')
      else check_overlaps rs)"

definition layout_post_init :: "layout \<Rightarrow> unit result" where
  "layout_post_init L =
     (if lwidth L < 1 \<or> lheight L < 1 then Inl (ValueError ''SpatialLayout width/height must be >= 1'')
      else if lwidth L * lheight L > MAX_SPATIAL_CELLS
        then Inl (ValueError ''SpatialLayout exceeds maximum cell count'')
      else if \<not> (0 \<le> execution_rows L \<and> execution_rows L \<le> lheight L)
        then Inl (ValueError ''execution_rows must be between 0 and image height'')
      else rbind (check_regions L {} (lregions L)) (\<lambda>_. check_overlaps (lregions L)))"

definition mk_layout :: "int \<Rightarrow> int \<Rightarrow> int \<Rightarrow> region list \<Rightarrow> layout result" where
  "mk_layout w h ex rs =
     (let L = \<lparr>lwidth = w, lheight = h, execution_rows = ex, lregions = rs\<rparr>
      in rbind (layout_post_init L) (\<lambda>_. Inr L))"

definition execution_region :: "layout \<Rightarrow> region" where
  "execution_region L =
     \<lparr>rg_name = ''execution'', rg_x = 0, rg_y = 0, rg_width = lwidth L,
      rg_height = execution_rows L, rg_kind = ''execution''\<rparr>"

definition storage_region :: "layout \<Rightarrow> region" where
  "storage_region L =
     \<lparr>rg_name = ''storage'', rg_x = 0, rg_y = execution_rows L, rg_width = lwidth L,
      rg_height = lheight L - execution_rows L, rg_kind = ''data''\<rparr>"

definition total_cells :: "layout \<Rightarrow> int" where
  "total_cells L = lwidth L * lheight L"

definition raw_capacity_bytes :: "layout \<Rightarrow> int" where
  "raw_capacity_bytes L = total_cells L * 3"

definition storage_capacity_bytes :: "layout \<Rightarrow> int" where
  "storage_capacity_bytes L = region_capacity_bytes (storage_region L)"

definition layout_region :: "layout \<Rightarrow> string option \<Rightarrow> region result" where
  "layout_region L name =
     (if name = None \<or> name = Some ''storage'' then
        (let r = storage_region L
         in if rg_height r = 0 then Inl (ValueError ''layout has no storage rows'') else Inr r)
      else if name = Some ''execution'' then Inr (execution_region L)
      else (case List.find (\<lambda>r. name = Some (rg_name r)) (lregions L) of
              Some r \<Rightarrow> Inr r
            | None \<Rightarrow> Inl (KeyError ''unknown spatial region'')))"

section \<open>Addresses\<close>

definition check_coordinate :: "layout \<Rightarrow> int \<Rightarrow> int \<Rightarrow> unit result" where
  "check_coordinate L x y =
     raise_if (\<not> (0 \<le> x \<and> x < lwidth L \<and> 0 \<le> y \<and> y < lheight L))
       (ValueError ''coordinate outside frame'')"

definition address :: "layout \<Rightarrow> int \<Rightarrow> int \<Rightarrow> int result" where
  "address L x y = rbind (check_coordinate L x y) (\<lambda>_. Inr (y * lwidth L + x))"

definition coordinates :: "layout \<Rightarrow> int \<Rightarrow> (int \<times> int) result" where
  "coordinates L a =
     (if \<not> (0 \<le> a \<and> a < total_cells L) then Inl (ValueError ''spatial address out of range'')
      else Inr (a mod lwidth L, a div lwidth L))"

section \<open>Dictionaries\<close>

definition strict_int :: "(string, json) dict \<Rightarrow> string \<Rightarrow> int result" where
  "strict_int payload name =
     (case dget payload name of
        None \<Rightarrow> Inl (ValueError ''spatial layout requires integer width, height, and execution_rows'')
      | Some (JInt i) \<Rightarrow> Inr i
      | Some _ \<Rightarrow> Inl (ValueError ''spatial layout field must be an integer''))"

text \<open>\<open>value != number\<close> of Python, where \<open>False == 0\<close> and \<open>True == 1\<close>.\<close>

fun json_eq_int :: "json \<Rightarrow> int \<Rightarrow> bool" where
  "json_eq_int (JInt i) n = (i = n)"
| "json_eq_int (JBool b) n = (n = (if b then 1 else 0))"
| "json_eq_int _ n = False"

text \<open>\<open>payload.get("regions", ()) or ()\<close>, iterated.\<close>

fun regions_iter :: "json option \<Rightarrow> json list result" where
  "regions_iter None = Inr []"
| "regions_iter (Some JNull) = Inr []"
| "regions_iter (Some (JBool b)) =
     (if b then Inl (TypeError ''bool object is not iterable'') else Inr [])"
| "regions_iter (Some (JInt i)) =
     (if i = 0 then Inr [] else Inl (TypeError ''int object is not iterable''))"
| "regions_iter (Some (JStr s)) = Inr (map (\<lambda>c. JStr [c]) s)"
| "regions_iter (Some (JList xs)) = Inr xs"
| "regions_iter (Some (JObj kvs)) = Inr (map (\<lambda>(k, v). JStr k) kvs)"

definition region_of_json :: "json \<Rightarrow> region result" where
  "region_of_json raw =
     (case raw of
        JObj d \<Rightarrow>
          if \<not> dkeys d \<subseteq> {''name'', ''x'', ''y'', ''width'', ''height'', ''kind'', ''capacity_bytes''}
          then Inl (ValueError ''unknown spatial region fields'')
          else
            (let bad = Inl (ValueError ''spatial region has invalid geometry'') in
             case (dget d ''name'', dget d ''x'', dget d ''y'', dget d ''width'', dget d ''height'',
                   (case dget d ''kind'' of None \<Rightarrow> JStr ''data'' | Some k \<Rightarrow> k)) of
               (Some (JStr n), Some (JInt x), Some (JInt y), Some (JInt w), Some (JInt h), JStr k) \<Rightarrow>
                 (let r = \<lparr>rg_name = n, rg_x = x, rg_y = y, rg_width = w, rg_height = h, rg_kind = k\<rparr>
                  in case dget d ''capacity_bytes'' of
                       None \<Rightarrow> Inr r
                     | Some c \<Rightarrow>
                         if \<not> json_eq_int c (region_capacity_bytes r)
                         then Inl (ValueError ''spatial region capacity_bytes does not match geometry'')
                         else Inr r)
             | _ \<Rightarrow> bad)
      | _ \<Rightarrow> Inl (ValueError ''spatial region must be a mapping''))"

fun regions_of_json :: "json list \<Rightarrow> region list result" where
  "regions_of_json [] = Inr []"
| "regions_of_json (j # js) =
     rbind (region_of_json j) (\<lambda>r. rbind (regions_of_json js) (\<lambda>rs. Inr (r # rs)))"

definition layout_from_dict :: "json \<Rightarrow> layout result" where
  "layout_from_dict payload =
     (case payload of
        JObj d \<Rightarrow>
          if \<not> dkeys d \<subseteq> {''width'', ''height'', ''execution_rows'', ''regions'',
                            ''raw_capacity_bytes'', ''storage_capacity_bytes''}
          then Inl (ValueError ''unknown spatial layout fields'')
          else
            rbind (strict_int d ''width'') (\<lambda>w.
            rbind (strict_int d ''height'') (\<lambda>h.
            rbind (strict_int d ''execution_rows'') (\<lambda>ex.
            rbind (regions_iter (dget d ''regions'')) (\<lambda>raws.
            rbind (regions_of_json raws) (\<lambda>rs.
            rbind (mk_layout w h ex rs) (\<lambda>L.
            rbind (case dget d ''raw_capacity_bytes'' of None \<Rightarrow> Inr ()
                   | Some c \<Rightarrow> raise_if (\<not> json_eq_int c (raw_capacity_bytes L))
                       (ValueError ''spatial layout raw_capacity_bytes does not match geometry'')) (\<lambda>_.
            rbind (case dget d ''storage_capacity_bytes'' of None \<Rightarrow> Inr ()
                   | Some c \<Rightarrow> raise_if (\<not> json_eq_int c (storage_capacity_bytes L))
                       (ValueError ''spatial layout storage_capacity_bytes does not match geometry'')) (\<lambda>_.
            Inr L))))))))
      | _ \<Rightarrow> Inl (TypeError ''spatial layout must be a mapping''))"

definition region_to_json :: "region \<Rightarrow> json" where
  "region_to_json r =
     JObj [(''name'', JStr (rg_name r)), (''x'', JInt (rg_x r)), (''y'', JInt (rg_y r)),
       (''width'', JInt (rg_width r)), (''height'', JInt (rg_height r)), (''kind'', JStr (rg_kind r)),
       (''capacity_bytes'', JInt (region_capacity_bytes r))]"

definition layout_to_dict :: "layout \<Rightarrow> json" where
  "layout_to_dict L =
     JObj [(''width'', JInt (lwidth L)), (''height'', JInt (lheight L)),
       (''execution_rows'', JInt (execution_rows L)),
       (''raw_capacity_bytes'', JInt (raw_capacity_bytes L)),
       (''storage_capacity_bytes'', JInt (storage_capacity_bytes L)),
       (''regions'', JList (map region_to_json (lregions L)))]"

section \<open>What a constructed layout guarantees\<close>

definition region_fits :: "layout \<Rightarrow> region \<Rightarrow> bool" where
  "region_fits L r \<longleftrightarrow> rg_name r \<noteq> [] \<and> 1 \<le> rg_width r \<and> 1 \<le> rg_height r \<and> 0 \<le> rg_x r \<and> 0 \<le> rg_y r \<and>
     rg_x r + rg_width r \<le> lwidth L \<and> rg_y r + rg_height r \<le> lheight L \<and> rg_kind r = ''data'' \<and>
     execution_rows L \<le> rg_y r"

definition layout_ok :: "layout \<Rightarrow> bool" where
  "layout_ok L \<longleftrightarrow> 1 \<le> lwidth L \<and> 1 \<le> lheight L \<and> total_cells L \<le> MAX_SPATIAL_CELLS \<and>
     0 \<le> execution_rows L \<and> execution_rows L \<le> lheight L \<and>
     (\<forall>r \<in> set (lregions L). region_fits L r) \<and> distinct (map rg_name (lregions L)) \<and>
     sorted_wrt (\<lambda>a b. \<not> regions_overlap a b) (lregions L)"

lemma check_regions_iff:
  "check_regions L names rs = Inr () \<longleftrightarrow>
     (\<forall>r \<in> set rs. region_fits L r) \<and> distinct (map rg_name rs) \<and> rg_name ` set rs \<inter> names = {}"
  by (induction rs arbitrary: names) (auto simp: region_fits_def)

lemma check_overlaps_iff:
  "check_overlaps rs = Inr () \<longleftrightarrow> sorted_wrt (\<lambda>a b. \<not> regions_overlap a b) rs"
  by (induction rs) (auto simp: list_ex_iff)

lemma layout_post_init_iff: "layout_post_init L = Inr () \<longleftrightarrow> layout_ok L"
  by (auto simp: layout_post_init_def layout_ok_def check_regions_iff check_overlaps_iff total_cells_def)

lemma mk_layout_iff:
  "mk_layout w h ex rs = Inr L \<longleftrightarrow>
     L = \<lparr>lwidth = w, lheight = h, execution_rows = ex, lregions = rs\<rparr> \<and> layout_ok L"
  by (auto simp: mk_layout_def Let_def layout_post_init_iff [symmetric])

lemma regions_overlap_iff:
  assumes "1 \<le> rg_width a" "1 \<le> rg_height a" "1 \<le> rg_width b" "1 \<le> rg_height b"
  shows "regions_overlap a b \<longleftrightarrow> (\<exists>x y. region_contains a x y \<and> region_contains b x y)"
proof
  assume "regions_overlap a b"
  with assms have "region_contains a (max (rg_x a) (rg_x b)) (max (rg_y a) (rg_y b)) \<and>
      region_contains b (max (rg_x a) (rg_x b)) (max (rg_y a) (rg_y b))"
    by (auto simp: regions_overlap_def region_contains_def max_def)
  then show "\<exists>x y. region_contains a x y \<and> region_contains b x y" by blast
qed (auto simp: regions_overlap_def region_contains_def)

text \<open>The region a lookup returns lies inside the frame.\<close>

lemma layout_region_bounds:
  assumes "layout_ok L" "layout_region L name = Inr r"
  shows "0 \<le> rg_x r" "0 \<le> rg_y r" "1 \<le> rg_width r" "0 \<le> rg_height r"
    "rg_x r + rg_width r \<le> lwidth L" "rg_y r + rg_height r \<le> lheight L"
  using assms
  by (auto simp: layout_region_def Let_def storage_region_def execution_region_def layout_ok_def
      region_fits_def find_Some_iff split: if_splits option.splits dest!: nth_mem)

lemma layout_region_data:
  assumes "layout_ok L" "layout_region L name = Inr r" "name \<noteq> Some ''execution''"
  shows "execution_rows L \<le> rg_y r"
  using assms
  by (auto simp: layout_region_def Let_def storage_region_def layout_ok_def
      region_fits_def find_Some_iff split: if_splits option.splits dest!: nth_mem)

lemma named_region:
  assumes "n \<in> rg_name ` set (lregions L)" "n \<notin> {''storage'', ''execution''}"
  shows "\<exists>r \<in> set (lregions L). layout_region L (Some n) = Inr r \<and> rg_name r = n"
proof -
  obtain r where r: "List.find (\<lambda>r. n = rg_name r) (lregions L) = Some r"
    using assms(1) by (cases "List.find (\<lambda>r. n = rg_name r) (lregions L)") (auto simp: find_None_iff)
  then have "r \<in> set (lregions L)" "rg_name r = n" by (auto simp: find_Some_iff)
  moreover have "layout_region L (Some n) = Inr r"
    using assms(2) r by (simp add: layout_region_def)
  ultimately show ?thesis by blast
qed

lemma named_regions_disjoint:
  assumes L: "layout_ok L" and r: "r \<in> set (lregions L)" "r' \<in> set (lregions L)" "rg_name r \<noteq> rg_name r'"
    and c: "region_contains r x y"
  shows "\<not> region_contains r' x y"
proof -
  obtain i j where ij: "i < length (lregions L)" "r = lregions L ! i" "j < length (lregions L)" "r' = lregions L ! j"
    using r by (metis in_set_conv_nth)
  have fits: "region_fits L r" "region_fits L r'" using L r by (simp_all add: layout_ok_def)
  have "\<not> regions_overlap r r' \<or> \<not> regions_overlap r' r"
    using L ij r(3) by (cases i j rule: linorder_cases) (auto simp: layout_ok_def sorted_wrt_iff_nth_less)
  then show ?thesis
    using c fits regions_overlap_iff [of r r'] regions_overlap_iff [of r' r] by (auto simp: region_fits_def)
qed

lemma region_json_roundtrip: "region_of_json (region_to_json r) = Inr r"
  by (simp add: region_of_json_def region_to_json_def Let_def region_capacity_bytes_def region_cells_def)

lemma regions_json_roundtrip: "regions_of_json (map region_to_json rs) = Inr rs"
  by (induction rs) (simp_all add: region_json_roundtrip)

lemma layout_from_to_dict:
  assumes "layout_ok L"
  shows "layout_from_dict (layout_to_dict L) = Inr L"
proof -
  have "mk_layout (lwidth L) (lheight L) (execution_rows L) (lregions L) = Inr L"
    using assms by (simp add: mk_layout_iff)
  then show ?thesis
    by (simp add: layout_from_dict_def layout_to_dict_def strict_int_def regions_json_roundtrip)
qed

lemma layout_from_dict_ok: "layout_from_dict j = Inr L \<Longrightarrow> layout_ok L"
  by (auto simp: layout_from_dict_def mk_layout_iff split: if_splits option.splits json.splits)

section \<open>Properties\<close>

definition demo_region :: "string \<Rightarrow> int \<Rightarrow> int \<Rightarrow> region" where
  "demo_region n y h = \<lparr>rg_name = n, rg_x = 0, rg_y = y, rg_width = 8, rg_height = h, rg_kind = ''data''\<rparr>"

definition demo_layout :: layout where
  "demo_layout = \<lparr>lwidth = 8, lheight = 16, execution_rows = 2,
     lregions = [demo_region ''memory'' 2 6, demo_region ''inbox'' 8 4]\<rparr>"

lemma demo_layout_ok: "layout_ok demo_layout"
  by (simp add: layout_ok_def demo_layout_def demo_region_def region_fits_def regions_overlap_def
      total_cells_def MAX_SPATIAL_CELLS_def)

text \<open>C7. A constructed layout is safe: when the constructor succeeds, every named region lies
  inside the frame and below the executable rows, no frame cell belongs to two regions, region
  names are distinct, and the frame has between 1 and 16777216 cells.\<close>

theorem layout_construction_safe:
  assumes "mk_layout w h ex rs = Inr L"
  shows "0 < total_cells L \<and> total_cells L \<le> MAX_SPATIAL_CELLS \<and> distinct (map rg_name rs) \<and>
    (\<forall>r \<in> set rs. \<forall>x y. region_contains r x y \<longrightarrow> 0 \<le> x \<and> x < w \<and> ex \<le> y \<and> y < h) \<and>
    (\<forall>i j x y. i < j \<longrightarrow> j < length rs \<longrightarrow> region_contains (rs ! i) x y \<longrightarrow> \<not> region_contains (rs ! j) x y)"
proof -
  have L: "L = \<lparr>lwidth = w, lheight = h, execution_rows = ex, lregions = rs\<rparr>" and ok: "layout_ok L"
    using assms by (auto simp: mk_layout_iff)
  have fits: "\<And>r. r \<in> set rs \<Longrightarrow> region_fits L r"
    using ok L by (simp add: layout_ok_def)
  have "\<not> region_contains (rs ! j) x y"
    if "i < j" "j < length rs" "region_contains (rs ! i) x y" for i j x y
  proof -
    have "\<not> regions_overlap (rs ! i) (rs ! j)"
      using ok L that(1,2) by (simp add: layout_ok_def sorted_wrt_iff_nth_less)
    moreover have "region_fits L (rs ! i)" "region_fits L (rs ! j)"
      using fits that by simp_all
    ultimately show ?thesis
      using regions_overlap_iff [of "rs ! i" "rs ! j"] that(3) by (auto simp: region_fits_def)
  qed
  moreover have "0 < total_cells L"
    using ok by (simp add: layout_ok_def total_cells_def)
  moreover have "\<forall>r \<in> set rs. \<forall>x y. region_contains r x y \<longrightarrow> 0 \<le> x \<and> x < w \<and> ex \<le> y \<and> y < h"
    using fits L by (fastforce simp: region_fits_def region_contains_def)
  ultimately show ?thesis
    using ok L by (simp add: layout_ok_def)
qed

theorem layout_construction_safe_witness:
  "mk_layout 8 16 2 (lregions demo_layout) = Inr demo_layout \<and> 0 < total_cells demo_layout"
proof -
  have ok: "mk_layout 8 16 2 (lregions demo_layout) = Inr demo_layout"
    using demo_layout_ok by (simp add: mk_layout_iff) (simp add: demo_layout_def)
  show ?thesis using ok layout_construction_safe [OF ok] by blast
qed

text \<open>Cell addresses are exact: on a valid layout, every in-range coordinate has an address in
  \<open>0..total_cells-1\<close> that maps back to it, every in-range address has coordinates that map back
  to it, and out-of-range coordinates and addresses raise.\<close>

theorem address_coordinates_inverse:
  assumes "layout_ok L"
  shows "(case address L x y of
        Inr a \<Rightarrow> 0 \<le> a \<and> a < total_cells L \<and> coordinates L a = Inr (x, y)
      | Inl e \<Rightarrow> \<not> (0 \<le> x \<and> x < lwidth L \<and> 0 \<le> y \<and> y < lheight L)) \<and>
    (case coordinates L a of
        Inr (x', y') \<Rightarrow> address L x' y' = Inr a
      | Inl e \<Rightarrow> \<not> (0 \<le> a \<and> a < total_cells L))"
proof
  have w: "1 \<le> lwidth L" using assms by (simp add: layout_ok_def)
  show "case address L x y of
      Inr a \<Rightarrow> 0 \<le> a \<and> a < total_cells L \<and> coordinates L a = Inr (x, y)
    | Inl e \<Rightarrow> \<not> (0 \<le> x \<and> x < lwidth L \<and> 0 \<le> y \<and> y < lheight L)"
  proof (cases "0 \<le> x \<and> x < lwidth L \<and> 0 \<le> y \<and> y < lheight L")
    case True
    then have "y * lwidth L + x < (y + 1) * lwidth L" "(y + 1) * lwidth L \<le> lheight L * lwidth L"
      using w mult_right_mono [of "y + 1" "lheight L" "lwidth L"] by (simp add: distrib_right, simp)
    then have b: "y * lwidth L + x < total_cells L"
      by (simp add: total_cells_def mult.commute)
    with True w show ?thesis
      by (simp add: address_def check_coordinate_def coordinates_def raise_if_def)
  qed (simp add: address_def check_coordinate_def raise_if_def)
  show "case coordinates L a of
      Inr (x', y') \<Rightarrow> address L x' y' = Inr a
    | Inl e \<Rightarrow> \<not> (0 \<le> a \<and> a < total_cells L)"
  proof (cases "0 \<le> a \<and> a < total_cells L")
    case True
    then have "a div lwidth L < lheight L"
      using w by (simp add: total_cells_def zdiv_less_iff mult.commute)
    with True w show ?thesis
      by (simp add: coordinates_def address_def check_coordinate_def raise_if_def pos_imp_zdiv_nonneg_iff)
  qed (simp add: coordinates_def)
qed

theorem address_coordinates_inverse_witness:
  "(case address demo_layout 3 5 of
        Inr a \<Rightarrow> 0 \<le> a \<and> a < total_cells demo_layout \<and> coordinates demo_layout a = Inr (3, 5)
      | Inl e \<Rightarrow> \<not> (0 \<le> (3::int) \<and> 3 < lwidth demo_layout \<and> 0 \<le> (5::int) \<and> 5 < lheight demo_layout)) \<and>
    (case coordinates demo_layout 43 of
        Inr (x', y') \<Rightarrow> address demo_layout x' y' = Inr 43
      | Inl e \<Rightarrow> \<not> (0 \<le> (43::int) \<and> 43 < total_cells demo_layout))"
  by (rule address_coordinates_inverse [OF demo_layout_ok])

text \<open>Layout dictionaries round-trip: \<open>from_dict\<close> of what \<open>to_dict\<close> writes for a valid layout
  is that layout again, with all derived capacities accepted.\<close>

theorem layout_dict_roundtrip:
  assumes "layout_ok L"
  shows "layout_from_dict (layout_to_dict L) = Inr L"
  by (rule layout_from_to_dict [OF assms])

theorem layout_dict_roundtrip_witness:
  "layout_from_dict (layout_to_dict demo_layout) = Inr demo_layout"
  by (rule layout_dict_roundtrip [OF demo_layout_ok])

text \<open>\<open>from_dict\<close> is fail-closed: whatever dictionary is presented, a layout it returns passed
  the constructor's checks, and any capacity fields present matched the geometry.\<close>

theorem layout_from_dict_validates:
  assumes "layout_from_dict (JObj d) = Inr L"
  shows "layout_ok L \<and> dget d ''width'' = Some (JInt (lwidth L)) \<and>
    dget d ''height'' = Some (JInt (lheight L)) \<and>
    dget d ''execution_rows'' = Some (JInt (execution_rows L)) \<and>
    (\<forall>c. dget d ''raw_capacity_bytes'' = Some c \<longrightarrow> json_eq_int c (raw_capacity_bytes L)) \<and>
    (\<forall>c. dget d ''storage_capacity_bytes'' = Some c \<longrightarrow> json_eq_int c (storage_capacity_bytes L))"
  using assms
  by (auto simp: layout_from_dict_def strict_int_def mk_layout_iff split: if_splits option.splits json.splits)

theorem layout_from_dict_validates_witness:
  "layout_ok demo_layout \<and> json_eq_int (JInt 384) (raw_capacity_bytes demo_layout)"
proof -
  obtain d where d: "layout_to_dict demo_layout = JObj d" "dget d ''raw_capacity_bytes'' = Some (JInt 384)"
    by (simp add: layout_to_dict_def demo_layout_def raw_capacity_bytes_def total_cells_def)
  have "layout_from_dict (JObj d) = Inr demo_layout"
    using layout_from_to_dict [OF demo_layout_ok] d by simp
  from layout_from_dict_validates [OF this] d show ?thesis by blast
qed

end
