(* ===== verification/Spatial_Frame.thy ===== *)
theory Spatial_Frame
  imports Pyxel_Compiler Spatial_Layout
begin

text \<open>
  Spatial frames, from \<^verbatim>\<open>zdx_spatial_frame.py\<close>: the mutable view \<open>SpatialFrame\<close> over an RGB
  raster (cells, 24-bit words, byte spans in named regions, length-prefixed JSON, the dirty
  rectangles), \<open>SpatialCompiler\<close> and \<open>SpatialPyxelVM\<close>.

  \<^item> \<^verbatim>\<open>image\<close> is what the image library hands over: container format, mode and raster.
  \<^item> \<^verbatim>\<open>region_block\<close> is \<open>arr[y:y+h, x:x+w, :].reshape(-1)\<close> and \<^verbatim>\<open>put_block\<close> the assignment of
    such a block; the regions of a validated layout lie inside the frame, so numpy clips nothing.
  \<^item> \<^verbatim>\<open>dirty_merge\<close> is the loop of \<open>_mark_dirty_rectangle\<close>; it terminates because every further
    round has absorbed at least one rectangle.
  \<^item> A mutating method returns the new frame or the exception. Its guards come before the first
    mutation, and the closing \<open>_mark_dirty_rectangle\<close> cannot fail after them (part of what is
    proved), so no exception leaves a half-written frame.
  \<^item> \<open>json.loads\<close> is the parameter \<open>loads\<close> of \<^verbatim>\<open>read_json\<close>; PNG encoding and the file system are not
    modelled here.
\<close>

section \<open>Text of a JSON payload\<close>

text \<open>\<open>json.dumps(obj, separators=(",", ":"), ensure_ascii=False)\<close>, keys in insertion order.\<close>

definition json_char_raw :: "char \<Rightarrow> string" where
  "json_char_raw c = (if 126 < char_code c then [c] else json_char c)"

definition json_string_raw :: "string \<Rightarrow> string" where
  "json_string_raw s = [CHR 0x22] @ concat (map json_char_raw s) @ [CHR 0x22]"

function json_text :: "json \<Rightarrow> string" where
  "json_text JNull = ''null''"
| "json_text (JBool b) = (if b then ''true'' else ''false'')"
| "json_text (JInt i) = int_str i"
| "json_text (JStr s) = json_string_raw s"
| "json_text (JList xs) = ''['' @ join '','' (map json_text xs) @ '']''"
| "json_text (JObj kvs) =
     ''{'' @ join '','' (map (\<lambda>p. json_string_raw (fst p) @ '':'' @ json_text (snd p)) kvs) @ ''}''"
  by pat_completeness auto
termination
proof (relation "measure size", goal_cases)
  case (3 kvs p)
  then show ?case using json_size_obj [of p kvs] by simp
qed (auto simp: less_Suc_eq_le size_list_estimation')

text \<open>\<open>str.encode("utf-8")\<close> on code points below 256.\<close>

definition utf8_char :: "char \<Rightarrow> bytes" where
  "utf8_char c = (let n = char_code c in
     if n < 128 then [of_nat n] else [of_nat (192 + n div 64), of_nat (128 + n mod 64)])"

definition encode_utf8 :: "string \<Rightarrow> bytes" where
  "encode_utf8 s = concat (map utf8_char s)"

section \<open>Frames and dirty rectangles\<close>

type_synonym rect = "int \<times> int \<times> int \<times> int"

record image =
  im_format :: string
  im_mode :: string
  im_raster :: raster

record frame =
  f_image :: raster
  f_layout :: layout
  f_dirty :: "rect list"

definition size_matches :: "raster \<Rightarrow> layout \<Rightarrow> bool" where
  "size_matches arr L \<longleftrightarrow> int (rwidth arr) = lwidth L \<and> int (rheight arr) = lheight L"

definition frame_init :: "image \<Rightarrow> layout \<Rightarrow> frame result" where
  "frame_init im L =
     (if im_mode im \<noteq> ''RGB'' then Inl (ValueError ''spatial frame must be canonical RGB'')
      else if \<not> size_matches (im_raster im) L
        then Inl (ValueError ''frame size does not match spatial layout'')
      else Inr \<lparr>f_image = im_raster im, f_layout = L, f_dirty = []\<rparr>)"

definition frame_blank :: "layout \<Rightarrow> frame result" where
  "frame_blank L =
     frame_init \<lparr>im_format = [], im_mode = ''RGB'',
       im_raster = \<lparr>rwidth = nat (lwidth L), rheight = nat (lheight L),
         rcells = replicate (nat (lwidth L) * nat (lheight L)) NOP_px\<rparr>\<rparr> L"

text \<open>\<open>fs\<close> opens an image file; \<open>None\<close> is a file that cannot be opened.\<close>

definition frame_open :: "(string \<Rightarrow> image option) \<Rightarrow> string \<Rightarrow> layout \<Rightarrow> frame result" where
  "frame_open fs path L =
     (case fs path of
        None \<Rightarrow> Inl (OSError ''cannot open image'')
      | Some im \<Rightarrow>
          if im_format im \<noteq> ''PNG'' then Inl (ValueError ''spatial frame must be a PNG container'')
          else if im_mode im \<noteq> ''RGB'' then Inl (ValueError ''spatial frame must be canonical RGB'')
          else if \<not> size_matches (im_raster im) L
            then Inl (ValueError ''frame size does not match spatial layout'')
          else frame_init im L)"

definition frame_clone :: "frame \<Rightarrow> frame" where
  "frame_clone f = \<lparr>f_image = f_image f, f_layout = f_layout f, f_dirty = f_dirty f\<rparr>"

definition clear_dirty :: "frame \<Rightarrow> frame" where
  "clear_dirty f = f\<lparr>f_dirty := []\<rparr>"

fun separated :: "rect \<Rightarrow> rect \<Rightarrow> bool" where
  "separated (px0, py0, px1, py1) (cx0, cy0, cx1, cy1) \<longleftrightarrow>
     px1 < cx0 \<or> cx1 < px0 \<or> py1 < cy0 \<or> cy1 < py0"

fun rect_hull :: "rect \<Rightarrow> rect \<Rightarrow> rect" where
  "rect_hull (px0, py0, px1, py1) (cx0, cy0, cx1, cy1) =
     (min px0 cx0, min py0 cy0, max px1 cx1, max py1 cy1)"

text \<open>The inner \<open>for\<close> loop: the grown pending rectangle, the rectangles kept, and \<open>changed\<close>.\<close>

fun dirty_pass :: "rect \<Rightarrow> rect list \<Rightarrow> rect \<times> rect list \<times> bool" where
  "dirty_pass pending [] = (pending, [], False)"
| "dirty_pass pending (c # cs) =
     (if separated pending c
      then (case dirty_pass pending cs of (p, rest, ch) \<Rightarrow> (p, c # rest, ch))
      else (case dirty_pass (rect_hull pending c) cs of (p, rest, ch) \<Rightarrow> (p, rest, True)))"

lemma dirty_pass_length:
  "dirty_pass p cs = (p', rest, ch) \<Longrightarrow> length rest \<le> length cs \<and> (ch \<longrightarrow> length rest < length cs)"
  by (induction p cs arbitrary: p' rest ch rule: dirty_pass.induct)
    (fastforce split: if_splits prod.splits)+

function dirty_merge :: "rect \<Rightarrow> rect list \<Rightarrow> rect list" where
  "dirty_merge pending remaining =
     (case dirty_pass pending remaining of
        (p, rest, changed) \<Rightarrow> if \<not> changed then rest @ [p] else dirty_merge p rest)"
  by pat_completeness auto
termination
  by (relation "measure (\<lambda>(p, rs). length rs)") (auto dest: dirty_pass_length [OF sym])

declare dirty_merge.simps [simp del]

definition mark_dirty :: "rect \<Rightarrow> frame \<Rightarrow> frame result" where
  "mark_dirty rc f =
     (case rc of (x0, y0, x1, y1) \<Rightarrow>
        if \<not> (0 \<le> x0 \<and> x0 < x1 \<and> x1 \<le> lwidth (f_layout f) \<and>
              0 \<le> y0 \<and> y0 < y1 \<and> y1 \<le> lheight (f_layout f))
        then Inl (ValueError ''dirty rectangle is outside spatial frame bounds'')
        else Inr (f\<lparr>f_dirty := dirty_merge rc (f_dirty f)\<rparr>))"

section \<open>Cells\<close>

definition set_pixel :: "nat \<Rightarrow> nat \<Rightarrow> pixel \<Rightarrow> raster \<Rightarrow> raster" where
  "set_pixel x y px arr = arr\<lparr>rcells := (rcells arr)[y * rwidth arr + x := px]\<rparr>"

definition read_cell :: "int \<Rightarrow> int \<Rightarrow> frame \<Rightarrow> (int \<times> int \<times> int) result" where
  "read_cell x y f =
     rbind (check_coordinate (f_layout f) x y) (\<lambda>_.
       case pixel_at (f_image f) (nat y) (nat x) of (r, g, b) \<Rightarrow> Inr (uint r, uint g, uint b))"

definition write_cell :: "int \<Rightarrow> int \<Rightarrow> int list \<Rightarrow> frame \<Rightarrow> frame result" where
  "write_cell x y rgb f =
     rbind (check_coordinate (f_layout f) x y) (\<lambda>_.
       if length rgb \<noteq> 3 \<or> list_ex (\<lambda>v. \<not> (0 \<le> v \<and> v \<le> 255)) rgb
       then Inl (ValueError ''RGB cell values must each be in range 0..255'')
       else mark_dirty (x, y, x + 1, y + 1)
              (f\<lparr>f_image := set_pixel (nat x) (nat y)
                  (word_of_int (rgb ! 0), word_of_int (rgb ! 1), word_of_int (rgb ! 2)) (f_image f)\<rparr>))"

definition read_u24 :: "int \<Rightarrow> int \<Rightarrow> frame \<Rightarrow> int result" where
  "read_u24 x y f =
     rbind (read_cell x y f) (\<lambda>(r, g, b). Inr ((push_bit 16 r OR push_bit 8 g) OR b))"

definition write_u24 :: "int \<Rightarrow> int \<Rightarrow> int \<Rightarrow> frame \<Rightarrow> frame result" where
  "write_u24 x y v f =
     (if \<not> (0 \<le> v \<and> v \<le> 0xFFFFFF)
      then Inl (ValueError ''24-bit cell value must be in range 0..0xFFFFFF'')
      else write_cell x y [mask_ff (drop_bit 16 v), mask_ff (drop_bit 8 v), mask_ff v] f)"

section \<open>Byte spans\<close>

definition px_byte :: "pixel \<Rightarrow> nat \<Rightarrow> byte" where
  "px_byte px c = (case px of (r, g, b) \<Rightarrow> if c = 0 then r else if c = 1 then g else b)"

text \<open>Byte \<open>k\<close> of a flattened block is channel \<open>k mod 3\<close> of its cell \<open>k div 3\<close>, row by row.\<close>

definition region_block :: "raster \<Rightarrow> region \<Rightarrow> bytes" where
  "region_block arr r =
     map (\<lambda>k. let p = k div 3; w = nat (rg_width r)
              in px_byte (pixel_at arr (nat (rg_y r) + p div w) (nat (rg_x r) + p mod w)) (k mod 3))
       [0..<nat (region_capacity_bytes r)]"

definition put_block :: "raster \<Rightarrow> region \<Rightarrow> bytes \<Rightarrow> raster" where
  "put_block arr r flat =
     arr\<lparr>rcells := map (\<lambda>i.
        let x = i mod rwidth arr; y = i div rwidth arr in
        if region_contains r (int x) (int y)
        then (let k = 3 * ((y - nat (rg_y r)) * nat (rg_width r) + (x - nat (rg_x r)))
              in (flat ! k, flat ! (k + 1), flat ! (k + 2)))
        else rcells arr ! i) [0..<length (rcells arr)]\<rparr>"

definition read_bytes :: "int \<Rightarrow> string option \<Rightarrow> int \<Rightarrow> frame \<Rightarrow> bytes result" where
  "read_bytes len name off f =
     rbind (layout_region (f_layout f) name) (\<lambda>target.
       if len < 0 \<or> off < 0 \<or> off + len > region_capacity_bytes target
       then Inl (ValueError ''spatial byte read exceeds region capacity'')
       else Inr (slice (nat off) (nat len) (region_block (f_image f) target)))"

definition span_rect :: "region \<Rightarrow> int \<Rightarrow> int \<Rightarrow> rect" where
  "span_rect target off len =
     (let first_pixel = off div 3;
          last_pixel = (off + len - 1) div 3;
          first_y = first_pixel div rg_width target; first_x = first_pixel mod rg_width target;
          last_y = last_pixel div rg_width target; last_x = last_pixel mod rg_width target
      in if first_y = last_y
         then (rg_x target + first_x, rg_y target + first_y,
               rg_x target + last_x + 1, rg_y target + last_y + 1)
         else (rg_x target, rg_y target + first_y,
               rg_x target + rg_width target, rg_y target + last_y + 1))"

definition write_bytes :: "bytes \<Rightarrow> string option \<Rightarrow> int \<Rightarrow> frame \<Rightarrow> frame result" where
  "write_bytes raw name off f =
     rbind (layout_region (f_layout f) name) (\<lambda>target.
       if off < 0 \<or> off + int (length raw) > region_capacity_bytes target
       then Inl (ValueError ''payload exceeds region capacity'')
       else
         (let flat = splice (nat off) raw (region_block (f_image f) target);
              f' = f\<lparr>f_image := put_block (f_image f) target flat\<rparr>
          in if raw = [] then Inr f'
             else mark_dirty (span_rect target off (int (length raw))) f'))"

definition write_json :: "json \<Rightarrow> string option \<Rightarrow> frame \<Rightarrow> frame result" where
  "write_json obj name f =
     (let payload = encode_utf8 (json_text obj)
      in if length payload \<ge> 2 ^ 32 then Inl (OverflowError ''int too big to convert'')
         else write_bytes (be_bytes 4 (length payload) @ payload) name 0 f)"

text \<open>\<open>None\<close> is the Python \<open>None\<close> of an empty region.\<close>

definition read_json :: "(bytes \<Rightarrow> json result) \<Rightarrow> string option \<Rightarrow> frame \<Rightarrow> json option result" where
  "read_json loads name f =
     rbind (layout_region (f_layout f) name) (\<lambda>target.
       if region_capacity_bytes target < 4
       then Inl (ValueError ''spatial region is too small for a JSON length header'')
       else rbind (read_bytes 4 name 0 f) (\<lambda>hdr.
         (let n = int (of_be hdr) in
          if n = 0 then Inr None
          else if n > region_capacity_bytes target - 4
            then Inl (ValueError ''declared spatial JSON payload length exceeds region capacity'')
          else rbind (read_bytes n name 4 f) (\<lambda>payload.
            case loads payload of
              Inl e \<Rightarrow> Inl (ValueError ''corrupt spatial JSON payload'')
            | Inr v \<Rightarrow> Inr (Some v)))))"

section \<open>Compiler\<close>

datatype payload = PBytes bytes | PJson json

fun write_row :: "opcode_map \<Rightarrow> int \<Rightarrow> int \<Rightarrow> string list \<Rightarrow> frame \<Rightarrow> frame result" where
  "write_row omap y x [] f = Inr f"
| "write_row omap y x (i # is) f =
     (case parse_one omap i of (r, g, b) \<Rightarrow>
        rbind (write_cell x y [uint r, uint g, uint b] f) (write_row omap y (x + 1) is))"

fun write_rows :: "opcode_map \<Rightarrow> int \<Rightarrow> string list list \<Rightarrow> frame \<Rightarrow> frame result" where
  "write_rows omap y [] f = Inr f"
| "write_rows omap y (row # rows) f =
     rbind (write_row omap y 0 row f) (write_rows omap (y + 1) rows)"

fun write_payloads :: "(string, payload) dict \<Rightarrow> frame \<Rightarrow> frame result" where
  "write_payloads [] f = Inr f"
| "write_payloads ((name, pv) # ps) f =
     rbind (case pv of PBytes raw \<Rightarrow> write_bytes raw (Some name) 0 f
                        | PJson obj \<Rightarrow> write_json obj (Some name) f) (write_payloads ps)"

text \<open>The result is the frame handed to \<open>frame.save\<close>.\<close>

definition spatial_compile ::
    "layout \<Rightarrow> opcode_map \<Rightarrow> string list list \<Rightarrow> (string, payload) dict \<Rightarrow> frame result" where
  "spatial_compile L omap program payloads =
     (let program = expand program in
      if int (length program) > execution_rows L
      then Inl (ValueError ''program has more threads than executable rows'')
      else if int (max_len program) > lwidth L
      then Inl (ValueError ''program width exceeds spatial frame width'')
      else rbind (frame_blank L) (\<lambda>f.
           rbind (write_rows omap 0 program f) (\<lambda>f.
           write_payloads payloads f)))"

section \<open>The machine with a layout\<close>

record spatial_vm =
  sv_layout :: layout
  sv_vm :: vm

definition spatial_vm_init ::
    "(bytes \<Rightarrow> bytes) \<Rightarrow> layout \<Rightarrow> int option \<Rightarrow> bool \<Rightarrow> bool \<Rightarrow> opcode_map option \<Rightarrow> int \<Rightarrow> int \<Rightarrow>
     (string, json) dict option \<Rightarrow> spatial_vm result" where
  "spatial_vm_init sha L thr persist strict omap mchain mcols stored =
     (let requested = (case thr of None \<Rightarrow> execution_rows L | Some t \<Rightarrow> t) in
      if requested \<noteq> execution_rows L
      then Inl (ValueError ''SpatialPyxelVM threads must equal layout.execution_rows'')
      else rbind (vm_init sha requested persist strict omap mchain mcols stored) (\<lambda>v.
        Inr \<lparr>sv_layout = L, sv_vm = v\<rparr>))"

definition execute_spatial_frame ::
    "(bytes \<Rightarrow> bytes) \<Rightarrow> (string \<Rightarrow> raster option) \<Rightarrow> (string \<Rightarrow> bool) \<Rightarrow> frame \<Rightarrow> spatial_vm \<Rightarrow>
     thread_regs list result \<times> spatial_vm" where
  "execute_spatial_frame sha load exists f s =
     (let fin = (\<lambda>v. let v' = finish_execution sha v
                     in (Inr (registers v'), s\<lparr>sv_vm := v'\<rparr>)) in
      if f_layout f \<noteq> sv_layout s
      then (Inl (ValueError ''resident spatial frame layout does not match VM layout''), s)
      else
        (case execute_array (f_image f) (sv_vm s) of
           (Inl e, v) \<Rightarrow> (Inl e, s\<lparr>sv_vm := v\<rparr>)
         | (Inr None, v) \<Rightarrow> fin v
         | (Inr (Some nxt), v) \<Rightarrow>
             if max_chain v \<le> 1
             then (Inl (RuntimeError ''resident spatial frame requested a chain beyond max_chain''),
                   s\<lparr>sv_vm := v\<rparr>)
             else if \<not> exists nxt
             then (Inl (FileNotFoundError ''SAVE_STATE chained to a missing file''), s\<lparr>sv_vm := v\<rparr>)
             else
               (case execute_texture sha load exists nxt (v\<lparr>max_chain := max_chain v - 1\<rparr>) of
                  (res, v') \<Rightarrow>
                    (let v'' = v'\<lparr>max_chain := max_chain v\<rparr>
                     in case res of Inl e \<Rightarrow> (Inl e, s\<lparr>sv_vm := v''\<rparr>) | Inr _ \<Rightarrow> fin v''))))"

definition execute_spatial ::
    "(bytes \<Rightarrow> bytes) \<Rightarrow> (string \<Rightarrow> image option) \<Rightarrow> (string \<Rightarrow> raster option) \<Rightarrow> (string \<Rightarrow> bool) \<Rightarrow>
     string \<Rightarrow> spatial_vm \<Rightarrow> thread_regs list result \<times> spatial_vm" where
  "execute_spatial sha fs load exists path s =
     (case frame_open fs path (sv_layout s) of
        Inl e \<Rightarrow> (Inl e, s)
      | Inr f \<Rightarrow> execute_spatial_frame sha load exists f s)"

definition storage_read_bytes ::
    "(string \<Rightarrow> image option) \<Rightarrow> string \<Rightarrow> int \<Rightarrow> string option \<Rightarrow> int \<Rightarrow> spatial_vm \<Rightarrow> bytes result" where
  "storage_read_bytes fs path len name off s =
     rbind (frame_open fs path (sv_layout s)) (read_bytes len name off)"

text \<open>The frame \<open>storage_write_bytes\<close> saves back to \<open>path\<close>.\<close>

definition storage_write_bytes ::
    "(string \<Rightarrow> image option) \<Rightarrow> string \<Rightarrow> bytes \<Rightarrow> string option \<Rightarrow> int \<Rightarrow> spatial_vm \<Rightarrow> frame result" where
  "storage_write_bytes fs path raw name off s =
     rbind (frame_open fs path (sv_layout s)) (write_bytes raw name off)"

section \<open>Dirty rectangles\<close>

fun rect_ok :: "layout \<Rightarrow> rect \<Rightarrow> bool" where
  "rect_ok L (x0, y0, x1, y1) \<longleftrightarrow> 0 \<le> x0 \<and> x0 < x1 \<and> x1 \<le> lwidth L \<and> 0 \<le> y0 \<and> y0 < y1 \<and> y1 \<le> lheight L"

fun rect_has :: "rect \<Rightarrow> int \<Rightarrow> int \<Rightarrow> bool" where
  "rect_has (x0, y0, x1, y1) x y \<longleftrightarrow> x0 \<le> x \<and> x < x1 \<and> y0 \<le> y \<and> y < y1"

fun rect_le :: "rect \<Rightarrow> rect \<Rightarrow> bool" where
  "rect_le (x0, y0, x1, y1) (u0, v0, u1, v1) \<longleftrightarrow> u0 \<le> x0 \<and> v0 \<le> y0 \<and> x1 \<le> u1 \<and> y1 \<le> v1"

lemma rect_le_refl [simp]: "rect_le r r"
  by (cases r) simp

lemma rect_le_trans: "rect_le a b \<Longrightarrow> rect_le b c \<Longrightarrow> rect_le a c"
  by (cases a; cases b; cases c) simp

lemma rect_le_hull [simp]: "rect_le a (rect_hull a b)" "rect_le b (rect_hull a b)"
  by (cases a; cases b; simp)+

lemma rect_ok_hull: "rect_ok L a \<Longrightarrow> rect_ok L b \<Longrightarrow> rect_ok L (rect_hull a b)"
  by (cases a; cases b) auto

lemma rect_has_mono: "rect_le a b \<Longrightarrow> rect_has a x y \<Longrightarrow> rect_has b x y"
  by (cases a; cases b) auto

lemma separated_sym: "separated a b \<longleftrightarrow> separated b a"
  by (cases a; cases b) auto

definition rects_ok :: "layout \<Rightarrow> rect list \<Rightarrow> bool" where
  "rects_ok L ds \<longleftrightarrow> (\<forall>d \<in> set ds. rect_ok L d) \<and> sorted_wrt separated ds"

text \<open>What one pass does: it keeps a part of the list, swallows the rest into the pending
  rectangle, and reports no change only when everything is separated from it.\<close>

lemma dirty_pass_spec:
  "dirty_pass p cs = (p', rest, ch) \<Longrightarrow>
   rect_le p p' \<and> set rest \<subseteq> set cs \<and> (\<forall>c \<in> set cs. c \<in> set rest \<or> rect_le c p') \<and>
   (\<not> ch \<longrightarrow> p' = p \<and> (\<forall>c \<in> set rest. separated c p)) \<and>
   (sorted_wrt separated cs \<longrightarrow> sorted_wrt separated rest) \<and>
   (rect_ok L p \<longrightarrow> (\<forall>c \<in> set cs. rect_ok L c) \<longrightarrow> rect_ok L p')"
proof (induction p cs arbitrary: p' rest ch rule: dirty_pass.induct)
  case (2 p c cs)
  show ?case
  proof (cases "separated p c")
    case True
    obtain rest' where ps: "dirty_pass p cs = (p', rest', ch)" and rest: "rest = c # rest'"
      using 2(3) True by (auto split: prod.splits)
    have "separated c p" using True separated_sym by blast
    with 2(1) [OF True ps] show ?thesis
      unfolding rest by (simp, blast)
  next
    case False
    obtain ch' where ps: "dirty_pass (rect_hull p c) cs = (p', rest, ch')" and ch: "ch"
      using 2(3) False by (auto split: prod.splits)
    note ih = 2(2) [OF False ps]
    have le: "rect_le p p'" "rect_le c p'"
      using ih rect_le_trans rect_le_hull by blast+
    show ?thesis
      using ih le ch rect_ok_hull [of L p c] by (simp add: subset_iff)
  qed
qed simp

lemma dirty_merge_spec:
  assumes "rect_ok L p" "rects_ok L ds"
  shows "rects_ok L (dirty_merge p ds) \<and>
    (\<exists>d \<in> set (dirty_merge p ds). rect_le p d) \<and>
    (\<forall>c \<in> set ds. \<exists>d \<in> set (dirty_merge p ds). rect_le c d)"
  using assms
proof (induction p ds rule: dirty_merge.induct)
  case (1 p ds)
  obtain p' rest ch where ps: "dirty_pass p ds = (p', rest, ch)"
    by (cases "dirty_pass p ds") auto
  note sp = dirty_pass_spec [OF ps, of L]
  have p': "rect_ok L p'" and rest: "rects_ok L rest"
    using sp 1(2,3) unfolding rects_ok_def by blast+
  show ?case
  proof (cases ch)
    case False
    with ps have "dirty_merge p ds = rest @ [p']" by (subst dirty_merge.simps) simp
    with False sp p' rest show ?thesis by (simp add: rects_ok_def sorted_wrt_append) (metis rect_le_refl)
  next
    case True
    with ps have "dirty_merge p ds = dirty_merge p' rest" by (subst dirty_merge.simps) simp
    with 1(1) [OF ps [symmetric] refl] True p' rest sp show ?thesis
      by (metis rect_le_trans)
  qed
qed

section \<open>Invariant of frames\<close>

definition frame_ok :: "frame \<Rightarrow> bool" where
  "frame_ok f \<longleftrightarrow> layout_ok (f_layout f) \<and> raster_ok (f_image f) \<and> size_matches (f_image f) (f_layout f) \<and>
     rects_ok (f_layout f) (f_dirty f)"

text \<open>Cell \<open>(x, y)\<close> is reported dirty.\<close>

definition dirty_at :: "frame \<Rightarrow> int \<Rightarrow> int \<Rightarrow> bool" where
  "dirty_at f x y \<longleftrightarrow> list_ex (\<lambda>d. rect_has d x y) (f_dirty f)"

lemma mark_dirty_spec:
  assumes "rects_ok (f_layout f) (f_dirty f)" "rect_ok (f_layout f) rc"
  shows "\<exists>f'. mark_dirty rc f = Inr f' \<and> f_image f' = f_image f \<and> f_layout f' = f_layout f \<and>
    rects_ok (f_layout f) (f_dirty f') \<and>
    (\<forall>x y. rect_has rc x y \<or> dirty_at f x y \<longrightarrow> dirty_at f' x y)"
proof -
  note sp = dirty_merge_spec [OF assms(2,1)]
  have "mark_dirty rc f = Inr (f\<lparr>f_dirty := dirty_merge rc (f_dirty f)\<rparr>)"
    using assms(2) by (cases rc) (auto simp: mark_dirty_def)
  moreover have "dirty_at (f\<lparr>f_dirty := dirty_merge rc (f_dirty f)\<rparr>) x y"
    if "rect_has rc x y \<or> dirty_at f x y" for x y
    using that sp rect_has_mono unfolding dirty_at_def list_ex_iff by fastforce
  ultimately show ?thesis using sp by simp
qed

lemma frame_init_spec:
  "frame_init im L = Inr f \<longleftrightarrow> im_mode im = ''RGB'' \<and> size_matches (im_raster im) L \<and>
     f = \<lparr>f_image = im_raster im, f_layout = L, f_dirty = []\<rparr>"
  by (auto simp: frame_init_def)

lemma frame_blank_spec:
  assumes "layout_ok L"
  shows "\<exists>f. frame_blank L = Inr f \<and> frame_ok f \<and> f_layout f = L \<and> f_dirty f = [] \<and>
    (\<forall>x y. x < rwidth (f_image f) \<longrightarrow> y < rheight (f_image f) \<longrightarrow> pixel_at (f_image f) y x = NOP_px)"
proof -
  let ?arr = "\<lparr>rwidth = nat (lwidth L), rheight = nat (lheight L),
    rcells = replicate (nat (lwidth L) * nat (lheight L)) NOP_px\<rparr>"
  have s: "size_matches ?arr L" using assms by (simp add: size_matches_def layout_ok_def)
  have "pixel_at ?arr y x = NOP_px" if "x < rwidth ?arr" "y < rheight ?arr" for x y
  proof -
    have "y * nat (lwidth L) + x < Suc y * nat (lwidth L)" using that by simp
    also have "\<dots> \<le> nat (lheight L) * nat (lwidth L)" using that by (intro mult_le_mono1) simp
    finally show ?thesis by (simp add: pixel_at_def mult.commute)
  qed
  with s assms show ?thesis
    by (simp add: frame_blank_def frame_init_def frame_ok_def raster_ok_def rects_ok_def)
qed

section \<open>Cells and blocks\<close>

lemma cell_index:
  assumes "raster_ok arr" "x < rwidth arr" "y < rheight arr"
  shows "y * rwidth arr + x < length (rcells arr)"
proof -
  have "y * rwidth arr + x < Suc y * rwidth arr" using assms by simp
  also have "\<dots> \<le> rheight arr * rwidth arr" using assms by (intro mult_le_mono1) simp
  finally show ?thesis using assms by (simp add: raster_ok_def mult.commute)
qed

lemma cell_index_inj:
  "x < w \<Longrightarrow> x' < w \<Longrightarrow> y * w + x = y' * w + (x' :: nat) \<longleftrightarrow> y = y' \<and> x = x'"
  by (metis add.commute div_mult_self3 div_less gr_implies_not0 add.left_neutral mod_less mod_mult_self1)

lemma set_pixel_cell:
  assumes "raster_ok arr" "x < rwidth arr" "y < rheight arr" "x' < rwidth arr" "y' < rheight arr"
  shows "pixel_at (set_pixel x y px arr) y' x' = (if y' = y \<and> x' = x then px else pixel_at arr y' x')"
  using cell_index [OF assms(1,2,3)] cell_index_inj [OF assms(2,4), of y y']
  by (auto simp: set_pixel_def pixel_at_def nth_list_update)

lemma set_pixel_simps [simp]:
  "rwidth (set_pixel x y px arr) = rwidth arr" "rheight (set_pixel x y px arr) = rheight arr"
  "raster_ok (set_pixel x y px arr) = raster_ok arr"
  by (simp_all add: set_pixel_def raster_ok_def)

lemma put_block_simps [simp]:
  "rwidth (put_block arr r flat) = rwidth arr" "rheight (put_block arr r flat) = rheight arr"
  "raster_ok (put_block arr r flat) = raster_ok arr"
  by (simp_all add: put_block_def raster_ok_def)

definition block_index :: "region \<Rightarrow> nat \<Rightarrow> nat \<Rightarrow> nat" where
  "block_index r y x = 3 * ((y - nat (rg_y r)) * nat (rg_width r) + (x - nat (rg_x r)))"

lemma put_block_cell:
  assumes "raster_ok arr" "x < rwidth arr" "y < rheight arr"
  shows "pixel_at (put_block arr r flat) y x =
    (if region_contains r (int x) (int y)
     then (let k = block_index r y x in (flat ! k, flat ! (k + 1), flat ! (k + 2)))
     else pixel_at arr y x)"
  using cell_index [OF assms] assms(2)
  by (simp add: put_block_def pixel_at_def block_index_def Let_def)

text \<open>A region that lies inside a raster.\<close>

definition region_in :: "region \<Rightarrow> raster \<Rightarrow> bool" where
  "region_in r arr \<longleftrightarrow> 0 \<le> rg_x r \<and> 0 \<le> rg_y r \<and> 1 \<le> rg_width r \<and> 0 \<le> rg_height r \<and>
     rg_x r + rg_width r \<le> int (rwidth arr) \<and> rg_y r + rg_height r \<le> int (rheight arr)"

lemma layout_region_in:
  "frame_ok f \<Longrightarrow> layout_region (f_layout f) name = Inr r \<Longrightarrow> region_in r (f_image f)"
  using layout_region_bounds [of "f_layout f" name r]
  by (simp add: frame_ok_def size_matches_def region_in_def)

lemma region_in_simps [simp]:
  "region_in r (put_block arr r' flat) = region_in r arr"
  "region_in r (set_pixel x y px arr) = region_in r arr"
  by (simp_all add: region_in_def)

lemma length_region_block [simp]: "length (region_block arr r) = nat (region_capacity_bytes r)"
  by (simp add: region_block_def)

text \<open>Cell \<open>p\<close> of a region, as a coordinate of the frame.\<close>

lemma block_cell:
  assumes "region_in r arr" "p < nat (rg_width r) * nat (rg_height r)"
  defines "x \<equiv> nat (rg_x r) + p mod nat (rg_width r)" and "y \<equiv> nat (rg_y r) + p div nat (rg_width r)"
  shows "x < rwidth arr" "y < rheight arr" "region_contains r (int x) (int y)" "block_index r y x = 3 * p"
proof -
  have w: "0 < nat (rg_width r)" using assms(1) by (simp add: region_in_def)
  have m: "p mod nat (rg_width r) < nat (rg_width r)" using w by simp
  have d: "p div nat (rg_width r) < nat (rg_height r)"
    using assms(2) w by (simp add: less_mult_imp_div_less mult.commute)
  show "x < rwidth arr" "y < rheight arr" "region_contains r (int x) (int y)"
    using m d assms(1) unfolding x_def y_def region_in_def region_contains_def by linarith+
  show "block_index r y x = 3 * p"
    by (simp add: block_index_def x_def y_def)
qed

lemma capacity_nat: "region_in r arr \<Longrightarrow> nat (region_capacity_bytes r) = 3 * (nat (rg_width r) * nat (rg_height r))"
  by (simp add: region_capacity_bytes_def region_cells_def region_in_def nat_mult_distrib)

lemma nth_region_block:
  "k < nat (region_capacity_bytes r) \<Longrightarrow>
   region_block arr r ! k =
     px_byte (pixel_at arr (nat (rg_y r) + k div 3 div nat (rg_width r)) (nat (rg_x r) + k div 3 mod nat (rg_width r)))
       (k mod 3)"
  by (simp add: region_block_def Let_def)

lemma px_byte_nth: "j < 3 \<Longrightarrow> px_byte (fl ! b, fl ! (b + 1), fl ! (b + 2)) j = fl ! (b + j)"
  by (auto simp: px_byte_def less_Suc_eq numeral_3_eq_3)

lemma region_block_put:
  assumes "raster_ok arr" "region_in r arr" "length flat = nat (region_capacity_bytes r)"
  shows "region_block (put_block arr r flat) r = flat"
proof (rule nth_equalityI)
  fix k assume "k < length (region_block (put_block arr r flat) r)"
  then have k: "k < nat (region_capacity_bytes r)" by simp
  with capacity_nat [OF assms(2)] have p: "k div 3 < nat (rg_width r) * nat (rg_height r)" by simp
  note c = block_cell [OF assms(2) p]
  have "flat ! k = px_byte (flat ! (3 * (k div 3)), flat ! (3 * (k div 3) + 1), flat ! (3 * (k div 3) + 2)) (k mod 3)"
    using px_byte_nth [of "k mod 3" flat "3 * (k div 3)"] by simp
  then show "region_block (put_block arr r flat) r ! k = flat ! k"
    using put_block_cell [OF assms(1) c(1,2), of r flat] c(3,4) k by (simp add: nth_region_block Let_def)
qed (use assms in simp)

lemma px_eqI:
  assumes "\<And>j. j < 3 \<Longrightarrow> px_byte p j = px_byte q j"
  shows "p = q"
  using assms [of 0] assms [of 1] assms [of 2] by (cases p; cases q) (simp add: px_byte_def)

text \<open>A cell of a region is cell \<open>block_index div 3\<close> of its block.\<close>

lemma cell_of_block:
  assumes "region_in r arr" "region_contains r (int x) (int y)"
  defines "p \<equiv> (y - nat (rg_y r)) * nat (rg_width r) + (x - nat (rg_x r))"
  shows "p < nat (rg_width r) * nat (rg_height r)" "block_index r y x = 3 * p"
    "nat (rg_y r) + p div nat (rg_width r) = y" "nat (rg_x r) + p mod nat (rg_width r) = x"
proof -
  have b: "nat (rg_x r) \<le> x" "nat (rg_y r) \<le> y" "x - nat (rg_x r) < nat (rg_width r)"
    "y - nat (rg_y r) < nat (rg_height r)"
    using assms(1,2) unfolding region_in_def region_contains_def by linarith+
  have w: "\<not> rg_width r \<le> 0" using assms(1) by (simp add: region_in_def)
  have "p < Suc (y - nat (rg_y r)) * nat (rg_width r)" using b(3) by (simp add: p_def)
  also have "\<dots> \<le> nat (rg_height r) * nat (rg_width r)" using b(4) by (intro mult_le_mono1) simp
  finally show "p < nat (rg_width r) * nat (rg_height r)" by (simp add: mult.commute)
  show "block_index r y x = 3 * p" by (simp add: block_index_def p_def)
  show "nat (rg_y r) + p div nat (rg_width r) = y" "nat (rg_x r) + p mod nat (rg_width r) = x"
    using b w div_mult_self3 [of "nat (rg_width r)" "y - nat (rg_y r)" "x - nat (rg_x r)"]
      mod_mult_self3 [of "y - nat (rg_y r)" "nat (rg_width r)" "x - nat (rg_x r)"]
    unfolding p_def by simp_all
qed

text \<open>The bytes of a cell inside the block of its region.\<close>

lemma cell_bytes:
  assumes "region_in r arr" "region_contains r (int x) (int y)" "j < 3"
  shows "block_index r y x + j < nat (region_capacity_bytes r)"
    "region_block arr r ! (block_index r y x + j) = px_byte (pixel_at arr y x) j"
proof -
  note c = cell_of_block [OF assms(1,2)]
  show b: "block_index r y x + j < nat (region_capacity_bytes r)"
    using c(1,2) capacity_nat [OF assms(1)] assms(3) by simp
  have "(3 * p + j) div 3 = p" "(3 * p + j) mod 3 = j" for p :: nat
    using assms(3) by simp_all
  then show "region_block arr r ! (block_index r y x + j) = px_byte (pixel_at arr y x) j"
    using nth_region_block [OF b, of arr] by (simp only: c(2,3,4))
qed

text \<open>Overwriting a span changes a cell only if one of its three bytes lies in the span.\<close>

lemma put_splice_cell:
  assumes "raster_ok arr" "region_in r arr" "x < rwidth arr" "y < rheight arr"
    "off + length raw \<le> nat (region_capacity_bytes r)"
    "pixel_at (put_block arr r (splice off raw (region_block arr r))) y x \<noteq> pixel_at arr y x"
  shows "region_contains r (int x) (int y) \<and>
    (\<exists>j < 3. off \<le> block_index r y x + j \<and> block_index r y x + j < off + length raw)"
proof -
  let ?fl = "splice off raw (region_block arr r)"
  let ?k = "block_index r y x"
  have c: "region_contains r (int x) (int y)"
    using assms(6) put_block_cell [OF assms(1,3,4), of r ?fl] by (auto split: if_splits)
  have "pixel_at (put_block arr r ?fl) y x = (?fl ! ?k, ?fl ! (?k + 1), ?fl ! (?k + 2))"
    using put_block_cell [OF assms(1,3,4), of r ?fl] c by (simp add: Let_def)
  with assms(6) obtain j where j: "j < 3" "?fl ! (?k + j) \<noteq> px_byte (pixel_at arr y x) j"
    using px_eqI px_byte_nth by metis
  have "off \<le> ?k + j \<and> ?k + j < off + length raw"
    using j(2) cell_bytes [OF assms(2) c j(1)] assms(5) nth_splice [of off raw "region_block arr r" "?k + j"]
    by (auto split: if_splits)
  with c j(1) show ?thesis by blast
qed

section \<open>Writes\<close>

lemma cell_in_span:
  assumes "region_in r arr" "region_contains r (int x) (int y)" "j < 3"
    "off \<le> block_index r y x + j" "block_index r y x + j < off + len"
  shows "rect_has (span_rect r (int off) (int len)) (int x) (int y)"
proof -
  define p where "p = (int y - rg_y r) * rg_width r + (int x - rg_x r)"
  have b: "rg_x r \<le> int x" "rg_y r \<le> int y" "int x < rg_x r + rg_width r" "0 \<le> rg_x r" "0 \<le> rg_y r"
    "0 < rg_width r"
    using assms(1,2) unfolding region_in_def region_contains_def by linarith+
  have d: "int (y - nat (rg_y r)) = int y - rg_y r" "int (x - nat (rg_x r)) = int x - rg_x r"
    "int (nat (rg_width r)) = rg_width r"
    using b by linarith+
  have k: "int (block_index r y x) = 3 * p"
    unfolding block_index_def p_def of_nat_mult of_nat_add d by simp
  have dm: "p div rg_width r = int y - rg_y r" "p mod rg_width r = int x - rg_x r"
    using b by (simp_all add: p_def)
  have lo: "int off div 3 \<le> p" and hi: "p \<le> (int off + int len - 1) div 3"
    using assms(3-5) k by linarith+
  have rows: "int off div 3 div rg_width r \<le> int y - rg_y r"
    "int y - rg_y r \<le> (int off + int len - 1) div 3 div rg_width r"
    using lo hi b(6) dm(1) zdiv_mono1 by metis+
  have cols: "int off div 3 mod rg_width r \<le> int x - rg_x r"
    "int x - rg_x r \<le> (int off + int len - 1) div 3 mod rg_width r"
    if "int off div 3 div rg_width r = (int off + int len - 1) div 3 div rg_width r"
    using zmod_mono_same_div [OF lo, of "rg_width r"] zmod_mono_same_div [OF hi, of "rg_width r"] dm rows that
    by simp_all
  show ?thesis
    using b rows cols by (auto simp: span_rect_def Let_def)
qed

lemma span_rect_ok:
  assumes "region_in r arr" "size_matches arr L" "0 < len" "off + len \<le> nat (region_capacity_bytes r)"
  shows "rect_ok L (span_rect r (int off) (int len))"
proof -
  let ?w = "rg_width r"
  let ?f = "int off div 3" and ?l = "(int off + int len - 1) div 3"
  have w: "0 < ?w" and b: "0 \<le> rg_x r" "0 \<le> rg_y r" "rg_x r + ?w \<le> lwidth L" "rg_y r + rg_height r \<le> lheight L"
    using assms(1,2) by (simp_all add: region_in_def size_matches_def)
  have cap: "int off + int len \<le> 3 * (rg_height r * ?w)"
  proof -
    have "0 \<le> rg_height r * ?w" using assms(1) by (simp add: region_in_def)
    with assms(4) show ?thesis
      by (simp add: region_capacity_bytes_def region_cells_def mult.commute)
  qed
  have le: "?f \<le> ?l" using assms(3) by linarith
  have "?l < rg_height r * ?w" using cap by linarith
  then have rows: "0 \<le> ?f div ?w" "?f div ?w \<le> ?l div ?w" "?l div ?w < rg_height r"
    using w le by (simp_all add: zdiv_less_iff zdiv_mono1 pos_imp_zdiv_nonneg_iff)
  have cols: "0 \<le> ?f mod ?w" "?f mod ?w < ?w" "0 \<le> ?l mod ?w" "?l mod ?w < ?w"
    using w by simp_all
  have same: "?f mod ?w \<le> ?l mod ?w" if "?f div ?w = ?l div ?w"
    using le that by (rule zmod_mono_same_div)
  have "rg_x r + ?l mod ?w + 1 \<le> lwidth L" "0 \<le> rg_x r + ?f mod ?w"
    using cols b by linarith+
  then show ?thesis
    using rows same w b by (auto simp: span_rect_def Let_def)
qed

text \<open>What every write gives: a valid frame of the same layout that reports each changed cell.\<close>

definition tracked :: "frame \<Rightarrow> frame \<Rightarrow> bool" where
  "tracked f f' \<longleftrightarrow> frame_ok f' \<and> f_layout f' = f_layout f \<and>
     rwidth (f_image f') = rwidth (f_image f) \<and> rheight (f_image f') = rheight (f_image f) \<and>
     (\<forall>x < rwidth (f_image f). \<forall>y < rheight (f_image f).
        dirty_at f (int x) (int y) \<or> pixel_at (f_image f') y x \<noteq> pixel_at (f_image f) y x \<longrightarrow>
        dirty_at f' (int x) (int y))"

lemma tracked_refl: "frame_ok f \<Longrightarrow> tracked f f"
  by (simp add: tracked_def)

lemma tracked_trans:
  assumes "tracked f g" "tracked g h"
  shows "tracked f h"
  using assms unfolding tracked_def by (metis)

lemma write_cell_spec:
  assumes ok: "frame_ok f"
  shows "case write_cell x y rgb f of
      Inl e \<Rightarrow> \<not> (0 \<le> x \<and> x < lwidth (f_layout f) \<and> 0 \<le> y \<and> y < lheight (f_layout f) \<and>
         length rgb = 3 \<and> (\<forall>v \<in> set rgb. byte_range v))
    | Inr f' \<Rightarrow> tracked f f' \<and> 0 \<le> x \<and> x < lwidth (f_layout f) \<and> 0 \<le> y \<and> y < lheight (f_layout f) \<and>
        length rgb = 3 \<and> (\<forall>v \<in> set rgb. byte_range v) \<and>
        f_image f' = set_pixel (nat x) (nat y)
          (word_of_int (rgb ! 0), word_of_int (rgb ! 1), word_of_int (rgb ! 2)) (f_image f)"
proof (cases "0 \<le> x \<and> x < lwidth (f_layout f) \<and> 0 \<le> y \<and> y < lheight (f_layout f) \<and>
    length rgb = 3 \<and> (\<forall>v \<in> set rgb. byte_range v)")
  case True
  let ?px = "(word_of_int (rgb ! 0), word_of_int (rgb ! 1), word_of_int (rgb ! 2)) :: pixel"
  let ?g = "f\<lparr>f_image := set_pixel (nat x) (nat y) ?px (f_image f)\<rparr>"
  have d: "rects_ok (f_layout ?g) (f_dirty ?g)" "rect_ok (f_layout ?g) (x, y, x + 1, y + 1)"
    using ok True by (simp_all add: frame_ok_def)
  obtain f' where f': "mark_dirty (x, y, x + 1, y + 1) ?g = Inr f'" "f_image f' = f_image ?g"
    "f_layout f' = f_layout f" "rects_ok (f_layout f) (f_dirty f')"
    "\<forall>u v. rect_has (x, y, x + 1, y + 1) u v \<or> dirty_at ?g u v \<longrightarrow> dirty_at f' u v"
    using mark_dirty_spec [OF d] by auto
  have px: "pixel_at (f_image f') v u = (if v = nat y \<and> u = nat x then ?px else pixel_at (f_image f) v u)"
    if "u < rwidth (f_image f)" "v < rheight (f_image f)" for u v
  proof -
    have "nat x < rwidth (f_image f)" "nat y < rheight (f_image f)" "raster_ok (f_image f)"
      using ok True by (auto simp: frame_ok_def size_matches_def)
    from set_pixel_cell [OF this(3,1,2) that, of ?px] show ?thesis by (simp add: f'(2))
  qed
  have "tracked f f'"
    unfolding tracked_def using ok f' px True
    by (auto simp: frame_ok_def size_matches_def dirty_at_def split: if_splits)
  moreover have "write_cell x y rgb f = Inr f'"
    using True f'(1) by (simp add: write_cell_def check_coordinate_def list_ex_iff byte_range_def)
  ultimately show ?thesis using True f'(2) by simp
next
  case False
  then show ?thesis
    by (auto simp: write_cell_def check_coordinate_def raise_if_def list_ex_iff byte_range_def)
qed

lemma write_bytes_spec:
  assumes ok: "frame_ok f"
  shows "case write_bytes raw name off f of
      Inl e \<Rightarrow> (\<forall>r. layout_region (f_layout f) name = Inr r \<longrightarrow>
        off < 0 \<or> region_capacity_bytes r < off + int (length raw))
    | Inr f' \<Rightarrow> tracked f f' \<and> (\<exists>r. layout_region (f_layout f) name = Inr r \<and> 0 \<le> off \<and>
        off + int (length raw) \<le> region_capacity_bytes r \<and>
        f_image f' = put_block (f_image f) r (splice (nat off) raw (region_block (f_image f) r)))"
proof (cases "layout_region (f_layout f) name")
  case (Inr r)
  show ?thesis
  proof (cases "0 \<le> off \<and> off + int (length raw) \<le> region_capacity_bytes r")
    case True
    note rin = layout_region_in [OF ok Inr]
    let ?img = "put_block (f_image f) r (splice (nat off) raw (region_block (f_image f) r))"
    let ?g = "f\<lparr>f_image := ?img\<rparr>"
    have rok: "raster_ok (f_image f)" and sz: "size_matches (f_image f) (f_layout f)"
      and cap: "nat off + length raw \<le> nat (region_capacity_bytes r)"
      using ok True by (auto simp: frame_ok_def)
    have span: "rect_has (span_rect r off (int (length raw))) (int x) (int y)"
      if "x < rwidth (f_image f)" "y < rheight (f_image f)" "pixel_at ?img y x \<noteq> pixel_at (f_image f) y x" for x y
    proof -
      from put_splice_cell [OF rok rin that(1,2) cap that(3)]
      obtain j where "region_contains r (int x) (int y)" "j < 3" "nat off \<le> block_index r y x + j"
        "block_index r y x + j < nat off + length raw" by blast
      from cell_in_span [OF rin this] True show ?thesis by simp
    qed
    show ?thesis
    proof (cases "raw = []")
      case True
      then have same: "pixel_at ?img y x = pixel_at (f_image f) y x"
        if "x < rwidth (f_image f)" "y < rheight (f_image f)" for x y
        using put_splice_cell [OF rok rin that cap] by (cases "pixel_at ?img y x = pixel_at (f_image f) y x") auto
      have "tracked f ?g"
        unfolding tracked_def using ok same
        by (auto simp: frame_ok_def size_matches_def dirty_at_def)
      with True Inr \<open>0 \<le> off \<and> _\<close> show ?thesis by (auto simp: write_bytes_def Let_def)
    next
      case False
      have d: "rects_ok (f_layout ?g) (f_dirty ?g)" "rect_ok (f_layout ?g) (span_rect r off (int (length raw)))"
        using ok span_rect_ok [OF rin sz _ cap] False True by (simp_all add: frame_ok_def)
      obtain f' where f': "mark_dirty (span_rect r off (int (length raw))) ?g = Inr f'" "f_image f' = ?img"
        "f_layout f' = f_layout f" "rects_ok (f_layout f) (f_dirty f')"
        "\<forall>u v. rect_has (span_rect r off (int (length raw))) u v \<or> dirty_at ?g u v \<longrightarrow> dirty_at f' u v"
        using mark_dirty_spec [OF d] by auto
      have "tracked f f'"
        unfolding tracked_def using ok f' span by (auto simp: frame_ok_def size_matches_def dirty_at_def)
      with f' Inr False True show ?thesis by (auto simp: write_bytes_def Let_def)
    qed
  qed (auto simp: write_bytes_def Inr)
qed (simp add: write_bytes_def)

lemma region_block_put_other:
  assumes "raster_ok arr" "region_in r arr" "region_in r' arr"
    "\<And>x y. region_contains r x y \<Longrightarrow> \<not> region_contains r' x y"
  shows "region_block (put_block arr r flat) r' = region_block arr r'"
proof (rule nth_equalityI)
  fix k assume "k < length (region_block (put_block arr r flat) r')"
  then have k: "k < nat (region_capacity_bytes r')" by simp
  with capacity_nat [OF assms(3)] have p: "k div 3 < nat (rg_width r') * nat (rg_height r')" by simp
  note c = block_cell [OF assms(3) p]
  show "region_block (put_block arr r flat) r' ! k = region_block arr r' ! k"
    using put_block_cell [OF assms(1) c(1,2), of r flat] c(3) assms(4) k by (auto simp: nth_region_block)
qed simp

text \<open>Reading after a write: inside the written span the new bytes, elsewhere in the region and in
  every region with no common cell the old ones.\<close>

lemma read_after_write:
  assumes ok: "frame_ok f" and w: "write_bytes raw name off f = Inr f'"
  shows "read_bytes (int (length raw)) name off f' = Inr raw"
    and "off' + len \<le> off \<or> off + int (length raw) \<le> off' \<Longrightarrow>
      read_bytes len name off' f' = read_bytes len name off' f"
    and "layout_region (f_layout f) name = Inr r \<Longrightarrow> layout_region (f_layout f) other = Inr r' \<Longrightarrow>
      \<forall>x y. region_contains r x y \<longrightarrow> \<not> region_contains r' x y \<Longrightarrow>
      read_bytes len other off' f' = read_bytes len other off' f"
proof -
  obtain r where r: "layout_region (f_layout f) name = Inr r" "0 \<le> off"
      "off + int (length raw) \<le> region_capacity_bytes r"
      "f_image f' = put_block (f_image f) r (splice (nat off) raw (region_block (f_image f) r))"
    and t: "tracked f f'"
    using write_bytes_spec [OF ok, where raw = raw and name = name and off = off] w by auto
  have L: "f_layout f' = f_layout f" using t by (simp add: tracked_def)
  have rok: "raster_ok (f_image f)" using ok by (simp add: frame_ok_def)
  note rin = layout_region_in [OF ok r(1)]
  have cap: "nat off + length raw \<le> nat (region_capacity_bytes r)" using r(2,3) by linarith
  have blk: "region_block (f_image f') r = splice (nat off) raw (region_block (f_image f) r)"
    using region_block_put [OF rok rin] cap by (simp add: r(4))
  show "read_bytes (int (length raw)) name off f' = Inr raw"
    using r(1-3) blk L cap by (simp add: read_bytes_def)
  show "read_bytes len name off' f' = read_bytes len name off' f"
    if "off' + len \<le> off \<or> off + int (length raw) \<le> off'"
  proof (cases "len < 0 \<or> off' < 0 \<or> off' + len > region_capacity_bytes r")
    case False
    then have "slice (nat off') (nat len) (region_block (f_image f') r) =
        slice (nat off') (nat len) (region_block (f_image f) r)"
      unfolding blk using that cap r(2) by (intro slice_splice_disjoint) auto
    with r(1) L show ?thesis by (simp add: read_bytes_def)
  qed (use r(1) L in \<open>simp add: read_bytes_def\<close>)
  show "read_bytes len other off' f' = read_bytes len other off' f"
    if "layout_region (f_layout f) name = Inr r" "layout_region (f_layout f) other = Inr r'"
      "\<forall>x y. region_contains r x y \<longrightarrow> \<not> region_contains r' x y" for r r'
  proof -
    have "region_block (f_image f') r' = region_block (f_image f) r'"
      using that r(1,4) region_block_put_other [OF rok rin layout_region_in [OF ok that(2)]] by auto
    with that(2) L show ?thesis by (simp add: read_bytes_def)
  qed
qed

text \<open>Writes outside the execution region leave the executable rows alone.\<close>

lemma data_write_rows:
  assumes ok: "frame_ok f" and w: "write_bytes raw name off f = Inr f'" and n: "name \<noteq> Some ''execution''"
    and k: "int k \<le> execution_rows (f_layout f)"
  shows "rows_agree k (f_image f) (f_image f')"
proof -
  obtain r where r: "layout_region (f_layout f) name = Inr r"
      "f_image f' = put_block (f_image f) r (splice (nat off) raw (region_block (f_image f) r))"
    and t: "tracked f f'"
    using write_bytes_spec [OF ok, where raw = raw and name = name and off = off] w by auto
  have rok: "raster_ok (f_image f)" and L: "layout_ok (f_layout f)"
    and h: "int (rheight (f_image f)) = lheight (f_layout f)"
    using ok by (simp_all add: frame_ok_def size_matches_def)
  have "execution_rows (f_layout f) \<le> lheight (f_layout f)" using L by (simp add: layout_ok_def)
  then have kh: "k \<le> rheight (f_image f)" using k h by linarith
  have "pixel_at (f_image f') y x = pixel_at (f_image f) y x" if "y < k" "x < rwidth (f_image f)" for x y
  proof -
    have "\<not> region_contains r (int x) (int y)"
      using layout_region_data [OF L r(1) n] that(1) k by (simp add: region_contains_def)
    moreover have "y < rheight (f_image f)" using that kh by simp
    ultimately show ?thesis
      using put_block_cell [OF rok that(2)] by (simp add: r(2))
  qed
  with t show ?thesis by (simp add: rows_agree_def tracked_def)
qed

lemma write_json_bytes:
  "write_json obj name f = Inr f' \<longleftrightarrow> length (encode_utf8 (json_text obj)) < 2 ^ 32 \<and>
     write_bytes (be_bytes 4 (length (encode_utf8 (json_text obj))) @ encode_utf8 (json_text obj)) name 0 f = Inr f'"
  by (auto simp: write_json_def Let_def not_le)

lemma json_text_nonempty [simp]: "json_text j \<noteq> []"
  by (cases j) (simp_all add: json_string_raw_def)

lemma encode_utf8_nonempty: "s \<noteq> [] \<Longrightarrow> encode_utf8 s \<noteq> []"
  by (cases s) (auto simp: encode_utf8_def utf8_char_def Let_def)

section \<open>Compiled frames\<close>

definition cell_row :: "opcode_map \<Rightarrow> frame \<Rightarrow> nat \<Rightarrow> string list \<Rightarrow> bool" where
  "cell_row omap f y row \<longleftrightarrow> (\<forall>x < length row. pixel_at (f_image f) y x = parse_one omap (row ! x))"

lemma write_row_spec:
  assumes "write_row omap (int y) (int x) row f = Inr f'" "frame_ok f"
  shows "tracked f f' \<and> (row \<noteq> [] \<longrightarrow> x + length row \<le> rwidth (f_image f) \<and> y < rheight (f_image f)) \<and>
    (\<forall>v < rheight (f_image f). \<forall>u < rwidth (f_image f). pixel_at (f_image f') v u =
       (if v = y \<and> x \<le> u \<and> u < x + length row then parse_one omap (row ! (u - x)) else pixel_at (f_image f) v u))"
  using assms
proof (induction row arbitrary: x f)
  case (Cons i "is")
  obtain r g b where px: "parse_one omap i = (r, g, b)" by (cases "parse_one omap i")
  obtain f1 where f1: "write_cell (int x) (int y) [uint r, uint g, uint b] f = Inr f1"
    and rest: "write_row omap (int y) (int (Suc x)) is f1 = Inr f'"
    using Cons.prems(1) px by (auto simp: add.commute)
  have t: "tracked f f1" and xy: "x < rwidth (f_image f)" "y < rheight (f_image f)"
    and img: "f_image f1 = set_pixel x y (r, g, b) (f_image f)"
    using write_cell_spec [OF Cons.prems(2), of "int x" "int y" "[uint r, uint g, uint b]"] f1 Cons.prems(2)
    by (auto simp: frame_ok_def size_matches_def)
  have ok1: "frame_ok f1" using t by (simp add: tracked_def)
  have rok: "raster_ok (f_image f)" using Cons.prems(2) by (simp add: frame_ok_def)
  note ih = Cons.IH [OF rest ok1] and sp = set_pixel_cell [OF rok xy, of _ _ "(r, g, b)"]
  have "tracked f f'" using ih t tracked_trans by blast
  moreover have "x + length (i # is) \<le> rwidth (f_image f)"
    using ih xy t by (cases "is = []") (auto simp: tracked_def)
  moreover have "pixel_at (f_image f') v u = (if v = y \<and> x \<le> u \<and> u < x + length (i # is)
      then parse_one omap ((i # is) ! (u - x)) else pixel_at (f_image f) v u)"
    if "v < rheight (f_image f)" "u < rwidth (f_image f)" for u v
    using ih that img px sp [OF that(2,1)] by (auto simp: nth_Cons' Suc_le_eq)
  ultimately show ?case using xy(2) by blast
qed (auto simp: tracked_refl)

lemma write_rows_spec:
  assumes "write_rows omap (int y) rows f = Inr f'" "frame_ok f"
  shows "tracked f f' \<and>
    (\<forall>v < rheight (f_image f). v < y \<longrightarrow> (\<forall>u < rwidth (f_image f). pixel_at (f_image f') v u = pixel_at (f_image f) v u)) \<and>
    (\<forall>i < length rows. cell_row omap f' (y + i) (rows ! i))"
  using assms
proof (induction rows arbitrary: y f)
  case (Cons row rows)
  obtain f1 where f1: "write_row omap (int y) (int 0) row f = Inr f1"
    and rest: "write_rows omap (int (Suc y)) rows f1 = Inr f'"
    using Cons.prems(1) by (auto simp: add.commute)
  note s1 = write_row_spec [OF f1 Cons.prems(2)]
  have t: "tracked f f1" and ok1: "frame_ok f1" using s1 by (simp_all add: tracked_def)
  note ih = Cons.IH [OF rest ok1]
  have dims: "rwidth (f_image f1) = rwidth (f_image f)" "rheight (f_image f1) = rheight (f_image f)"
    using t by (simp_all add: tracked_def)
  have "cell_row omap f' y row"
    using ih s1 dims by (cases "row = []") (auto simp: cell_row_def)
  then have "\<forall>i < length (row # rows). cell_row omap f' (y + i) ((row # rows) ! i)"
    using ih by (auto simp: nth_Cons' less_Suc_eq_0_disj)
  moreover have "tracked f f'" using ih t tracked_trans by blast
  ultimately show ?case using ih s1 dims by (auto simp: less_Suc_eq)
qed (simp add: tracked_refl)

text \<open>The bytes a payload occupies at the start of its region.\<close>

fun payload_bytes :: "payload \<Rightarrow> bytes" where
  "payload_bytes (PBytes raw) = raw"
| "payload_bytes (PJson obj) = be_bytes 4 (length (encode_utf8 (json_text obj))) @ encode_utf8 (json_text obj)"

lemma write_payload_bytes:
  "(case pv of PBytes raw \<Rightarrow> write_bytes raw (Some name) 0 f | PJson obj \<Rightarrow> write_json obj (Some name) f) = Inr f' \<Longrightarrow>
   write_bytes (payload_bytes pv) (Some name) 0 f = Inr f'"
  by (cases pv) (auto simp: write_json_bytes)

lemma write_payloads_spec:
  assumes "write_payloads ps f = Inr f'" "frame_ok f" "''execution'' \<notin> dkeys ps"
  shows "tracked f f' \<and> rows_agree (nat (execution_rows (f_layout f))) (f_image f) (f_image f')"
  using assms
proof (induction ps arbitrary: f)
  case (Cons p ps)
  obtain name pv where p: "p = (name, pv)" by (cases p)
  obtain f1 where w: "write_bytes (payload_bytes pv) (Some name) 0 f = Inr f1"
    and rest: "write_payloads ps f1 = Inr f'"
    using Cons.prems(1) unfolding p by (auto dest: write_payload_bytes)
  have t: "tracked f f1"
    using write_bytes_spec [OF Cons.prems(2), where raw = "payload_bytes pv" and name = "Some name" and off = 0] w
    by auto
  have "0 \<le> execution_rows (f_layout f)"
    using Cons.prems(2) by (simp add: frame_ok_def layout_ok_def)
  then have a: "rows_agree (nat (execution_rows (f_layout f))) (f_image f) (f_image f1)"
    using data_write_rows [OF Cons.prems(2) w] Cons.prems(3) p by auto
  have ok1: "frame_ok f1" and l1: "f_layout f1 = f_layout f" using t by (simp_all add: tracked_def)
  note ih = Cons.IH [OF rest ok1]
  have "tracked f f'" using ih Cons.prems(3) t tracked_trans by auto
  moreover have "rows_agree (nat (execution_rows (f_layout f))) (f_image f) (f_image f')"
    using ih Cons.prems(3) a l1 by (auto simp: rows_agree_def)
  ultimately show ?case by blast
qed (simp add: tracked_refl rows_agree_def)

definition data_names :: "layout \<Rightarrow> string set" where
  "data_names L = rg_name ` set (lregions L) - {''storage'', ''execution''}"

lemma read_other_region:
  assumes "frame_ok f" "write_bytes raw (Some n) off f = Inr f'"
    "n \<in> data_names (f_layout f)" "m \<in> data_names (f_layout f)" "n \<noteq> m"
  shows "read_bytes len (Some m) off' f' = read_bytes len (Some m) off' f"
proof -
  obtain r r' where r: "r \<in> set (lregions (f_layout f))" "layout_region (f_layout f) (Some n) = Inr r" "rg_name r = n"
    "r' \<in> set (lregions (f_layout f))" "layout_region (f_layout f) (Some m) = Inr r'" "rg_name r' = m"
    using named_region assms(3,4) unfolding data_names_def by (metis Diff_iff)
  have "layout_ok (f_layout f)" using assms(1) by (simp add: frame_ok_def)
  from named_regions_disjoint [OF this r(1,4)] r assms(5) show ?thesis
    by (intro read_after_write(3) [OF assms(1,2) r(2,5)]) auto
qed

lemma write_payloads_read:
  assumes "write_payloads ps f = Inr f'" "frame_ok f" "dict_ok ps" "dkeys ps \<subseteq> data_names (f_layout f)"
  shows "\<forall>(n, v) \<in> set ps. read_bytes (int (length (payload_bytes v))) (Some n) 0 f' = Inr (payload_bytes v)"
    and "m \<in> data_names (f_layout f) \<Longrightarrow> m \<notin> dkeys ps \<Longrightarrow> read_bytes len (Some m) off f' = read_bytes len (Some m) off f"
  using assms
proof (induction ps arbitrary: f m len off)
  case (Cons p ps)
  obtain name pv where p: "p = (name, pv)" by (cases p)
  {
    fix f assume pr: "write_payloads (p # ps) f = Inr f'" "frame_ok f" "dict_ok (p # ps)"
      "dkeys (p # ps) \<subseteq> data_names (f_layout f)"
    obtain f1 where w: "write_bytes (payload_bytes pv) (Some name) 0 f = Inr f1"
      and rest: "write_payloads ps f1 = Inr f'"
      using pr(1) unfolding p by (auto dest: write_payload_bytes)
    have "tracked f f1"
      using write_bytes_spec [OF pr(2), where raw = "payload_bytes pv" and name = "Some name" and off = 0] w
      by auto
    then have ok1: "frame_ok f1" and l1: "f_layout f1 = f_layout f" by (simp_all add: tracked_def)
    have "\<exists>f1. write_bytes (payload_bytes pv) (Some name) 0 f = Inr f1 \<and> write_payloads ps f1 = Inr f' \<and>
       frame_ok f1 \<and> f_layout f1 = f_layout f"
      using w rest ok1 l1 by blast
  } note step = this
  {
    case 1
    then obtain f1 where f1: "write_bytes (payload_bytes pv) (Some name) 0 f = Inr f1"
      "write_payloads ps f1 = Inr f'" "frame_ok f1" "f_layout f1 = f_layout f"
      using step by blast
    have "name \<in> data_names (f_layout f1)" "name \<notin> dkeys ps"
      using 1 p f1(4) by (auto simp: dict_ok_def image_iff)
    then have "read_bytes (int (length (payload_bytes pv))) (Some name) 0 f' = Inr (payload_bytes pv)"
      using Cons.IH(2) [where f = f1 and m = name] f1 1 read_after_write(1) [OF 1(2) f1(1)] by (simp add: dict_ok_def)
    then show ?case using Cons.IH(1) [OF f1(2,3)] 1 f1(4) p by (simp add: dict_ok_def)
  next
    case 2
    then obtain f1 where f1: "write_bytes (payload_bytes pv) (Some name) 0 f = Inr f1"
      "write_payloads ps f1 = Inr f'" "frame_ok f1" "f_layout f1 = f_layout f"
      using step by blast
    then show ?case
      using Cons.IH(2) [where f = f1] 2 p read_other_region [OF 2(4) f1(1), of m] by (auto simp: dict_ok_def)
  }
qed (auto simp: dict_ok_def)

section \<open>Properties\<close>

definition demo_frame :: frame where
  "demo_frame = \<lparr>f_image = \<lparr>rwidth = 8, rheight = 16, rcells = replicate 128 NOP_px\<rparr>,
     f_layout = demo_layout, f_dirty = []\<rparr>"

lemma demo_frame_ok: "frame_ok demo_frame"
  using demo_layout_ok
  by (simp add: frame_ok_def demo_frame_def raster_ok_def size_matches_def rects_ok_def demo_layout_def)

lemma demo_region_lookup:
  "layout_region demo_layout (Some ''memory'') = Inr (demo_region ''memory'' 2 6)"
  "layout_region demo_layout (Some ''inbox'') = Inr (demo_region ''inbox'' 8 4)"
  by (simp_all add: layout_region_def demo_layout_def demo_region_def)

lemma demo_data_names: "data_names (f_layout demo_frame) = {''memory'', ''inbox''}"
  by (auto simp: data_names_def demo_frame_def demo_layout_def demo_region_def)

lemma demo_capacity: "region_capacity_bytes (demo_region n y h) = 24 * h"
  by (simp add: region_capacity_bytes_def region_cells_def demo_region_def)

text \<open>A write that fits its region succeeds.\<close>

lemma write_bytes_fits:
  assumes "frame_ok f" "layout_region (f_layout f) name = Inr r" "0 \<le> off"
    "off + int (length raw) \<le> region_capacity_bytes r"
  shows "\<exists>f'. write_bytes raw name off f = Inr f'"
  using write_bytes_spec [OF assms(1), where raw = raw and name = name and off = off] assms(2-4)
  by (cases "write_bytes raw name off f") auto

lemma demo_write:
  assumes "length raw \<le> 144"
  shows "\<exists>f'. write_bytes raw (Some ''memory'') 0 demo_frame = Inr f'"
proof -
  have "layout_region (f_layout demo_frame) (Some ''memory'') = Inr (demo_region ''memory'' 2 6)"
    by (simp add: demo_frame_def demo_region_lookup)
  from write_bytes_fits [OF demo_frame_ok this, of 0 raw] assms show ?thesis
    by (simp add: demo_capacity)
qed

text \<open>C8. Byte storage: a write to a data region of a valid frame can be read back exactly, leaves
  all other bytes of the region and all bytes of every other named region as they were, and
  fails only when the offset is negative or the payload does not fit.\<close>

theorem write_bytes_read_bytes:
  assumes "frame_ok f" "n \<in> data_names (f_layout f)"
  shows "case write_bytes raw (Some n) off f of
      Inl e \<Rightarrow> \<exists>r. layout_region (f_layout f) (Some n) = Inr r \<and>
        (off < 0 \<or> region_capacity_bytes r < off + int (length raw))
    | Inr f' \<Rightarrow> frame_ok f' \<and> read_bytes (int (length raw)) (Some n) off f' = Inr raw \<and>
        (\<forall>len off'. off' + len \<le> off \<or> off + int (length raw) \<le> off' \<longrightarrow>
           read_bytes len (Some n) off' f' = read_bytes len (Some n) off' f) \<and>
        (\<forall>m \<in> data_names (f_layout f). m \<noteq> n \<longrightarrow>
           (\<forall>len off'. read_bytes len (Some m) off' f' = read_bytes len (Some m) off' f))"
proof (cases "write_bytes raw (Some n) off f")
  case (Inl e)
  obtain r where "layout_region (f_layout f) (Some n) = Inr r"
    using named_region assms(2) unfolding data_names_def by blast
  with Inl show ?thesis
    using write_bytes_spec [OF assms(1), where raw = raw and name = "Some n" and off = off] by auto
next
  case (Inr f')
  have "frame_ok f'"
    using write_bytes_spec [OF assms(1), where raw = raw and name = "Some n" and off = off] Inr
    by (auto simp: tracked_def)
  with Inr show ?thesis
    using read_after_write(1,2) [OF assms(1) Inr] read_other_region [OF assms(1) Inr assms(2)] by auto
qed

theorem write_bytes_read_bytes_witness:
  "\<exists>f'. write_bytes [1, 2, 3, 4, 5] (Some ''memory'') 0 demo_frame = Inr f' \<and>
     read_bytes 5 (Some ''memory'') 0 f' = Inr [1, 2, 3, 4, 5] \<and>
     read_bytes 7 (Some ''inbox'') 2 f' = read_bytes 7 (Some ''inbox'') 2 demo_frame"
proof -
  obtain f' where f': "write_bytes [1, 2, 3, 4, 5] (Some ''memory'') 0 demo_frame = Inr f'"
    using demo_write [of "[1, 2, 3, 4, 5]"] by auto
  have "''memory'' \<in> data_names (f_layout demo_frame)" by (simp add: demo_data_names)
  from write_bytes_read_bytes [OF demo_frame_ok this, where raw = "[1, 2, 3, 4, 5]" and off = 0] f' show ?thesis
    by (simp add: demo_data_names)
qed

text \<open>Dirty tracking is complete: after a successful write of bytes to any region every cell
  whose pixel changed, and every cell that was dirty before, is covered by a dirty rectangle; the
  rectangles stay inside the frame and pairwise separated.\<close>

theorem write_bytes_tracks_changes:
  assumes "frame_ok f" "write_bytes raw name off f = Inr f'"
    "x < rwidth (f_image f)" "y < rheight (f_image f)"
    "pixel_at (f_image f') y x \<noteq> pixel_at (f_image f) y x \<or> dirty_at f (int x) (int y)"
  shows "dirty_at f' (int x) (int y) \<and> (\<forall>d \<in> set (f_dirty f'). rect_ok (f_layout f) d) \<and>
    sorted_wrt separated (f_dirty f')"
proof -
  have "tracked f f'"
    using write_bytes_spec [OF assms(1), where raw = raw and name = name and off = off] assms(2) by auto
  with assms(3-5) show ?thesis by (auto simp: tracked_def frame_ok_def rects_ok_def)
qed

theorem write_bytes_tracks_changes_witness:
  "\<exists>f'. write_bytes [1] (Some ''memory'') 0 demo_frame = Inr f' \<and> dirty_at f' 0 2"
proof -
  obtain f' where f': "write_bytes [1] (Some ''memory'') 0 demo_frame = Inr f'"
    using demo_write [of "[1]"] by auto
  have "f_image f' = put_block (f_image demo_frame) (demo_region ''memory'' 2 6)
      (splice 0 [1] (region_block (f_image demo_frame) (demo_region ''memory'' 2 6)))"
    using write_bytes_spec [OF demo_frame_ok, where raw = "[1]" and name = "Some ''memory''" and off = 0] f'
    by (auto simp: demo_region_lookup demo_frame_def)
  moreover have "raster_ok (f_image demo_frame)" "0 < rwidth (f_image demo_frame)" "2 < rheight (f_image demo_frame)"
    by (simp_all add: demo_frame_def raster_ok_def)
  ultimately have "fst (pixel_at (f_image f') 2 0) = 1"
    using put_block_cell [of "f_image demo_frame" 0 2]
    by (simp add: region_contains_def block_index_def demo_region_def splice_def Let_def)
  then have "pixel_at (f_image f') 2 0 \<noteq> pixel_at (f_image demo_frame) 2 0"
    by (auto simp: pixel_at_def demo_frame_def NOP_px_def)
  then show ?thesis
    using write_bytes_tracks_changes [OF demo_frame_ok f', of 0 2] f' by (simp add: demo_frame_def)
qed

text \<open>C9. Storage is not code: writing bytes to any region but the execution region changes nothing
  about what the machine of that layout executes, neither outcome nor resulting state.\<close>

theorem data_write_keeps_execution:
  assumes "frame_ok f" "write_bytes raw name off f = Inr f'" "name \<noteq> Some ''execution''"
    "int (threads v) = execution_rows (f_layout f)"
  shows "execute_array (f_image f') v = execute_array (f_image f) v"
  using run_columns_rows [of "v\<lparr>next_frame := None\<rparr>" "f_image f" "f_image f'" "max_col_steps v" 0 fresh_ctx]
    data_write_rows [OF assms(1-3), of "threads v"] assms(4)
  by (simp add: execute_array_def)

theorem data_write_keeps_execution_witness:
  "\<exists>f'. write_bytes [255, 0, 0] (Some ''memory'') 0 demo_frame = Inr f' \<and>
     execute_array (f_image f') (demo_vm 2 True) = execute_array (f_image demo_frame) (demo_vm 2 True)"
proof -
  obtain f' where f': "write_bytes [255, 0, 0] (Some ''memory'') 0 demo_frame = Inr f'"
    using demo_write [of "[255, 0, 0]"] by auto
  have "execute_array (f_image f') (demo_vm 2 True) = execute_array (f_image demo_frame) (demo_vm 2 True)"
    by (rule data_write_keeps_execution [OF demo_frame_ok f'])
      (simp_all add: demo_vm_def demo_frame_def demo_layout_def)
  with f' show ?thesis by blast
qed

lemma u24_split:
  fixes v :: int
  assumes "0 \<le> v" "v \<le> 0xFFFFFF"
  shows "(push_bit 16 (mask_ff (drop_bit 16 v)) OR push_bit 8 (mask_ff (drop_bit 8 v))) OR mask_ff v = v"
proof -
  have m: "mask_ff x = take_bit 8 x" for x
    by (simp add: mask_ff_mod take_bit_eq_mod)
  have v: "v = take_bit 24 v" using assms by (simp add: take_bit_int_eq_self)
  show ?thesis
  proof (unfold m, rule bit_eqI)
    fix n
    have "bit v n \<Longrightarrow> n < 24" using v by (metis bit_take_bit_iff)
    moreover have "n - 8 + 8 = n" if "8 \<le> n" using that by simp
    moreover have "n - 16 + 16 = n" if "16 \<le> n" using that by simp
    ultimately show "bit ((push_bit 16 (take_bit 8 (drop_bit 16 v)) OR push_bit 8 (take_bit 8 (drop_bit 8 v))) OR take_bit 8 v) n = bit v n"
      by (cases "n < 16"; auto simp: bit_simps add.commute)
  qed
qed

text \<open>A cell is a 24-bit word: every value in \<open>0..0xFFFFFF\<close> written to an in-range cell is read
  back, and every other value is refused.\<close>

theorem u24_roundtrip:
  assumes "frame_ok f"
  shows "case write_u24 x y v f of
      Inl e \<Rightarrow> \<not> (0 \<le> v \<and> v \<le> 0xFFFFFF \<and> 0 \<le> x \<and> x < lwidth (f_layout f) \<and> 0 \<le> y \<and> y < lheight (f_layout f))
    | Inr f' \<Rightarrow> 0 \<le> v \<and> v \<le> 0xFFFFFF \<and> read_u24 x y f' = Inr v"
proof (cases "0 \<le> v \<and> v \<le> 0xFFFFFF")
  case True
  let ?rgb = "[mask_ff (drop_bit 16 v), mask_ff (drop_bit 8 v), mask_ff v]"
  have eq: "write_u24 x y v f = write_cell x y ?rgb f" using True by (simp add: write_u24_def)
  show ?thesis
  proof (cases "write_cell x y ?rgb f")
    case (Inl e)
    with eq show ?thesis using write_cell_spec [OF assms, of x y ?rgb] by auto
  next
    case (Inr f')
    note sp = write_cell_spec [OF assms, of x y ?rgb]
    have xy: "nat x < rwidth (f_image f)" "nat y < rheight (f_image f)" "raster_ok (f_image f)"
      using sp Inr assms by (auto simp: frame_ok_def size_matches_def)
    have "read_cell x y f' = Inr (mask_ff (drop_bit 16 v), mask_ff (drop_bit 8 v), mask_ff v)"
      using sp Inr set_pixel_cell [OF xy(3,1,2,1,2)]
      by (simp add: read_cell_def check_coordinate_def tracked_def uint_word_of_int_eq take_bit_eq_mod mask_ff_mod)
    with True eq Inr u24_split show ?thesis by (simp add: read_u24_def)
  qed
qed (auto simp: write_u24_def)

theorem u24_roundtrip_witness:
  "\<exists>f'. write_u24 3 4 0xABCDEF demo_frame = Inr f' \<and> read_u24 3 4 f' = Inr 0xABCDEF"
  using u24_roundtrip [OF demo_frame_ok, where x = 3 and y = 4 and v = "0xABCDEF"]
  by (cases "write_u24 3 4 0xABCDEF demo_frame") (auto simp: demo_frame_def demo_layout_def)

text \<open>JSON documents round-trip through a region: whatever parser \<open>loads\<close> inverts the emitted
  text, a value written by \<open>write_json\<close> is what \<open>read_json\<close> returns, never \<open>None\<close>.\<close>

theorem json_region_roundtrip:
  assumes "frame_ok f" "write_json obj name f = Inr f'" "loads (encode_utf8 (json_text obj)) = Inr obj"
  shows "read_json loads name f' = Inr (Some obj)"
proof -
  let ?p = "encode_utf8 (json_text obj)"
  let ?raw = "be_bytes 4 (length ?p) @ ?p"
  have len: "length ?p < 2 ^ 32" and w: "write_bytes ?raw name 0 f = Inr f'"
    using assms(2) by (simp_all add: write_json_bytes)
  obtain r where r: "layout_region (f_layout f) name = Inr r" "int (length ?raw) \<le> region_capacity_bytes r"
    and L: "f_layout f' = f_layout f"
    using write_bytes_spec [OF assms(1), where raw = ?raw and name = name and off = 0] w by (auto simp: tracked_def)
  have blk: "slice 0 (length ?raw) (region_block (f_image f') r) = ?raw"
    using read_after_write(1) [OF assms(1) w] r L by (simp add: read_bytes_def nat_add_distrib)
  have "slice 0 4 (region_block (f_image f') r) = take 4 ?raw"
    "slice 4 (length ?p) (region_block (f_image f') r) = drop 4 ?raw"
    using arg_cong [OF blk, of "take 4"] arg_cong [OF blk, of "drop 4"]
    by (simp_all add: slice_def drop_take del: append_take_drop_id)
  then have "read_bytes 4 name 0 f' = Inr (be_bytes 4 (length ?p))" "read_bytes (int (length ?p)) name 4 f' = Inr ?p"
    using r L by (simp_all add: read_bytes_def)
  moreover have "of_be (be_bytes 4 (length ?p)) = length ?p" using len by simp
  moreover have "length ?p \<noteq> 0" using encode_utf8_nonempty by simp
  ultimately show ?thesis using r L assms(3) by (simp add: read_json_def)
qed

theorem json_region_roundtrip_witness:
  "\<exists>f'. write_json (JBool True) (Some ''memory'') demo_frame = Inr f' \<and>
     read_json (\<lambda>bs. if bs = encode_utf8 ''true'' then Inr (JBool True) else Inl (ValueError []))
       (Some ''memory'') f' = Inr (Some (JBool True))"
proof -
  have len: "length (encode_utf8 ''true'') = 4" by (simp add: encode_utf8_def utf8_char_def char_code_def)
  then obtain f' where f': "write_json (JBool True) (Some ''memory'') demo_frame = Inr f'"
    using demo_write [of "be_bytes 4 4 @ encode_utf8 ''true''"] by (auto simp: write_json_bytes)
  show ?thesis
    using json_region_roundtrip [OF demo_frame_ok f'] f' by auto
qed

text \<open>Compiled frames hold program and data: when the spatial compiler succeeds for data regions
  with distinct names, the frame is valid, cell \<open>(x, y)\<close> of the executable rows is instruction \<open>x\<close>
  of the expanded thread \<open>y\<close>, the program fits the executable rows, and every payload can be
  read back from the start of its region.\<close>

theorem spatial_compile_layout:
  assumes "layout_ok L" "spatial_compile L omap program payloads = Inr f"
    "dict_ok payloads" "dkeys payloads \<subseteq> data_names L"
  shows "frame_ok f \<and> f_layout f = L \<and> int (length (expand program)) \<le> execution_rows L \<and>
    (\<forall>y < length (expand program). \<forall>x < length (expand program ! y).
       pixel_at (f_image f) y x = parse_one omap (expand program ! y ! x)) \<and>
    (\<forall>(n, p) \<in> set payloads.
       read_bytes (int (length (payload_bytes p))) (Some n) 0 f = Inr (payload_bytes p))"
proof -
  obtain f0 f1 where f0: "frame_blank L = Inr f0" and f1: "write_rows omap (int 0) (expand program) f0 = Inr f1"
    and f: "write_payloads payloads f1 = Inr f"
    and rows: "int (length (expand program)) \<le> execution_rows L" and cols: "int (max_len (expand program)) \<le> lwidth L"
    using assms(2) by (auto simp: spatial_compile_def Let_def split: if_splits)
  have ok0: "frame_ok f0" "f_layout f0 = L" using frame_blank_spec [OF assms(1)] f0 by auto
  note s1 = write_rows_spec [OF f1 ok0(1)]
  have ok1: "frame_ok f1" "f_layout f1 = L" using s1 ok0 by (auto simp: tracked_def)
  have "''execution'' \<notin> dkeys payloads" using assms(4) by (auto simp: data_names_def)
  note s2 = write_payloads_spec [OF f ok1(1) this]
  have "pixel_at (f_image f) y x = parse_one omap (expand program ! y ! x)"
    if "y < length (expand program)" "x < length (expand program ! y)" for x y
  proof -
    have "x < rwidth (f_image f1)"
      using that cols ok1 max_len_mem [of "expand program ! y" "expand program"]
      by (simp add: frame_ok_def size_matches_def)
    then have "pixel_at (f_image f1) y x = pixel_at (f_image f) y x"
      using s2 that rows ok1(2) by (simp add: rows_agree_def)
    then show ?thesis using s1 that by (simp add: cell_row_def)
  qed
  then show ?thesis
    using s2 ok1 rows write_payloads_read(1) [OF f ok1(1) assms(3)] assms(4) by (simp add: tracked_def)
qed

lemma demo_spatial_compile:
  "\<exists>f. spatial_compile demo_layout MAP [[''HALT'']] [(''memory'', PBytes [7, 8, 9, 10])] = Inr f"
proof -
  obtain f0 where f0: "frame_blank demo_layout = Inr f0" "frame_ok f0" "f_layout f0 = demo_layout"
    using frame_blank_spec [OF demo_layout_ok] by blast
  have "\<exists>f1. write_cell 0 0 [uint r, uint g, uint b] f0 = Inr f1 \<and> frame_ok f1 \<and> f_layout f1 = demo_layout"
    for r g b :: byte
    using write_cell_spec [OF f0(2), of 0 0 "[uint r, uint g, uint b]"] f0(3)
    by (cases "write_cell 0 0 [uint r, uint g, uint b] f0") (auto simp: demo_layout_def tracked_def)
  moreover have ex: "expand [[''HALT'']] = [[''HALT'']]" by code_simp
  moreover obtain r g b where px: "parse_one MAP ''HALT'' = (r, g, b)" by (cases "parse_one MAP ''HALT''")
  ultimately obtain f1 where "write_cell 0 0 [uint r, uint g, uint b] f0 = Inr f1" "frame_ok f1" "f_layout f1 = demo_layout"
    by blast
  then have f1: "write_rows MAP 0 (expand [[''HALT'']]) f0 = Inr f1" "frame_ok f1" "f_layout f1 = demo_layout"
    by (simp_all add: ex px del: parse_literals)
  have "layout_region (f_layout f1) (Some ''memory'') = Inr (demo_region ''memory'' 2 6)"
    by (simp add: f1(3) demo_region_lookup)
  from write_bytes_fits [OF f1(2) this, of 0 "[7, 8, 9, 10]"]
  obtain f where f: "write_bytes [7, 8, 9, 10] (Some ''memory'') 0 f1 = Inr f" by (auto simp: demo_capacity)
  have "length (expand [[''HALT'']]) = 1" "max_len (expand [[''HALT'']]) = 1"
    by (simp_all add: ex max_len_def)
  then have "spatial_compile demo_layout MAP [[''HALT'']] [(''memory'', PBytes [7, 8, 9, 10])] = Inr f"
    using f0(1) f1(1) f by (simp add: spatial_compile_def Let_def demo_layout_def)
  then show ?thesis by blast
qed

theorem spatial_compile_layout_witness:
  "\<exists>f. spatial_compile demo_layout MAP [[''HALT'']] [(''memory'', PBytes [7, 8, 9, 10])] = Inr f \<and> frame_ok f \<and>
     read_bytes 4 (Some ''memory'') 0 f = Inr [7, 8, 9, 10]"
proof -
  obtain f where f: "spatial_compile demo_layout MAP [[''HALT'']] [(''memory'', PBytes [7, 8, 9, 10])] = Inr f"
    using demo_spatial_compile by blast
  have "''memory'' \<in> data_names demo_layout"
    using demo_data_names by (simp add: demo_frame_def)
  with spatial_compile_layout [OF demo_layout_ok f] f show ?thesis by (auto simp: dict_ok_def)
qed

lemma execute_texture_generation:
  "execute_texture sha load ex path v = (Inr regs, v') \<Longrightarrow> execution_generation v' = Suc (execution_generation v)"
  using vm_staticD(7) [OF chain_frames_static]
  by (fastforce simp: execute_texture_def Let_def finish_execution_facts split: prod.splits sum.splits)

text \<open>Resident execution and lineage: executing a resident frame that chains to no other frame
  advances the generation by one, but a frame that chains advances it by two, because the chained
  \<open>execute_texture\<close> records a generation of its own; when an exception is raised before the chain
  starts, generation and recorded hash stay.\<close>

theorem resident_execution_generation:
  assumes "execute_spatial_frame sha load ex f s = (Inr regs, s')"
    "execute_array (f_image f) (sv_vm s) = (Inr nxt, v)"
  shows "execution_generation (sv_vm s') =
      execution_generation (sv_vm s) + (case nxt of None \<Rightarrow> 1 | Some _ \<Rightarrow> 2) \<and>
    last_checkpoint_hash (sv_vm s') = vm_hash sha (sv_vm s') \<and> regs = registers (sv_vm s')"
proof -
  have g: "execution_generation v = execution_generation (sv_vm s)"
    using vm_staticD(7) [OF execute_array_static [OF assms(2)]] .
  show ?thesis
  proof (cases nxt)
    case None
    with assms g show ?thesis
      by (auto simp: execute_spatial_frame_def Let_def finish_execution_facts split: if_splits)
  next
    case (Some p)
    with assms g show ?thesis
      by (auto simp: execute_spatial_frame_def Let_def finish_execution_facts split: if_splits prod.splits sum.splits
          dest!: execute_texture_generation)
  qed
qed

text \<open>The witness chains: frame \<open>a\<close> holds one \<open>SAVE_STATE\<close> cell, frame \<open>b\<close> one \<open>HALT\<close> cell.\<close>

definition chain_demo :: "spatial_vm \<times> frame \<times> raster" where
  "chain_demo =
     (let L = \<lparr>lwidth = 1, lheight = 1, execution_rows = 1, lregions = []\<rparr>
      in (\<lparr>sv_layout = L, sv_vm = (demo_vm 1 True)\<lparr>frame_registry := [(0, ''b'')]\<rparr>\<rparr>,
          \<lparr>f_image = \<lparr>rwidth = 1, rheight = 1, rcells = [(60, 0, 0)]\<rparr>, f_layout = L, f_dirty = []\<rparr>,
          \<lparr>rwidth = 1, rheight = 1, rcells = [(255, 0, 0)]\<rparr>))"

theorem resident_execution_generation_witness:
  "case chain_demo of (s, f, b) \<Rightarrow>
     \<exists>regs s'. execute_spatial_frame (\<lambda>bs. bs) (\<lambda>p. Some b) (\<lambda>p. p = ''b'') f s = (Inr regs, s') \<and>
       execution_generation (sv_vm s') = 2"
proof -
  obtain s f b where d: "chain_demo = (s, f, b)" by (cases chain_demo)
  obtain nxt v where a: "execute_array (f_image f) (sv_vm s) = (nxt, v)"
    by (cases "execute_array (f_image f) (sv_vm s)")
  have "case chain_demo of (s, f, b) \<Rightarrow> f_layout f = sv_layout s \<and> execution_generation (sv_vm s) = 0 \<and>
     (case execute_array (f_image f) (sv_vm s) of (nxt, v) \<Rightarrow> nxt = Inr (Some ''b'') \<and> max_chain v = 100 \<and>
       fst (chain_frames (\<lambda>p. Some b) (\<lambda>p. p = ''b'') (max_chain (v\<lparr>max_chain := max_chain v - 1\<rparr>)) False ''b''
         (v\<lparr>max_chain := max_chain v - 1\<rparr>)) = Inr ())"
    by code_simp
  from this [unfolded d prod.case a] have n: "f_layout f = sv_layout s" "execution_generation (sv_vm s) = 0" "nxt = Inr (Some ''b'')"
    "max_chain v = 100" "fst (chain_frames (\<lambda>p. Some b) (\<lambda>p. p = ''b'') 99 False ''b'' (v\<lparr>max_chain := 99\<rparr>)) = Inr ()"
    by auto
  then obtain v2 where "chain_frames (\<lambda>p. Some b) (\<lambda>p. p = ''b'') 99 False ''b'' (v\<lparr>max_chain := 99\<rparr>) = (Inr (), v2)"
    by (metis prod.collapse)
  with n a obtain regs s' where r: "execute_spatial_frame (\<lambda>bs. bs) (\<lambda>p. Some b) (\<lambda>p. p = ''b'') f s = (Inr regs, s')"
    by (simp add: execute_spatial_frame_def execute_texture_def Let_def)
  from resident_execution_generation [OF r] a n have "execution_generation (sv_vm s') = 2" by simp
  with r show ?thesis unfolding d prod.case by blast
qed

end
