(* ===== verification/Utf8.thy ===== *)
theory Utf8
  imports Prelude
begin

text \<open>
  Python strings as lists of code points and the strict UTF-8 codec, \<open>str.encode("utf-8")\<close> and
  \<open>bytes.decode("utf-8")\<close>, used where binary records carry text. Surrogates are not encodable and
  over-long forms, surrogates and values above \<open>0x10FFFF\<close> are not decodable, as in CPython.
  The round trip shows that encoded text is always decoded to itself.
\<close>

type_synonym ustr = "nat list"

definition scalar_value :: "nat \<Rightarrow> bool" where
  "scalar_value c \<longleftrightarrow> c < 0xD800 \<or> (0xE000 \<le> c \<and> c < 0x110000)"

definition utf8_enc1 :: "nat \<Rightarrow> bytes" where
  "utf8_enc1 c =
     (if c < 0x80 then [of_nat c]
      else if c < 0x800 then [of_nat (192 + c div 64), of_nat (128 + c mod 64)]
      else if c < 0x10000 then
        [of_nat (224 + c div 4096), of_nat (128 + c div 64 mod 64), of_nat (128 + c mod 64)]
      else [of_nat (240 + c div 262144), of_nat (128 + c div 4096 mod 64),
            of_nat (128 + c div 64 mod 64), of_nat (128 + c mod 64)])"

definition utf8_encode :: "ustr \<Rightarrow> bytes result" where
  "utf8_encode s =
     (if list_all scalar_value s then Inr (concat (map utf8_enc1 s))
      else Inl (ValueError ''surrogates not allowed''))"

definition cont_byte :: "byte \<Rightarrow> bool" where
  "cont_byte b \<longleftrightarrow> 128 \<le> unat b \<and> unat b < 192"

fun utf8_decode :: "bytes \<Rightarrow> ustr option" where
  "utf8_decode [] = Some []"
| "utf8_decode (b0 # bs) =
     (let n0 = unat b0 in
      if n0 < 128 then map_option (Cons n0) (utf8_decode bs)
      else if 192 \<le> n0 \<and> n0 < 224 then
        (case bs of
           b1 # r \<Rightarrow>
             let c = (n0 - 192) * 64 + (unat b1 - 128) in
             if cont_byte b1 \<and> 0x80 \<le> c then map_option (Cons c) (utf8_decode r) else None
         | _ \<Rightarrow> None)
      else if 224 \<le> n0 \<and> n0 < 240 then
        (case bs of
           b1 # b2 # r \<Rightarrow>
             let c = (n0 - 224) * 4096 + (unat b1 - 128) * 64 + (unat b2 - 128) in
             if cont_byte b1 \<and> cont_byte b2 \<and> 0x800 \<le> c \<and> scalar_value c
             then map_option (Cons c) (utf8_decode r) else None
         | _ \<Rightarrow> None)
      else if 240 \<le> n0 \<and> n0 < 248 then
        (case bs of
           b1 # b2 # b3 # r \<Rightarrow>
             let c = (n0 - 240) * 262144 + (unat b1 - 128) * 4096 + (unat b2 - 128) * 64 + (unat b3 - 128) in
             if cont_byte b1 \<and> cont_byte b2 \<and> cont_byte b3 \<and> 0x10000 \<le> c \<and> scalar_value c
             then map_option (Cons c) (utf8_decode r) else None
         | _ \<Rightarrow> None)
      else None)"

lemma unat_of_nat_small: "n < 256 \<Longrightarrow> unat (of_nat n :: byte) = n"
  by (simp add: unat_of_nat)

lemma split64: "c = c div 64 * 64 + c mod (64 :: nat)" by simp

lemma split4096: "c = c div 4096 * 4096 + c div 64 mod 64 * 64 + c mod (64 :: nat)"
  using div_mult2_eq [of c 64 64, simplified] div_mult_mod_eq [of c 64] div_mult_mod_eq [of "c div 64" 64] by linarith

lemma split262144:
  "c = c div 262144 * 262144 + c div 4096 mod 64 * 4096 + c div 64 mod 64 * 64 + c mod (64 :: nat)"
  using div_mult2_eq [of c 4096 64, simplified] div_mult_mod_eq [of "c div 4096" 64] split4096 [of c] by linarith

lemma utf8_decode_enc1:
  assumes "scalar_value c"
  shows "utf8_decode (utf8_enc1 c @ bs) = map_option (Cons c) (utf8_decode bs)"
proof -
  consider "c < 0x80" | "0x80 \<le> c" "c < 0x800" | "0x800 \<le> c" "c < 0x10000" | "0x10000 \<le> c" by linarith
  then show ?thesis
  proof cases
    case 1
    then show ?thesis by (simp add: utf8_enc1_def unat_of_nat_small)
  next
    case 2
    then have "c div 64 < 32" by simp
    with 2 split64 [of c] show ?thesis
      by (simp add: utf8_enc1_def unat_of_nat_small cont_byte_def Let_def del: of_nat_add)
  next
    case 3
    then have "c div 4096 < 16" by simp
    with 3 split4096 [of c] assms show ?thesis
      by (simp add: utf8_enc1_def unat_of_nat_small cont_byte_def Let_def del: of_nat_add)
  next
    case 4
    then have "c div 262144 < 8" using assms by (simp add: scalar_value_def)
    with 4 split262144 [of c] assms show ?thesis
      by (simp add: utf8_enc1_def unat_of_nat_small cont_byte_def Let_def del: of_nat_add)
  qed
qed

lemma utf8_roundtrip: "utf8_encode s = Inr bs \<Longrightarrow> utf8_decode bs = Some s"
  by (induction s arbitrary: bs) (auto simp: utf8_encode_def utf8_decode_enc1 split: if_splits)

lemma utf8_encode_ascii: "list_all (\<lambda>c. c < 128) s \<Longrightarrow> utf8_encode s = Inr (map of_nat s)"
  by (induction s) (auto simp: utf8_encode_def utf8_enc1_def scalar_value_def split: if_splits)

end
