(* ===== verification/Spatial_Mailbox.thy ===== *)
theory Spatial_Mailbox
  imports Spatial_Frame Utf8
begin

text \<open>
  The binary FIFO mailbox of \<^verbatim>\<open>zdx_spatial_mailbox.py\<close>: a ring of fixed-size slots behind a
  36-byte header, stored in one data region of a spatial frame. \<^verbatim>\<open>field\<close> reads a big-endian
  field of the packed structs; \<open>struct.pack\<close> of a value too large for its field is \<open>StructError\<close>.
  The frame is the mutable state: an operation returns its result with the frame it leaves, and
  one that raises leaves the frame as it was, because the region is written last. SHA-256 is the
  parameter \<open>sha\<close>.

  The queue contract is the locale \<^verbatim>\<open>fifo\<close>: an invariant, the pending messages as a list, and what
  enqueue and dequeue do to them. It is interpreted on the mailbox operations, which discharges the
  laws for the ring layout (slots do not overlap, digests are recomputed, sequence numbers advance).
\<close>

section \<open>Records\<close>

definition MB_MAGIC :: bytes where
  "MB_MAGIC = [90, 68, 88, 77, 66, 88, 49, 0]"

definition MB_HEADER_SIZE :: nat where "MB_HEADER_SIZE = 36"
definition SLOT_HEADER_SIZE :: nat where "SLOT_HEADER_SIZE = 51"

definition MB_DOMAIN :: bytes where
  "MB_DOMAIN = map of_char ''zdx-spatial-mailbox-v1'' @ [0]"

record message =
  msg_sequence :: nat
  msg_sender :: ustr
  msg_recipient :: ustr
  msg_topic :: ustr
  msg_payload :: bytes
  msg_sha256 :: string

record mailbox =
  mb_region :: string
  mb_capacity :: nat
  mb_slot_size :: nat
  mb_slot_count :: nat

definition field :: "nat \<Rightarrow> nat \<Rightarrow> bytes \<Rightarrow> nat" where
  "field off n raw = of_be (slice off n raw)"

definition payload_capacity :: "mailbox \<Rightarrow> nat" where
  "payload_capacity mb = mb_slot_size mb - SLOT_HEADER_SIZE"

definition message_digest :: "(bytes \<Rightarrow> bytes) \<Rightarrow> nat \<Rightarrow> bytes \<Rightarrow> bytes \<Rightarrow> bytes \<Rightarrow> bytes \<Rightarrow> bytes" where
  "message_digest sha seq sender recipient topic payload =
     sha (MB_DOMAIN @ be_bytes 8 seq @
       concat (map (\<lambda>item. be_bytes 4 (length item) @ item) [sender, recipient, topic, payload]))"

section \<open>Header and slots\<close>

definition mb_header :: "mailbox \<Rightarrow> bytes \<Rightarrow> (nat \<times> nat) result" where
  "mb_header mb raw =
     (if length raw < MB_HEADER_SIZE then Inl (StructError ''unpack_from requires a larger buffer'')
      else if slice 0 8 raw \<noteq> MB_MAGIC \<or> field 8 1 raw \<noteq> 1 \<or> field 9 1 raw \<noteq> 0 \<or> field 10 2 raw \<noteq> 0
        then Inl (ValueError ''corrupt or unsupported spatial mailbox header'')
      else if field 12 4 raw \<noteq> mb_slot_size mb \<or> field 16 4 raw \<noteq> mb_slot_count mb
        then Inl (ValueError ''spatial mailbox geometry does not match existing header'')
      else
        (let next_seq = field 20 8 raw; read_seq = field 28 8 raw in
         if read_seq < 1 \<or> next_seq < read_seq \<or> next_seq - read_seq > mb_slot_count mb
         then Inl (ValueError ''corrupt spatial mailbox sequence state'')
         else Inr (next_seq, read_seq)))"

definition header_bytes :: "mailbox \<Rightarrow> nat \<Rightarrow> nat \<Rightarrow> bytes" where
  "header_bytes mb next_seq read_seq =
     MB_MAGIC @ be_bytes 1 1 @ be_bytes 1 0 @ be_bytes 2 0 @ be_bytes 4 (mb_slot_size mb) @
     be_bytes 4 (mb_slot_count mb) @ be_bytes 8 next_seq @ be_bytes 8 read_seq"

definition mb_write_header :: "mailbox \<Rightarrow> nat \<Rightarrow> nat \<Rightarrow> bytes \<Rightarrow> bytes result" where
  "mb_write_header mb next_seq read_seq raw =
     (if mb_slot_size mb \<ge> 2 ^ 32 \<or> mb_slot_count mb \<ge> 2 ^ 32 \<or> next_seq \<ge> 2 ^ 64 \<or> read_seq \<ge> 2 ^ 64 \<or>
         length raw < MB_HEADER_SIZE
      then Inl (StructError ''argument out of range'')
      else Inr (splice 0 (header_bytes mb next_seq read_seq) raw))"

definition slot_offset :: "mailbox \<Rightarrow> nat \<Rightarrow> nat" where
  "slot_offset mb seq =
     MB_HEADER_SIZE + nat ((int seq - 1) mod int (mb_slot_count mb)) * mb_slot_size mb"

definition decode_slot :: "(bytes \<Rightarrow> bytes) \<Rightarrow> mailbox \<Rightarrow> bytes \<Rightarrow> nat \<Rightarrow> message result" where
  "decode_slot sha mb raw expected =
     (let off = slot_offset mb expected;
          seq = field off 8 raw; state = field (off + 8) 1 raw; payload_len = field (off + 9) 4 raw;
          sender_len = field (off + 13) 2 raw; recipient_len = field (off + 15) 2 raw;
          topic_len = field (off + 17) 2 raw; digest = slice (off + 19) 32 raw;
          total = sender_len + recipient_len + topic_len + payload_len
      in if state \<noteq> 1 \<or> seq \<noteq> expected then Inl (ValueError ''corrupt spatial mailbox slot sequence/state'')
         else if total > payload_capacity mb then Inl (ValueError ''corrupt spatial mailbox slot length'')
         else
           (let body = slice (off + SLOT_HEADER_SIZE) total raw;
                sender = take sender_len body;
                recipient = slice sender_len recipient_len body;
                topic = slice (sender_len + recipient_len) topic_len body;
                payload = drop (sender_len + recipient_len + topic_len) body
            in if digest \<noteq> message_digest sha seq sender recipient topic payload
               then Inl (ValueError ''spatial mailbox message digest mismatch'')
               else
                 (case (utf8_decode sender, utf8_decode recipient, utf8_decode topic) of
                    (Some s, Some r, Some t) \<Rightarrow>
                      Inr \<lparr>msg_sequence = seq, msg_sender = s, msg_recipient = r, msg_topic = t,
                           msg_payload = payload, msg_sha256 = hexdigest digest\<rparr>
                  | _ \<Rightarrow> Inl (ValueError ''spatial mailbox metadata is not valid UTF-8''))))"

definition slot_header :: "nat \<Rightarrow> nat \<Rightarrow> nat \<Rightarrow> nat \<Rightarrow> nat \<Rightarrow> bytes \<Rightarrow> bytes" where
  "slot_header seq payload_len sender_len recipient_len topic_len digest =
     be_bytes 8 seq @ be_bytes 1 1 @ be_bytes 4 payload_len @ be_bytes 2 sender_len @
     be_bytes 2 recipient_len @ be_bytes 2 topic_len @ take 32 (digest @ replicate 32 0)"

section \<open>Operations on the region image\<close>

definition enqueue_raw ::
    "(bytes \<Rightarrow> bytes) \<Rightarrow> mailbox \<Rightarrow> bytes \<Rightarrow> bytes \<Rightarrow> bytes \<Rightarrow> bytes \<Rightarrow> bytes \<Rightarrow> (nat \<times> bytes \<times> bytes) result" where
  "enqueue_raw sha mb payload sender recipient topic raw =
     rbind (mb_header mb raw) (\<lambda>(next_seq, read_seq).
       if next_seq - read_seq \<ge> mb_slot_count mb then Inl (BufferError ''spatial mailbox is full'')
       else
         (let digest = message_digest sha next_seq sender recipient topic payload;
              off = slot_offset mb next_seq;
              body = sender @ recipient @ topic @ payload;
              raw1 = splice off (slot_header next_seq (length payload) (length sender)
                       (length recipient) (length topic) digest) raw;
              raw2 = splice (off + SLOT_HEADER_SIZE) (replicate (payload_capacity mb) 0) raw1;
              raw3 = splice (off + SLOT_HEADER_SIZE) body raw2
          in rbind (mb_write_header mb (next_seq + 1) read_seq raw3) (\<lambda>raw4.
               Inr (next_seq, digest, raw4))))"

definition dequeue_raw :: "(bytes \<Rightarrow> bytes) \<Rightarrow> mailbox \<Rightarrow> bytes \<Rightarrow> (message \<times> bytes) option result" where
  "dequeue_raw sha mb raw =
     rbind (mb_header mb raw) (\<lambda>(next_seq, read_seq).
       if read_seq \<ge> next_seq then Inr None
       else rbind (decode_slot sha mb raw read_seq) (\<lambda>msg.
         (let raw1 = splice (slot_offset mb read_seq) (replicate (mb_slot_size mb) 0) raw
          in rbind (mb_write_header mb next_seq (read_seq + 1) raw1) (\<lambda>raw2. Inr (Some (msg, raw2))))))"

section \<open>Operations on the frame\<close>

definition mb_read_region :: "mailbox \<Rightarrow> frame \<Rightarrow> bytes result" where
  "mb_read_region mb f = read_bytes (int (mb_capacity mb)) (Some (mb_region mb)) 0 f"

definition mb_write_region :: "mailbox \<Rightarrow> bytes \<Rightarrow> frame \<Rightarrow> frame result" where
  "mb_write_region mb raw f =
     (if length raw \<noteq> mb_capacity mb then Inl (ValueError ''mailbox region image has incorrect size'')
      else write_bytes raw (Some (mb_region mb)) 0 f)"

definition ensure_header :: "mailbox \<Rightarrow> frame \<Rightarrow> frame result" where
  "ensure_header mb f =
     rbind (mb_read_region mb f) (\<lambda>raw.
       if slice 0 MB_HEADER_SIZE raw = replicate MB_HEADER_SIZE 0
       then rbind (mb_write_header mb 1 1 raw) (\<lambda>raw'. mb_write_region mb raw' f)
       else rbind (mb_header mb raw) (\<lambda>_. Inr f))"

definition mailbox_init :: "frame \<Rightarrow> string \<Rightarrow> int \<Rightarrow> (mailbox \<times> frame) result" where
  "mailbox_init f region slot_size =
     (if slot_size \<le> int SLOT_HEADER_SIZE then Inl (ValueError ''mailbox slot_size is too small'')
      else rbind (layout_region (f_layout f) (Some region)) (\<lambda>target.
        if rg_y target < execution_rows (f_layout f)
        then Inl (ValueError ''mailbox region overlaps execution plane'')
        else
          (let slot_count = (region_capacity_bytes target - int MB_HEADER_SIZE) div slot_size;
               mb = \<lparr>mb_region = region, mb_capacity = nat (region_capacity_bytes target),
                     mb_slot_size = nat slot_size, mb_slot_count = nat slot_count\<rparr>
           in if slot_count < 1 then Inl (ValueError ''mailbox region is too small for one slot'')
              else rbind (ensure_header mb f) (\<lambda>f'. Inr (mb, f')))))"

definition pending_count :: "mailbox \<Rightarrow> frame \<Rightarrow> nat result" where
  "pending_count mb f =
     rbind (mb_read_region mb f) (\<lambda>raw. rbind (mb_header mb raw) (\<lambda>(n, r). Inr (n - r)))"

record post =
  p_payload :: bytes
  p_sender :: ustr
  p_recipient :: ustr
  p_topic :: ustr

definition enqueue :: "(bytes \<Rightarrow> bytes) \<Rightarrow> mailbox \<Rightarrow> post \<Rightarrow> frame \<Rightarrow> (message \<times> frame) result" where
  "enqueue sha mb p f =
     rbind (utf8_encode (p_sender p)) (\<lambda>sender.
     rbind (utf8_encode (p_recipient p)) (\<lambda>recipient.
     rbind (utf8_encode (p_topic p)) (\<lambda>topic.
       if sender = [] \<or> recipient = [] then Inl (ValueError ''mailbox sender and recipient are required'')
       else if list_ex (\<lambda>b. length b > 65535) [sender, recipient, topic]
         then Inl (ValueError ''mailbox metadata field is too large'')
       else if length sender + length recipient + length topic + length (p_payload p) > payload_capacity mb
         then Inl (ValueError ''mailbox message exceeds slot payload capacity'')
       else
         rbind (mb_read_region mb f) (\<lambda>raw.
         rbind (enqueue_raw sha mb (p_payload p) sender recipient topic raw) (\<lambda>(seq, digest, raw').
         rbind (mb_write_region mb raw' f) (\<lambda>f'.
           Inr (\<lparr>msg_sequence = seq, msg_sender = p_sender p, msg_recipient = p_recipient p,
                 msg_topic = p_topic p, msg_payload = p_payload p, msg_sha256 = hexdigest digest\<rparr>, f')))))))"

definition peek :: "(bytes \<Rightarrow> bytes) \<Rightarrow> mailbox \<Rightarrow> frame \<Rightarrow> message option result" where
  "peek sha mb f =
     rbind (mb_read_region mb f) (\<lambda>raw.
     rbind (mb_header mb raw) (\<lambda>(next_seq, read_seq).
       if read_seq \<ge> next_seq then Inr None
       else rbind (decode_slot sha mb raw read_seq) (\<lambda>msg. Inr (Some msg))))"

definition dequeue :: "(bytes \<Rightarrow> bytes) \<Rightarrow> mailbox \<Rightarrow> frame \<Rightarrow> (message option \<times> frame) result" where
  "dequeue sha mb f =
     rbind (mb_read_region mb f) (\<lambda>raw.
     rbind (dequeue_raw sha mb raw) (\<lambda>r.
       case r of None \<Rightarrow> Inr (None, f)
       | Some (msg, raw') \<Rightarrow> rbind (mb_write_region mb raw' f) (\<lambda>f'. Inr (Some msg, f'))))"

section \<open>Geometry of the ring\<close>

definition mb_wf :: "mailbox \<Rightarrow> bool" where
  "mb_wf mb \<longleftrightarrow> SLOT_HEADER_SIZE < mb_slot_size mb \<and> 1 \<le> mb_slot_count mb \<and>
     MB_HEADER_SIZE + mb_slot_count mb * mb_slot_size mb \<le> mb_capacity mb \<and> mb_capacity mb < 2 ^ 32"

lemma mb_wf_bounds:
  assumes "mb_wf mb"
  shows "mb_slot_size mb < 2 ^ 32" "mb_slot_count mb < 2 ^ 32"
proof -
  have "mb_slot_size mb \<le> mb_slot_count mb * mb_slot_size mb" "mb_slot_count mb \<le> mb_slot_count mb * mb_slot_size mb"
    using assms by (simp_all add: mb_wf_def)
  moreover have "mb_slot_count mb * mb_slot_size mb < 2 ^ 32" using assms by (simp add: mb_wf_def)
  ultimately show "mb_slot_size mb < 2 ^ 32" "mb_slot_count mb < 2 ^ 32" by (simp_all only: order.strict_trans1)
qed

lemma slot_offset_eq:
  "1 \<le> seq \<Longrightarrow> slot_offset mb seq = MB_HEADER_SIZE + (seq - 1) mod mb_slot_count mb * mb_slot_size mb"
proof -
  assume "1 \<le> seq"
  then have "(int seq - 1) mod int (mb_slot_count mb) = int ((seq - 1) mod mb_slot_count mb)"
    by (simp add: of_nat_mod of_nat_diff)
  then show ?thesis by (simp add: slot_offset_def)
qed

lemma slot_bounds:
  assumes "mb_wf mb" "1 \<le> seq"
  shows "MB_HEADER_SIZE \<le> slot_offset mb seq" "slot_offset mb seq + mb_slot_size mb \<le> mb_capacity mb"
proof -
  show "MB_HEADER_SIZE \<le> slot_offset mb seq" using assms by (simp add: slot_offset_eq)
  have "(seq - 1) mod mb_slot_count mb < mb_slot_count mb" using assms by (simp add: mb_wf_def)
  then have "Suc ((seq - 1) mod mb_slot_count mb) * mb_slot_size mb \<le> mb_slot_count mb * mb_slot_size mb"
    by (intro mult_le_mono1) simp
  with assms show "slot_offset mb seq + mb_slot_size mb \<le> mb_capacity mb"
    by (simp add: slot_offset_eq mb_wf_def)
qed

lemma mod_window_inj:
  assumes "a mod n = b mod (n :: nat)" "a < b" "b < a + n"
  shows False
proof -
  have "n dvd b - a" using assms(1,2) by (metis less_imp_le mod_eq_dvd_iff_nat)
  with assms(2,3) show False by (auto dest: dvd_imp_le)
qed

lemma slot_disjoint:
  assumes "mb_wf mb" "1 \<le> s" "s < t" "t < s + mb_slot_count mb"
  shows "slot_offset mb s + mb_slot_size mb \<le> slot_offset mb t \<or> slot_offset mb t + mb_slot_size mb \<le> slot_offset mb s"
proof -
  let ?i = "(s - 1) mod mb_slot_count mb" and ?j = "(t - 1) mod mb_slot_count mb"
  have "?i \<noteq> ?j"
  proof
    assume eq: "?i = ?j"
    show False by (rule mod_window_inj [OF eq]) (use assms(2-4) in linarith)+
  qed
  then consider "Suc ?i \<le> ?j" | "Suc ?j \<le> ?i" by linarith
  then have "Suc ?i * mb_slot_size mb \<le> ?j * mb_slot_size mb \<or> Suc ?j * mb_slot_size mb \<le> ?i * mb_slot_size mb"
    by cases (simp_all only: mult_le_mono1 simp_thms)
  then show ?thesis using assms(2,3) by (auto simp: slot_offset_eq)
qed

section \<open>Reading what was packed\<close>

lemma field_slice: "k + n \<le> m \<Longrightarrow> field (off + k) n raw = field k n (slice off m raw)"
  by (simp add: field_def slice_slice)

lemma length_header_bytes [simp]: "length (header_bytes mb n r) = MB_HEADER_SIZE"
  by (simp add: header_bytes_def MB_HEADER_SIZE_def MB_MAGIC_def)

lemma header_roundtrip:
  assumes "mb_wf mb" "length raw = mb_capacity mb" "1 \<le> r" "r \<le> n" "n - r \<le> mb_slot_count mb" "n < 2 ^ 64"
  shows "mb_header mb (splice 0 (header_bytes mb n r) raw) = Inr (n, r)"
proof -
  have len: "36 \<le> length raw" using assms(1,2) by (simp add: mb_wf_def MB_HEADER_SIZE_def)
  have sl: "slice o' k (splice 0 (header_bytes mb n r) raw) = slice o' k (header_bytes mb n r)" if "o' + k \<le> 36" for o' k
    using that len slice_splice_within [of 0 "header_bytes mb n r" raw o' k] by (simp add: MB_HEADER_SIZE_def)
  have "slice 0 8 (header_bytes mb n r) = MB_MAGIC" "slice 8 1 (header_bytes mb n r) = be_bytes 1 1"
    "slice 9 1 (header_bytes mb n r) = be_bytes 1 0" "slice 10 2 (header_bytes mb n r) = be_bytes 2 0"
    "slice 12 4 (header_bytes mb n r) = be_bytes 4 (mb_slot_size mb)"
    "slice 16 4 (header_bytes mb n r) = be_bytes 4 (mb_slot_count mb)"
    "slice 20 8 (header_bytes mb n r) = be_bytes 8 n" "slice 28 8 (header_bytes mb n r) = be_bytes 8 r"
    by (simp_all add: slice_def header_bytes_def MB_MAGIC_def)
  note h = this
  show ?thesis
    using assms len mb_wf_bounds [OF assms(1)]
    by (simp add: mb_header_def field_def sl h MB_HEADER_SIZE_def Let_def del: One_nat_def)
qed

lemma decode_slot_cong:
  assumes "SLOT_HEADER_SIZE \<le> mb_slot_size mb"
    "slice (slot_offset mb s) (mb_slot_size mb) raw = slice (slot_offset mb s) (mb_slot_size mb) raw'"
  shows "decode_slot sha mb raw s = decode_slot sha mb raw' s"
proof -
  let ?o = "slot_offset mb s"
  have sl: "slice (?o + k) n raw = slice (?o + k) n raw'" if "k + n \<le> mb_slot_size mb" for k n
    using arg_cong [OF assms(2), of "slice k n"] that by (simp add: slice_slice)
  have f: "field (?o + k) n raw = field (?o + k) n raw'" if "k + n \<le> mb_slot_size mb" for k n
    using sl [OF that] by (simp add: field_def)
  have b: "51 \<le> mb_slot_size mb" using assms(1) by (simp add: SLOT_HEADER_SIZE_def)
  have e: "field ?o 8 raw = field ?o 8 raw'" "field (?o + 8) 1 raw = field (?o + 8) 1 raw'"
    "field (?o + 9) 4 raw = field (?o + 9) 4 raw'" "field (?o + 13) 2 raw = field (?o + 13) 2 raw'"
    "field (?o + 15) 2 raw = field (?o + 15) 2 raw'" "field (?o + 17) 2 raw = field (?o + 17) 2 raw'"
    "slice (?o + 19) 32 raw = slice (?o + 19) 32 raw'"
    using f [of 0 8] f [of 8 1] f [of 9 4] f [of 13 2] f [of 15 2] f [of 17 2] sl [of 19 32] b by simp_all
  have body: "slice (?o + SLOT_HEADER_SIZE) n raw = slice (?o + SLOT_HEADER_SIZE) n raw'" if "n \<le> payload_capacity mb" for n
    using that assms(1) by (intro sl) (simp add: payload_capacity_def)
  let ?tot = "field (?o + 13) 2 raw' + field (?o + 15) 2 raw' + field (?o + 17) 2 raw' + field (?o + 9) 4 raw'"
  show ?thesis
  proof (cases "?tot \<le> payload_capacity mb")
    case True
    show ?thesis unfolding decode_slot_def Let_def e body [OF True] ..
  next
    case False
    then show ?thesis unfolding decode_slot_def Let_def e by simp
  qed
qed

lemma length_slot_header [simp]: "length (slot_header s p a b c d) = SLOT_HEADER_SIZE"
  by (simp add: slot_header_def SLOT_HEADER_SIZE_def)

text \<open>The three assignments of \<open>enqueue\<close> to a slot amount to one.\<close>

lemma slot_splices:
  assumes "off + h + pc \<le> length raw" "length hdr = h" "length body \<le> pc"
  shows "splice (off + h) body (splice (off + h) (replicate pc 0) (splice off hdr raw)) =
    splice off (hdr @ body @ replicate (pc - length body) 0) raw"
  by (rule nth_equalityI) (use assms in \<open>auto simp: nth_splice nth_append\<close>)

lemma decode_written_slot:
  assumes "mb_wf mb" "1 \<le> s" "s < 2 ^ 64" "length raw = mb_capacity mb" "\<And>x. length (sha x) = 32"
    "length sender \<le> 65535" "length recipient \<le> 65535" "length topic \<le> 65535"
    "length sender + length recipient + length topic + length payload \<le> payload_capacity mb"
    "utf8_decode sender = Some us" "utf8_decode recipient = Some ur" "utf8_decode topic = Some ut"
  defines "d \<equiv> message_digest sha s sender recipient topic payload"
  defines "body \<equiv> sender @ recipient @ topic @ payload"
  shows "decode_slot sha mb (splice (slot_offset mb s)
      (slot_header s (length payload) (length sender) (length recipient) (length topic) d @ body @
       replicate (payload_capacity mb - length body) 0) raw) s =
    Inr \<lparr>msg_sequence = s, msg_sender = us, msg_recipient = ur, msg_topic = ut, msg_payload = payload,
         msg_sha256 = hexdigest d\<rparr>"
proof -
  let ?o = "slot_offset mb s"
  let ?h = "slot_header s (length payload) (length sender) (length recipient) (length topic) d"
  let ?slot = "?h @ body @ replicate (payload_capacity mb - length body) 0"
  let ?raw = "splice ?o ?slot raw"
  have sz: "length ?slot = mb_slot_size mb"
    using assms(1,9) unfolding payload_capacity_def mb_wf_def body_def by simp linarith
  have cap: "?o + length ?slot \<le> length raw"
    using slot_bounds(2) [OF assms(1,2)] sz assms(4) by simp
  have sl: "slice (?o + k) n ?raw = slice k n ?slot" if "k + n \<le> mb_slot_size mb" for k n
    using slice_splice_within [OF cap, of "?o + k" n] that sz by simp
  have d32: "length d = 32" by (simp add: d_def message_digest_def assms(5))
  have m: "51 < mb_slot_size mb" "mb_slot_size mb < 2 ^ 32"
    using assms(1) mb_wf_bounds [OF assms(1)] by (simp_all add: mb_wf_def SLOT_HEADER_SIZE_def)
  have p: "length payload < 2 ^ 32" using assms(9) m by (simp add: payload_capacity_def)
  have h: "slice 0 8 ?slot = be_bytes 8 s" "slice 8 1 ?slot = be_bytes 1 1"
    "slice 9 4 ?slot = be_bytes 4 (length payload)" "slice 13 2 ?slot = be_bytes 2 (length sender)"
    "slice 15 2 ?slot = be_bytes 2 (length recipient)" "slice 17 2 ?slot = be_bytes 2 (length topic)"
    "slice 19 32 ?slot = d"
    using d32 by (simp_all add: slice_def slot_header_def)
  have body: "slice (?o + SLOT_HEADER_SIZE) (length body) ?raw = body"
    using sl [of SLOT_HEADER_SIZE "length body"] sz by (simp add: slice_def)
  have tot: "length body = length sender + length recipient + length topic + length payload"
    by (simp add: body_def)
  have fs: "field ?o 8 ?raw = s" "field (?o + 8) 1 ?raw = 1" "field (?o + 9) 4 ?raw = length payload"
    "field (?o + 13) 2 ?raw = length sender" "field (?o + 15) 2 ?raw = length recipient"
    "field (?o + 17) 2 ?raw = length topic" "slice (?o + 19) 32 ?raw = d"
    using sl [of 0 8] sl [of 8 1] sl [of 9 4] sl [of 13 2] sl [of 15 2] sl [of 17 2] sl [of 19 32]
      h m assms(3,6,7,8) p by (simp_all add: field_def)
  have parts: "take (length sender) body = sender" "slice (length sender) (length recipient) body = recipient"
    "slice (length sender + length recipient) (length topic) body = topic"
    "drop (length sender + length recipient + length topic) body = payload"
    by (simp_all add: body_def slice_def)
  show ?thesis
    unfolding decode_slot_def Let_def fs tot [symmetric] body parts
    using assms(9,10,11,12) tot by (simp add: d_def)
qed

section \<open>The region image as a queue\<close>

text \<open>The image holds the messages \<open>ms\<close>, numbered \<open>r, r + 1, \<dots>\<close>; the next one gets number \<open>n\<close>.\<close>

definition q_ok :: "(bytes \<Rightarrow> bytes) \<Rightarrow> mailbox \<Rightarrow> bytes \<Rightarrow> nat \<Rightarrow> nat \<Rightarrow> message list \<Rightarrow> bool" where
  "q_ok sha mb raw n r ms \<longleftrightarrow> mb_wf mb \<and> length raw = mb_capacity mb \<and> mb_header mb raw = Inr (n, r) \<and>
     1 \<le> r \<and> n = r + length ms \<and> length ms \<le> mb_slot_count mb \<and> n < 2 ^ 64 \<and>
     (\<forall>i < length ms. decode_slot sha mb raw (r + i) = Inr (ms ! i))"

lemma decode_header_write:
  assumes "mb_wf mb" "1 \<le> s" "length raw = mb_capacity mb"
  shows "decode_slot sha mb (splice 0 (header_bytes mb n r) raw) s = decode_slot sha mb raw s"
proof (rule decode_slot_cong)
  show "SLOT_HEADER_SIZE \<le> mb_slot_size mb" using assms(1) by (simp add: mb_wf_def)
  show "slice (slot_offset mb s) (mb_slot_size mb) (splice 0 (header_bytes mb n r) raw) =
      slice (slot_offset mb s) (mb_slot_size mb) raw"
    using slot_bounds [OF assms(1,2)] assms(3) by (intro slice_splice_disjoint) auto
qed

lemma decode_other_slot:
  assumes "mb_wf mb" "1 \<le> s" "1 \<le> t" "s \<noteq> t" "s < t + mb_slot_count mb" "t < s + mb_slot_count mb"
    "length raw = mb_capacity mb" "length ys = mb_slot_size mb"
  shows "decode_slot sha mb (splice (slot_offset mb t) ys raw) s = decode_slot sha mb raw s"
proof (rule decode_slot_cong)
  show "SLOT_HEADER_SIZE \<le> mb_slot_size mb" using assms(1) by (simp add: mb_wf_def)
  have "slot_offset mb s + mb_slot_size mb \<le> slot_offset mb t \<or> slot_offset mb t + mb_slot_size mb \<le> slot_offset mb s"
    using slot_disjoint [OF assms(1,2), of t] slot_disjoint [OF assms(1,3), of s] assms(4-6)
    by (cases s t rule: linorder_cases) auto
  then show "slice (slot_offset mb s) (mb_slot_size mb) (splice (slot_offset mb t) ys raw) =
      slice (slot_offset mb s) (mb_slot_size mb) raw"
    using slot_bounds(2) [OF assms(1,2)] slot_bounds(2) [OF assms(1,3)] assms(7,8)
    by (intro slice_splice_disjoint) auto
qed

lemma write_header_ok:
  assumes "mb_wf mb" "length raw = mb_capacity mb" "n < 2 ^ 64" "r \<le> n"
  shows "mb_write_header mb n r raw = Inr (splice 0 (header_bytes mb n r) raw)"
  using assms mb_wf_bounds [OF assms(1)]
  by (auto simp: mb_write_header_def mb_wf_def)

lemma enqueue_raw_ok:
  assumes q: "q_ok sha mb raw n r ms" and sp: "length ms < mb_slot_count mb" "n + 1 < 2 ^ 64"
    and sha: "\<And>x. length (sha x) = 32"
    and f: "length sender \<le> 65535" "length recipient \<le> 65535" "length topic \<le> 65535"
      "length sender + length recipient + length topic + length payload \<le> payload_capacity mb"
    and u: "utf8_decode sender = Some us" "utf8_decode recipient = Some ur" "utf8_decode topic = Some ut"
  defines "d \<equiv> message_digest sha n sender recipient topic payload"
  shows "\<exists>raw'. enqueue_raw sha mb payload sender recipient topic raw = Inr (n, d, raw') \<and>
    q_ok sha mb raw' (n + 1) r (ms @ [\<lparr>msg_sequence = n, msg_sender = us, msg_recipient = ur, msg_topic = ut,
      msg_payload = payload, msg_sha256 = hexdigest d\<rparr>])"
proof -
  have wf: "mb_wf mb" and len: "length raw = mb_capacity mb" and hd: "mb_header mb raw = Inr (n, r)"
    and r1: "1 \<le> r" and n: "n = r + length ms" and dec: "\<And>i. i < length ms \<Longrightarrow> decode_slot sha mb raw (r + i) = Inr (ms ! i)"
    using q by (simp_all add: q_ok_def)
  let ?o = "slot_offset mb n"
  let ?h = "slot_header n (length payload) (length sender) (length recipient) (length topic) d"
  let ?body = "sender @ recipient @ topic @ payload"
  let ?slot = "?h @ ?body @ replicate (payload_capacity mb - length ?body) 0"
  let ?m = "\<lparr>msg_sequence = n, msg_sender = us, msg_recipient = ur, msg_topic = ut, msg_payload = payload, msg_sha256 = hexdigest d\<rparr>"
  have n1: "1 \<le> n" using r1 n by simp
  have pc: "SLOT_HEADER_SIZE + payload_capacity mb = mb_slot_size mb"
    using wf by (simp add: payload_capacity_def mb_wf_def)
  have sz: "length ?slot = mb_slot_size mb" using pc f(4) by simp
  have cap: "?o + mb_slot_size mb \<le> length raw" using slot_bounds(2) [OF wf n1] len by simp
  have sps: "splice (?o + SLOT_HEADER_SIZE) ?body (splice (?o + SLOT_HEADER_SIZE) (replicate (payload_capacity mb) 0)
      (splice ?o ?h raw)) = splice ?o ?slot raw"
    using cap pc f(4) by (intro slot_splices) auto
  let ?raw3 = "splice ?o ?slot raw"
  have len3: "length ?raw3 = mb_capacity mb" using cap sz len by simp
  let ?raw4 = "splice 0 (header_bytes mb (n + 1) r) ?raw3"
  have len4: "length ?raw4 = mb_capacity mb" using len3 wf by (simp add: mb_wf_def)
  have "enqueue_raw sha mb payload sender recipient topic raw = Inr (n, d, ?raw4)"
  proof -
    have room: "\<not> mb_slot_count mb \<le> n - r" using sp(1) n by simp
    have "r \<le> n + 1" using n by simp
    note wh = write_header_ok [OF wf len3 sp(2) this]
    show ?thesis
      unfolding enqueue_raw_def hd rbind_simps prod.case Let_def d_def [symmetric] sps wh
      using room by simp
  qed
  moreover have "decode_slot sha mb ?raw4 (r + i) = Inr ((ms @ [?m]) ! i)" if "i < length (ms @ [?m])" for i
  proof (cases "i < length ms")
    case True
    then have "decode_slot sha mb ?raw3 (r + i) = decode_slot sha mb raw (r + i)"
      using n sp r1 n1 sz len by (intro decode_other_slot [OF wf]) auto
    with True dec r1 len3 decode_header_write [OF wf, of "r + i" ?raw3] show ?thesis by (simp add: nth_append)
  next
    case False
    then have i: "i = length ms" using that by simp
    have "decode_slot sha mb ?raw3 n = Inr ?m"
      using decode_written_slot [OF wf n1 _ len sha f u] sp(2) by (simp add: d_def)
    with i n n1 len3 decode_header_write [OF wf n1, of ?raw3] show ?thesis by simp
  qed
  ultimately show ?thesis
    using wf len4 header_roundtrip [OF wf len3 r1, of "n + 1"] sp n r1 by (simp add: q_ok_def)
qed

lemma enqueue_raw_full:
  "q_ok sha mb raw n r ms \<Longrightarrow> length ms = mb_slot_count mb \<Longrightarrow>
   enqueue_raw sha mb payload sender recipient topic raw = Inl (BufferError ''spatial mailbox is full'')"
  by (simp add: q_ok_def enqueue_raw_def)

lemma dequeue_raw_empty: "q_ok sha mb raw n r [] \<Longrightarrow> dequeue_raw sha mb raw = Inr None"
  by (simp add: q_ok_def dequeue_raw_def)

lemma dequeue_raw_ok:
  assumes q: "q_ok sha mb raw n r (m # ms)"
  shows "\<exists>raw'. dequeue_raw sha mb raw = Inr (Some (m, raw')) \<and> q_ok sha mb raw' n (r + 1) ms"
proof -
  have wf: "mb_wf mb" and len: "length raw = mb_capacity mb" and hd: "mb_header mb raw = Inr (n, r)"
    and r1: "1 \<le> r" and n: "n = r + length (m # ms)" "n < 2 ^ 64" "length (m # ms) \<le> mb_slot_count mb"
    and dec: "\<And>i. i < length (m # ms) \<Longrightarrow> decode_slot sha mb raw (r + i) = Inr ((m # ms) ! i)"
    using q by (simp_all add: q_ok_def)
  let ?raw1 = "splice (slot_offset mb r) (replicate (mb_slot_size mb) 0) raw"
  have len1: "length ?raw1 = mb_capacity mb" using slot_bounds(2) [OF wf r1] len by simp
  let ?raw2 = "splice 0 (header_bytes mb n (r + 1)) ?raw1"
  have len2: "length ?raw2 = mb_capacity mb" using len1 wf by (simp add: mb_wf_def)
  have "dequeue_raw sha mb raw = Inr (Some (m, ?raw2))"
    using n dec [of 0] write_header_ok [OF wf len1 n(2), of "r + 1"] by (simp add: dequeue_raw_def hd)
  moreover have "decode_slot sha mb ?raw2 (r + 1 + i) = Inr (ms ! i)" if "i < length ms" for i
  proof -
    have "decode_slot sha mb ?raw1 (r + 1 + i) = decode_slot sha mb raw (r + 1 + i)"
      using that n r1 len by (intro decode_other_slot [OF wf]) auto
    then show ?thesis
      using that dec [of "Suc i"] r1 len1 decode_header_write [OF wf, of "r + 1 + i" ?raw1] by simp
  qed
  ultimately show ?thesis
    using wf len2 header_roundtrip [OF wf len1, of "r + 1" n] n r1 by (simp add: q_ok_def)
qed

section \<open>The queue contract\<close>

text \<open>Enqueue a list of inputs; dequeue \<open>n\<close> times.\<close>

fun feed :: "('i \<Rightarrow> 's \<Rightarrow> ('m \<times> 's) result) \<Rightarrow> 'i list \<Rightarrow> 's \<Rightarrow> ('m list \<times> 's) result" where
  "feed enq [] s = Inr ([], s)"
| "feed enq (i # is) s =
     rbind (enq i s) (\<lambda>(m, s'). rbind (feed enq is s') (\<lambda>(ms, s''). Inr (m # ms, s'')))"

fun drain :: "('s \<Rightarrow> ('m option \<times> 's) result) \<Rightarrow> nat \<Rightarrow> 's \<Rightarrow> ('m option list \<times> 's) result" where
  "drain deq 0 s = Inr ([], s)"
| "drain deq (Suc n) s =
     rbind (deq s) (\<lambda>(m, s'). rbind (drain deq n s') (\<lambda>(ms, s''). Inr (m # ms, s'')))"

text \<open>
  A bounded FIFO queue: \<open>rep s ms k\<close> says that state \<open>s\<close> holds the messages \<open>ms\<close>, oldest first,
  and has \<open>k\<close> sequence numbers left; \<open>carries i m\<close> that message \<open>m\<close> has the contents of input \<open>i\<close>.
\<close>

locale fifo =
  fixes rep :: "'s \<Rightarrow> 'm list \<Rightarrow> nat \<Rightarrow> bool"
    and bound :: nat
    and valid :: "'i \<Rightarrow> bool"
    and carries :: "'i \<Rightarrow> 'm \<Rightarrow> bool"
    and enq :: "'i \<Rightarrow> 's \<Rightarrow> ('m \<times> 's) result"
    and deq :: "'s \<Rightarrow> ('m option \<times> 's) result"
  assumes enq_room: "rep s ms (Suc k) \<Longrightarrow> valid i \<Longrightarrow> length ms < bound \<Longrightarrow>
      \<exists>m s'. enq i s = Inr (m, s') \<and> carries i m \<and> rep s' (ms @ [m]) k"
    and enq_full: "rep s ms k \<Longrightarrow> valid i \<Longrightarrow> length ms = bound \<Longrightarrow> \<exists>e. enq i s = Inl (BufferError e)"
    and deq_empty: "rep s [] k \<Longrightarrow> deq s = Inr (None, s)"
    and deq_cons: "rep s (m # ms) k \<Longrightarrow> \<exists>s'. deq s = Inr (Some m, s') \<and> rep s' ms k"
begin

lemma feed_appends:
  "rep s ms k \<Longrightarrow> list_all valid is \<Longrightarrow> length ms + length is \<le> bound \<Longrightarrow> length is \<le> k \<Longrightarrow>
   \<exists>out s'. feed enq is s = Inr (out, s') \<and> list_all2 carries is out \<and> rep s' (ms @ out) (k - length is)"
proof (induction "is" arbitrary: s ms k)
  case (Cons i "is")
  then obtain k' where k: "k = Suc k'" by (cases k) auto
  with Cons.prems enq_room [of s ms k' i] obtain m s1
    where s1: "enq i s = Inr (m, s1)" "carries i m" "rep s1 (ms @ [m]) k'" by auto
  from Cons.IH [OF s1(3)] Cons.prems k obtain out s'
    where "feed enq is s1 = Inr (out, s')" "list_all2 carries is out" "rep s' (ms @ m # out) (k' - length is)"
    by auto
  with s1 k show ?case by auto
qed auto

lemma drain_takes:
  "rep s (ms @ rest) k \<Longrightarrow> \<exists>s'. drain deq (length ms) s = Inr (map Some ms, s') \<and> rep s' rest k"
proof (induction ms arbitrary: s)
  case (Cons m ms)
  then obtain s1 where s1: "deq s = Inr (Some m, s1)" "rep s1 (ms @ rest) k"
    using deq_cons [of s m "ms @ rest" k] by auto
  from Cons.IH [OF s1(2)] s1(1) show ?case by auto
qed auto

lemma feed_then_drain:
  assumes "rep s ms k" "list_all valid is" "length ms + length is \<le> bound" "length is \<le> k"
  shows "\<exists>out s1 s2. feed enq is s = Inr (out, s1) \<and> list_all2 carries is out \<and>
    drain deq (length ms + length is) s1 = Inr (map Some (ms @ out), s2) \<and> deq s2 = Inr (None, s2)"
proof -
  obtain out s1 where s1: "feed enq is s = Inr (out, s1)" "list_all2 carries is out"
    "rep s1 (ms @ out) (k - length is)"
    using feed_appends [OF assms] by blast
  moreover have "length (ms @ out) = length ms + length is"
    using list_all2_lengthD [OF s1(2)] by simp
  moreover obtain s2 where "drain deq (length (ms @ out)) s1 = Inr (map Some (ms @ out), s2)" "rep s2 [] (k - length is)"
    using drain_takes [of s1 "ms @ out" "[]"] s1(3) by auto
  ultimately show ?thesis using deq_empty by metis
qed

end

section \<open>The mailbox is a queue\<close>

definition mailbox_rep :: "(bytes \<Rightarrow> bytes) \<Rightarrow> mailbox \<Rightarrow> frame \<Rightarrow> message list \<Rightarrow> nat \<Rightarrow> bool" where
  "mailbox_rep sha mb f ms k \<longleftrightarrow> (\<forall>x. length (sha x) = 32) \<and> frame_ok f \<and>
     (\<exists>raw n r. mb_read_region mb f = Inr raw \<and> q_ok sha mb raw n r ms \<and> n + k + 1 = 2 ^ 64)"

definition post_valid :: "mailbox \<Rightarrow> post \<Rightarrow> bool" where
  "post_valid mb p \<longleftrightarrow>
     (case (utf8_encode (p_sender p), utf8_encode (p_recipient p), utf8_encode (p_topic p)) of
        (Inr a, Inr b, Inr c) \<Rightarrow> a \<noteq> [] \<and> b \<noteq> [] \<and> length a \<le> 65535 \<and> length b \<le> 65535 \<and> length c \<le> 65535 \<and>
          length a + length b + length c + length (p_payload p) \<le> payload_capacity mb
      | _ \<Rightarrow> False)"

definition post_carried :: "post \<Rightarrow> message \<Rightarrow> bool" where
  "post_carried p m \<longleftrightarrow> msg_payload m = p_payload p \<and> msg_sender m = p_sender p \<and>
     msg_recipient m = p_recipient p \<and> msg_topic m = p_topic p"

lemma mb_write_ok:
  assumes "frame_ok f" "mb_read_region mb f = Inr raw" "length raw' = mb_capacity mb"
  shows "\<exists>f'. mb_write_region mb raw' f = Inr f' \<and> frame_ok f' \<and> mb_read_region mb f' = Inr raw'"
proof -
  obtain r where r: "layout_region (f_layout f) (Some (mb_region mb)) = Inr r"
    "int (mb_capacity mb) \<le> region_capacity_bytes r"
    using assms(2) by (auto simp: mb_read_region_def read_bytes_def split: if_splits)
  obtain f' where w: "write_bytes raw' (Some (mb_region mb)) 0 f = Inr f'"
    using write_bytes_fits [OF assms(1) r(1), of 0 raw'] r(2) assms(3) by auto
  moreover have "frame_ok f'"
    using write_bytes_spec [OF assms(1), where raw = raw' and name = "Some (mb_region mb)" and off = 0] w
    by (auto simp: tracked_def)
  moreover have "mb_read_region mb f' = Inr raw'"
    using read_after_write(1) [OF assms(1) w] assms(3) by (simp add: mb_read_region_def)
  ultimately show ?thesis using assms(3) by (simp add: mb_write_region_def)
qed

lemma post_validD:
  assumes "post_valid mb p"
  obtains a b c where "utf8_encode (p_sender p) = Inr a" "utf8_encode (p_recipient p) = Inr b"
    "utf8_encode (p_topic p) = Inr c" "a \<noteq> []" "b \<noteq> []" "length a \<le> 65535" "length b \<le> 65535"
    "length c \<le> 65535" "length a + length b + length c + length (p_payload p) \<le> payload_capacity mb"
  using assms unfolding post_valid_def by (auto split: sum.splits)

text \<open>Once the input is validated, an enqueue is the update of the region image.\<close>

lemma enqueue_validated:
  assumes "utf8_encode (p_sender p) = Inr a" "utf8_encode (p_recipient p) = Inr b"
    "utf8_encode (p_topic p) = Inr c" "a \<noteq> []" "b \<noteq> []" "length a \<le> 65535" "length b \<le> 65535"
    "length c \<le> 65535" "length a + length b + length c + length (p_payload p) \<le> payload_capacity mb"
    "mb_read_region mb f = Inr raw"
  shows "enqueue sha mb p f =
    rbind (enqueue_raw sha mb (p_payload p) a b c raw) (\<lambda>(seq, digest, raw').
    rbind (mb_write_region mb raw' f) (\<lambda>f'.
      Inr (\<lparr>msg_sequence = seq, msg_sender = p_sender p, msg_recipient = p_recipient p,
            msg_topic = p_topic p, msg_payload = p_payload p, msg_sha256 = hexdigest digest\<rparr>, f')))"
  using assms by (simp add: enqueue_def)

interpretation mbq: fifo "mailbox_rep sha mb" "mb_slot_count mb" "post_valid mb" post_carried
  "enqueue sha mb" "dequeue sha mb" for sha mb
proof unfold_locales
  fix f ms k p
  assume rep: "mailbox_rep sha mb f ms (Suc k)" and v: "post_valid mb p" and room: "length ms < mb_slot_count mb"
  from v obtain a b c where p: "utf8_encode (p_sender p) = Inr a" "utf8_encode (p_recipient p) = Inr b"
    "utf8_encode (p_topic p) = Inr c" "a \<noteq> []" "b \<noteq> []" "length a \<le> 65535" "length b \<le> 65535"
    "length c \<le> 65535" "length a + length b + length c + length (p_payload p) \<le> payload_capacity mb"
    by (rule post_validD)
  from rep obtain raw n r where sha: "\<And>x. length (sha x) = 32" and ok: "frame_ok f"
    and rd: "mb_read_region mb f = Inr raw" and q: "q_ok sha mb raw n r ms" and k: "n + Suc k + 1 = 2 ^ 64"
    by (auto simp: mailbox_rep_def)
  have n1: "n + 1 < 2 ^ 64" using k by simp
  obtain raw' where e: "enqueue_raw sha mb (p_payload p) a b c raw =
      Inr (n, message_digest sha n a b c (p_payload p), raw')"
    and q': "q_ok sha mb raw' (n + 1) r (ms @ [\<lparr>msg_sequence = n, msg_sender = p_sender p,
      msg_recipient = p_recipient p, msg_topic = p_topic p, msg_payload = p_payload p,
      msg_sha256 = hexdigest (message_digest sha n a b c (p_payload p))\<rparr>])"
    using enqueue_raw_ok [OF q room n1 sha p(6-9) p(1-3) [THEN utf8_roundtrip]] by blast
  have "length raw' = mb_capacity mb" using q' by (simp add: q_ok_def)
  then obtain f' where f': "mb_write_region mb raw' f = Inr f'" "frame_ok f'" "mb_read_region mb f' = Inr raw'"
    using mb_write_ok [OF ok rd] by blast
  have "n + 1 + k + 1 = 2 ^ 64" using k by simp
  with f' q' sha have "mailbox_rep sha mb f' (ms @ [\<lparr>msg_sequence = n, msg_sender = p_sender p,
      msg_recipient = p_recipient p, msg_topic = p_topic p, msg_payload = p_payload p,
      msg_sha256 = hexdigest (message_digest sha n a b c (p_payload p))\<rparr>]) k"
    unfolding mailbox_rep_def by blast
  then show "\<exists>m s'. enqueue sha mb p f = Inr (m, s') \<and> post_carried p m \<and> mailbox_rep sha mb s' (ms @ [m]) k"
    using f'(1) e by (simp add: enqueue_validated [OF p rd] post_carried_def)
next
  fix f ms k p
  assume rep: "mailbox_rep sha mb f ms k" and v: "post_valid mb p" and full: "length ms = mb_slot_count mb"
  from v obtain a b c where p: "utf8_encode (p_sender p) = Inr a" "utf8_encode (p_recipient p) = Inr b"
    "utf8_encode (p_topic p) = Inr c" "a \<noteq> []" "b \<noteq> []" "length a \<le> 65535" "length b \<le> 65535"
    "length c \<le> 65535" "length a + length b + length c + length (p_payload p) \<le> payload_capacity mb"
    by (rule post_validD)
  from rep full show "\<exists>e. enqueue sha mb p f = Inl (BufferError e)"
    by (auto simp: mailbox_rep_def enqueue_validated [OF p] enqueue_raw_full)
next
  fix f k
  assume "mailbox_rep sha mb f [] k"
  then show "dequeue sha mb f = Inr (None, f)"
    by (auto simp: mailbox_rep_def dequeue_def dequeue_raw_empty)
next
  fix f m ms k
  assume "mailbox_rep sha mb f (m # ms) k"
  then obtain raw n r where sha: "\<And>x. length (sha x) = 32" and ok: "frame_ok f"
    and rd: "mb_read_region mb f = Inr raw" and q: "q_ok sha mb raw n r (m # ms)" and k: "n + k + 1 = 2 ^ 64"
    by (auto simp: mailbox_rep_def)
  obtain raw' where d: "dequeue_raw sha mb raw = Inr (Some (m, raw'))" and q': "q_ok sha mb raw' n (r + 1) ms"
    using dequeue_raw_ok [OF q] by blast
  have "length raw' = mb_capacity mb" using q' by (simp add: q_ok_def)
  then obtain f' where f': "mb_write_region mb raw' f = Inr f'" "frame_ok f'" "mb_read_region mb f' = Inr raw'"
    using mb_write_ok [OF ok rd] by blast
  with q' sha k have "mailbox_rep sha mb f' ms k" unfolding mailbox_rep_def by blast
  then show "\<exists>s'. dequeue sha mb f = Inr (Some m, s') \<and> mailbox_rep sha mb s' ms k"
    using rd d f'(1) by (simp add: dequeue_def)
qed

section \<open>Opening a mailbox\<close>

lemma region_capacity_bound:
  assumes "layout_ok L" "layout_region L name = Inr r"
  shows "region_capacity_bytes r \<le> 3 * MAX_SPATIAL_CELLS"
proof -
  note b = layout_region_bounds [OF assms]
  have "rg_width r * rg_height r \<le> lwidth L * lheight L"
    using b by (intro mult_mono) linarith+
  also have "\<dots> \<le> MAX_SPATIAL_CELLS" using assms(1) by (simp add: layout_ok_def total_cells_def)
  finally show ?thesis by (simp add: region_capacity_bytes_def region_cells_def)
qed

lemma mailbox_init_wf:
  assumes "layout_ok (f_layout f)" "mailbox_init f region sz = Inr (mb, f')"
  shows "mb_wf mb \<and> mb_region mb = region \<and> ensure_header mb f = Inr f' \<and>
    (\<exists>r. layout_region (f_layout f) (Some region) = Inr r \<and> execution_rows (f_layout f) \<le> rg_y r \<and>
      int (mb_capacity mb) = region_capacity_bytes r)"
proof -
  obtain r where r: "layout_region (f_layout f) (Some region) = Inr r" "\<not> rg_y r < execution_rows (f_layout f)"
    and sz: "51 < sz" and c: "\<not> (region_capacity_bytes r - 36) div sz < 1"
    and mb: "mb = \<lparr>mb_region = region, mb_capacity = nat (region_capacity_bytes r), mb_slot_size = nat sz,
      mb_slot_count = nat ((region_capacity_bytes r - 36) div sz)\<rparr>"
    and eh: "ensure_header mb f = Inr f'"
    using assms(2)
    by (auto simp: mailbox_init_def Let_def MB_HEADER_SIZE_def SLOT_HEADER_SIZE_def split: if_splits)
  let ?cap = "region_capacity_bytes r" and ?n = "(region_capacity_bytes r - 36) div sz"
  have n: "1 \<le> ?n" using c by simp
  have "?n * sz \<le> ?cap - 36" using sz by (simp add: minus_mod_eq_div_mult [symmetric])
  moreover have "0 \<le> ?n * sz" using n sz by simp
  ultimately have cap: "36 + ?n * sz \<le> ?cap" "0 \<le> ?cap" by linarith+
  have "nat ?n * nat sz = nat (?n * sz)" using n sz by (simp add: nat_mult_distrib)
  then have "36 + nat ?n * nat sz \<le> nat ?cap" using cap \<open>0 \<le> ?n * sz\<close> by linarith
  moreover have "?cap < 2 ^ 32"
    using region_capacity_bound [OF assms(1) r(1)] by (simp add: MAX_SPATIAL_CELLS_def)
  ultimately have "mb_wf mb"
    using sz n unfolding mb by (simp add: mb_wf_def MB_HEADER_SIZE_def SLOT_HEADER_SIZE_def nat_less_iff) linarith
  with r cap eh show ?thesis by (simp add: mb)
qed

lemma mailbox_init_blank:
  assumes sha: "\<And>x. length (sha x) = 32" and ok: "frame_ok f"
    and ini: "mailbox_init f region sz = Inr (mb, f')"
    and z: "read_bytes 36 (Some region) 0 f = Inr (replicate 36 0)"
  shows "mailbox_rep sha mb f' [] (2 ^ 64 - 2)"
proof -
  have L: "layout_ok (f_layout f)" using ok by (simp add: frame_ok_def)
  from mailbox_init_wf [OF L ini] obtain r where wf: "mb_wf mb" and reg: "mb_region mb = region"
    and eh: "ensure_header mb f = Inr f'" and r: "layout_region (f_layout f) (Some region) = Inr r"
    and cap: "int (mb_capacity mb) = region_capacity_bytes r" by blast
  let ?raw = "region_block (f_image f) r"
  have len: "length ?raw = mb_capacity mb" using cap by (simp flip: cap)
  have rd: "mb_read_region mb f = Inr ?raw"
    using r cap len by (simp add: mb_read_region_def read_bytes_def reg slice_def)
  have "slice 0 36 ?raw = replicate 36 0"
    using z r by (simp add: read_bytes_def split: if_splits)
  then have wr: "mb_write_region mb (splice 0 (header_bytes mb 1 1) ?raw) f = Inr f'"
    using eh rd write_header_ok [OF wf len, of 1 1] by (simp add: ensure_header_def MB_HEADER_SIZE_def)
  have len': "length (splice 0 (header_bytes mb 1 1) ?raw) = mb_capacity mb"
    using len wf by (simp add: mb_wf_def)
  from mb_write_ok [OF ok rd len'] wr have f': "frame_ok f'"
    "mb_read_region mb f' = Inr (splice 0 (header_bytes mb 1 1) ?raw)" by auto
  have "q_ok sha mb (splice 0 (header_bytes mb 1 1) ?raw) 1 1 []"
    using wf len' header_roundtrip [OF wf len, of 1 1] by (simp add: q_ok_def)
  with f' sha show ?thesis unfolding mailbox_rep_def by force
qed

section \<open>Properties\<close>

definition demo_post :: "byte \<Rightarrow> post" where
  "demo_post b = \<lparr>p_payload = [b], p_sender = [65], p_recipient = [66], p_topic = []\<rparr>"

definition demo_mailbox :: mailbox where
  "demo_mailbox = \<lparr>mb_region = ''memory'', mb_capacity = 144, mb_slot_size = 54, mb_slot_count = 2\<rparr>"

definition demo_sha :: "bytes \<Rightarrow> bytes" where
  "demo_sha x = replicate 32 0"

lemma demo_sha_length: "length (demo_sha x) = 32"
  by (simp add: demo_sha_def)

lemma demo_blank_block: "region_block (f_image demo_frame) (demo_region ''memory'' 2 6) = replicate 144 0"
proof (rule nth_equalityI)
  fix k assume "k < length (region_block (f_image demo_frame) (demo_region ''memory'' 2 6))"
  then have k: "k < 144" by (simp add: demo_capacity)
  then have "k div 3 < 48" by simp
  then have "(2 + k div 3 div 8) * 8 + k div 3 mod 8 < 128"
    by (simp add: distrib_right)
  with k show "region_block (f_image demo_frame) (demo_region ''memory'' 2 6) ! k = replicate 144 0 ! k"
    by (simp add: nth_region_block demo_capacity)
      (simp add: demo_region_def demo_frame_def pixel_at_def px_byte_def NOP_px_def)
qed (simp add: demo_capacity)

lemma demo_mailbox_init:
  "\<exists>f'. mailbox_init demo_frame ''memory'' 54 = Inr (demo_mailbox, f')"
  "read_bytes 36 (Some ''memory'') 0 demo_frame = Inr (replicate 36 0)"
proof -
  have lr: "layout_region (f_layout demo_frame) (Some ''memory'') = Inr (demo_region ''memory'' 2 6)"
    by (simp add: demo_frame_def demo_region_lookup)
  show "read_bytes 36 (Some ''memory'') 0 demo_frame = Inr (replicate 36 0)"
    by (simp add: read_bytes_def lr demo_capacity demo_blank_block slice_def)
  have rd: "mb_read_region demo_mailbox demo_frame = Inr (replicate 144 0)"
    by (simp add: mb_read_region_def read_bytes_def demo_mailbox_def lr demo_capacity demo_blank_block slice_def)
  have wf: "mb_wf demo_mailbox"
    by (simp add: mb_wf_def demo_mailbox_def MB_HEADER_SIZE_def SLOT_HEADER_SIZE_def)
  have len: "length (splice 0 (header_bytes demo_mailbox 1 1) (replicate 144 0)) = mb_capacity demo_mailbox"
    by (simp add: demo_mailbox_def MB_HEADER_SIZE_def)
  obtain f' where f': "mb_write_region demo_mailbox (splice 0 (header_bytes demo_mailbox 1 1) (replicate 144 0)) demo_frame = Inr f'"
    using mb_write_ok [OF demo_frame_ok rd len] by blast
  have "mb_write_header demo_mailbox 1 1 (replicate 144 0) = Inr (splice 0 (header_bytes demo_mailbox 1 1) (replicate 144 0))"
    by (rule write_header_ok [OF wf]) (simp_all add: demo_mailbox_def)
  then have "ensure_header demo_mailbox demo_frame = Inr f'"
    using f' by (simp add: ensure_header_def rd MB_HEADER_SIZE_def slice_def)
  then show "\<exists>f'. mailbox_init demo_frame ''memory'' 54 = Inr (demo_mailbox, f')"
    by (simp add: mailbox_init_def lr demo_capacity MB_HEADER_SIZE_def SLOT_HEADER_SIZE_def)
      (simp add: demo_mailbox_def demo_region_def demo_frame_def demo_layout_def)
qed

lemma demo_mailbox_rep: "\<exists>f'. mailbox_rep demo_sha demo_mailbox f' [] (2 ^ 64 - 2)"
  using mailbox_init_blank [where sha = demo_sha, OF demo_sha_length demo_frame_ok _ demo_mailbox_init(2)] demo_mailbox_init(1) by blast

lemma demo_post_valid: "post_valid demo_mailbox (demo_post b)"
  by (simp add: post_valid_def demo_post_def demo_mailbox_def payload_capacity_def SLOT_HEADER_SIZE_def
      utf8_encode_def utf8_enc1_def scalar_value_def)

text \<open>C10. FIFO delivery: from a state that represents the pending messages \<open>ms\<close>, posting valid
  inputs that fit the ring succeeds, and dequeuing everything returns first \<open>ms\<close> and then one
  message per input, in order and with its payload, sender, recipient and topic; the next dequeue
  reports an empty mailbox.\<close>

theorem mailbox_fifo:
  assumes "mailbox_rep sha mb f ms k" "list_all (post_valid mb) ps"
    "length ms + length ps \<le> mb_slot_count mb" "length ps \<le> k"
  shows "\<exists>out f1 f2. feed (enqueue sha mb) ps f = Inr (out, f1) \<and> list_all2 post_carried ps out \<and>
    drain (dequeue sha mb) (length ms + length ps) f1 = Inr (map Some (ms @ out), f2) \<and>
    dequeue sha mb f2 = Inr (None, f2)"
  by (rule mbq.feed_then_drain [OF assms])

theorem mailbox_fifo_witness:
  "\<exists>f out f1 f2. feed (enqueue demo_sha demo_mailbox) [demo_post 7, demo_post 9] f = Inr (out, f1) \<and>
     list_all2 post_carried [demo_post 7, demo_post 9] out \<and>
     drain (dequeue demo_sha demo_mailbox) 2 f1 = Inr (map Some out, f2)"
proof -
  obtain f where f: "mailbox_rep demo_sha demo_mailbox f [] (2 ^ 64 - 2)" using demo_mailbox_rep by blast
  have "list_all (post_valid demo_mailbox) [demo_post 7, demo_post 9]" by (simp add: demo_post_valid)
  from mailbox_fifo [OF f this] have "\<exists>out f1 f2. feed (enqueue demo_sha demo_mailbox) [demo_post 7, demo_post 9] f = Inr (out, f1) \<and>
     list_all2 post_carried [demo_post 7, demo_post 9] out \<and>
     drain (dequeue demo_sha demo_mailbox) (length ([] :: message list) + length [demo_post 7, demo_post 9]) f1 =
       Inr (map Some ([] @ out), f2) \<and> dequeue demo_sha demo_mailbox f2 = Inr (None, f2)"
    by (simp add: demo_mailbox_def)
  moreover have "length ([] :: message list) + length [demo_post 7, demo_post 9] = 2" by simp
  ultimately show ?thesis by (metis append_Nil)
qed

text \<open>A fresh mailbox: opening a mailbox on a region whose header bytes are zero yields an
  empty queue with \<open>2^64 - 2\<close> sequence numbers; its slots fit the region, and the region lies below
  the executable rows.\<close>

theorem mailbox_init_empty:
  assumes "\<And>x. length (sha x) = 32" "frame_ok f" "mailbox_init f region sz = Inr (mb, f')"
    "read_bytes 36 (Some region) 0 f = Inr (replicate 36 0)"
  shows "mailbox_rep sha mb f' [] (2 ^ 64 - 2) \<and> mb_wf mb \<and>
    (\<exists>r. layout_region (f_layout f) (Some region) = Inr r \<and> execution_rows (f_layout f) \<le> rg_y r \<and>
      int (mb_capacity mb) = region_capacity_bytes r)"
  using mailbox_init_blank [OF assms] mailbox_init_wf [OF _ assms(3)] assms(2) by (auto simp: frame_ok_def)

text \<open>C11. Only verified messages are delivered: a message returned by \<open>dequeue\<close>, whatever bytes the
  region holds, has the sequence number at the read position, and its digest is the recomputed
  digest of exactly the sender, recipient, topic and payload it carries.\<close>

theorem dequeue_verified:
  assumes "dequeue sha mb f = Inr (Some m, f')"
  shows "\<exists>raw n a b c. mb_read_region mb f = Inr raw \<and> mb_header mb raw = Inr (n, msg_sequence m) \<and>
    msg_sequence m < n \<and> utf8_decode a = Some (msg_sender m) \<and> utf8_decode b = Some (msg_recipient m) \<and>
    utf8_decode c = Some (msg_topic m) \<and>
    msg_sha256 m = hexdigest (message_digest sha (msg_sequence m) a b c (msg_payload m))"
proof -
  have dec: "decode_slot sha mb raw s = Inr m \<Longrightarrow> msg_sequence m = s \<and> (\<exists>a b c. utf8_decode a = Some (msg_sender m) \<and>
      utf8_decode b = Some (msg_recipient m) \<and> utf8_decode c = Some (msg_topic m) \<and>
      msg_sha256 m = hexdigest (message_digest sha s a b c (msg_payload m)))" for raw s
    unfolding decode_slot_def Let_def by (auto split: if_splits option.splits) blast
  obtain raw n r raw' where raw: "mb_read_region mb f = Inr raw" "mb_header mb raw = Inr (n, r)" "r < n"
    "decode_slot sha mb raw r = Inr m"
    using assms by (auto simp: dequeue_def dequeue_raw_def split: if_splits option.splits)
  with dec [OF raw(4)] show ?thesis by auto
qed

theorem mailbox_init_empty_witness:
  "\<exists>f'. mailbox_init demo_frame ''memory'' 54 = Inr (demo_mailbox, f') \<and>
     mailbox_rep demo_sha demo_mailbox f' [] (2 ^ 64 - 2)"
proof -
  obtain f' where f': "mailbox_init demo_frame ''memory'' 54 = Inr (demo_mailbox, f')"
    using demo_mailbox_init(1) by blast
  from mailbox_init_empty [where sha = demo_sha, OF demo_sha_length demo_frame_ok f' demo_mailbox_init(2)] f' show ?thesis by blast
qed

theorem dequeue_verified_witness:
  "\<exists>f m f' n raw. dequeue demo_sha demo_mailbox f = Inr (Some m, f') \<and>
     mb_read_region demo_mailbox f = Inr raw \<and> mb_header demo_mailbox raw = Inr (n, msg_sequence m)"
proof -
  obtain f0 where f0: "mailbox_rep demo_sha demo_mailbox f0 [] (Suc (2 ^ 64 - 3))"
  proof -
    have "Suc (2 ^ 64 - 3) = (2 :: nat) ^ 64 - 2" by simp
    then show ?thesis using demo_mailbox_rep that by metis
  qed
  obtain m f where f: "mailbox_rep demo_sha demo_mailbox f [m] (2 ^ 64 - 3)"
    using mbq.enq_room [OF f0 demo_post_valid [of 7]] by (auto simp: demo_mailbox_def)
  then obtain f' where d: "dequeue demo_sha demo_mailbox f = Inr (Some m, f')"
    using mbq.deq_cons by blast
  from dequeue_verified [OF d] d show ?thesis by blast
qed

end
