(* ===== verification/Agent_ABI.thy ===== *)
theory Agent_ABI
  imports Spatial_Layout
begin

text \<open>
  The agent ABI of \<^verbatim>\<open>zdx_agent_abi.py\<close>: semantic roles bound to the data regions of a layout.
  \<open>AgentRegionBinding\<close> and \<open>SpatialAgentABI\<close> are records with checked constructors; dictionaries
  of bindings are association lists, and \<open>sorted(bindings.items())\<close> sorts them by role (and region).
  The lemmas show what a validated ABI guarantees, what \<open>infer\<close> binds, and that \<open>from_dict\<close> accepts
  what \<open>to_dict\<close> writes.
\<close>

definition AGENT_ABI_VERSION :: int where
  "AGENT_ABI_VERSION = 1"

definition AGENT_REGION_ROLES :: "string set" where
  "AGENT_REGION_ROLES = {''persistent_memory'', ''working_memory'', ''mailbox_in'', ''mailbox_out'',
     ''capabilities'', ''provenance''}"

definition min_role_capacity :: "string \<Rightarrow> int" where
  "min_role_capacity role = (if role = ''mailbox_in'' \<or> role = ''mailbox_out'' then 128 else 1)"

record binding =
  b_role :: string
  b_region :: string

definition mk_binding :: "string \<Rightarrow> string \<Rightarrow> binding result" where
  "mk_binding role reg =
     (if role \<notin> AGENT_REGION_ROLES then Inl (ValueError ''unsupported agent ABI role'')
      else if reg = [] then Inl (ValueError ''agent ABI region name must be a non-empty string'')
      else Inr \<lparr>b_role = role, b_region = reg\<rparr>)"

fun mk_bindings :: "(string \<times> string) list \<Rightarrow> binding list result" where
  "mk_bindings [] = Inr []"
| "mk_bindings ((role, reg) # rest) =
     rbind (mk_binding role reg) (\<lambda>b. rbind (mk_bindings rest) (\<lambda>bs. Inr (b # bs)))"

record abi =
  abi_version :: int
  abi_layout_sha256 :: string
  abi_bindings :: "binding list"

definition layout_digest :: "(bytes \<Rightarrow> bytes) \<Rightarrow> layout \<Rightarrow> string" where
  "layout_digest sha L =
     hexdigest (sha (encode_ascii ''zdx-agent-layout-v1'' @ [0] @ encode_ascii (json_dumps (layout_to_dict L))))"

fun validate_bindings :: "layout \<Rightarrow> binding list \<Rightarrow> unit result" where
  "validate_bindings L [] = Inr ()"
| "validate_bindings L (b # bs) =
     rbind (layout_region L (Some (b_region b))) (\<lambda>r.
       if rg_y r < execution_rows L then Inl (ValueError ''agent ABI role overlaps execution plane'')
       else if region_capacity_bytes r < min_role_capacity (b_role b)
         then Inl (ValueError ''agent ABI role requires more bytes'')
       else validate_bindings L bs)"

definition abi_validate :: "(bytes \<Rightarrow> bytes) \<Rightarrow> layout \<Rightarrow> abi \<Rightarrow> abi result" where
  "abi_validate sha L a =
     (if abi_version a \<noteq> AGENT_ABI_VERSION then Inl (ValueError ''unsupported agent ABI version'')
      else if abi_layout_sha256 a \<noteq> layout_digest sha L
        then Inl (ValueError ''agent ABI layout hash does not match SpatialLayout'')
      else if \<not> distinct (map b_role (abi_bindings a))
        then Inl (ValueError ''agent ABI contains duplicate semantic roles'')
      else if \<not> distinct (map b_region (abi_bindings a))
        then Inl (ValueError ''agent ABI cannot bind multiple roles to one region'')
      else rbind (validate_bindings L (abi_bindings a)) (\<lambda>_. Inr a))"

text \<open>Keys of a dictionary are distinct, so sorting its items is sorting by key.\<close>

definition abi_create :: "(bytes \<Rightarrow> bytes) \<Rightarrow> layout \<Rightarrow> (string, string) dict \<Rightarrow> int \<Rightarrow> abi result" where
  "abi_create sha L bindings version =
     rbind (mk_bindings (sort_key fst bindings)) (\<lambda>items.
       abi_validate sha L \<lparr>abi_version = version, abi_layout_sha256 = layout_digest sha L, abi_bindings = items\<rparr>)"

definition abi_conventions :: "(string \<times> string list) list" where
  "abi_conventions = [
     (''working_memory'', [''working_memory'', ''working'']),
     (''mailbox_in'', [''mailbox_in'', ''inbox'']),
     (''mailbox_out'', [''mailbox_out'', ''outbox'']),
     (''capabilities'', [''capabilities'']),
     (''provenance'', [''provenance'', ''audit''])]"

text \<open>The first candidate that exists and is not bound yet.\<close>

definition infer_role :: "string set \<Rightarrow> string \<times> string list \<Rightarrow> (string, string) dict \<Rightarrow> (string, string) dict" where
  "infer_role available rc bs =
     (case List.find (\<lambda>c. c \<in> available \<and> c \<notin> snd ` set bs) (snd rc) of
        None \<Rightarrow> bs
      | Some c \<Rightarrow> dset (fst rc) c bs)"

definition abi_infer :: "(bytes \<Rightarrow> bytes) \<Rightarrow> layout \<Rightarrow> string option \<Rightarrow> abi result" where
  "abi_infer sha L persistent =
     (let available = rg_name ` set (lregions L);
          start = (case persistent of None \<Rightarrow> [] | Some p \<Rightarrow> if p = [] then [] else [(''persistent_memory'', p)])
      in abi_create sha L (fold (infer_role available) abi_conventions start) AGENT_ABI_VERSION)"

definition region_for :: "abi \<Rightarrow> string \<Rightarrow> string option" where
  "region_for a role = map_option b_region (List.find (\<lambda>b. b_role b = role) (abi_bindings a))"

definition require_region :: "abi \<Rightarrow> string \<Rightarrow> string result" where
  "require_region a role =
     (case region_for a role of None \<Rightarrow> Inl (KeyError ''agent ABI does not bind role'') | Some r \<Rightarrow> Inr r)"

text \<open>\<open>str(x)\<close> of a dictionary value, as far as the model's dictionaries hold it: strings, integers,
  booleans and \<open>None\<close>. Containers are parameters of the caller (\<open>repr\<close>).\<close>

fun py_str :: "(json \<Rightarrow> string) \<Rightarrow> json \<Rightarrow> string" where
  "py_str repr (JStr s) = s"
| "py_str repr (JInt i) = int_str i"
| "py_str repr (JBool b) = (if b then ''True'' else ''False'')"
| "py_str repr JNull = ''None''"
| "py_str repr j = repr j"

definition abi_from_dict :: "(bytes \<Rightarrow> bytes) \<Rightarrow> (json \<Rightarrow> string) \<Rightarrow> json \<Rightarrow> layout \<Rightarrow> abi result" where
  "abi_from_dict sha repr payload L =
     (case payload of
        JObj d \<Rightarrow>
          if \<not> dkeys d \<subseteq> {''version'', ''layout_sha256'', ''bindings''}
          then Inl (ValueError ''unknown agent ABI fields'')
          else
            (case dget d ''version'' of
               Some (JInt version) \<Rightarrow>
                 (case dget d ''bindings'' of
                    Some (JObj raw) \<Rightarrow>
                      rbind (mk_bindings (map (\<lambda>(k, v). (k, py_str repr v)) (sort_key fst raw))) (\<lambda>items.
                        abi_validate sha L
                          \<lparr>abi_version = version,
                           abi_layout_sha256 = (case dget d ''layout_sha256'' of None \<Rightarrow> [] | Some j \<Rightarrow> py_str repr j),
                           abi_bindings = items\<rparr>)
                  | _ \<Rightarrow> Inl (ValueError ''agent ABI bindings must be an object''))
             | _ \<Rightarrow> Inl (ValueError ''agent ABI version must be an integer''))
      | _ \<Rightarrow> Inl (TypeError ''agent ABI metadata must be a mapping''))"

definition abi_to_dict :: "abi \<Rightarrow> json" where
  "abi_to_dict a =
     JObj [(''version'', JInt (abi_version a)), (''layout_sha256'', JStr (abi_layout_sha256 a)),
       (''bindings'', JObj (fold (\<lambda>b d. dset (b_role b) (JStr (b_region b)) d) (abi_bindings a) []))]"

section \<open>What a validated ABI guarantees\<close>

lemma mk_bindings_iff:
  "mk_bindings items = Inr bs \<longleftrightarrow>
     bs = map (\<lambda>(r, g). \<lparr>b_role = r, b_region = g\<rparr>) items \<and>
     (\<forall>(r, g) \<in> set items. r \<in> AGENT_REGION_ROLES \<and> g \<noteq> [])"
  by (induction items arbitrary: bs) (auto simp: mk_binding_def split: if_splits)

lemma validate_bindings_iff:
  "validate_bindings L bs = Inr () \<longleftrightarrow>
     (\<forall>b \<in> set bs. \<exists>r. layout_region L (Some (b_region b)) = Inr r \<and> execution_rows L \<le> rg_y r \<and>
        min_role_capacity (b_role b) \<le> region_capacity_bytes r)"
proof (induction bs)
  case (Cons b bs)
  then show ?case by (cases "layout_region L (Some (b_region b))") (auto simp: not_less)
qed simp

definition abi_ok :: "layout \<Rightarrow> abi \<Rightarrow> bool" where
  "abi_ok L a \<longleftrightarrow> abi_version a = AGENT_ABI_VERSION \<and> distinct (map b_role (abi_bindings a)) \<and>
     distinct (map b_region (abi_bindings a)) \<and>
     (\<forall>b \<in> set (abi_bindings a). \<exists>r. layout_region L (Some (b_region b)) = Inr r \<and>
        execution_rows L \<le> rg_y r \<and> min_role_capacity (b_role b) \<le> region_capacity_bytes r)"

lemma abi_validate_iff:
  "abi_validate sha L a = Inr a' \<longleftrightarrow> a' = a \<and> abi_ok L a \<and> abi_layout_sha256 a = layout_digest sha L"
  by (auto simp: abi_validate_def abi_ok_def validate_bindings_iff split: if_splits)

text \<open>A region with cells below the executable rows is the storage plane or a named region.\<close>

lemma bound_region:
  assumes "layout_ok L" "layout_region L (Some n) = Inr r" "execution_rows L \<le> rg_y r" "0 < region_capacity_bytes r" "n \<noteq> ''storage''"
  shows "r \<in> set (lregions L) \<and> rg_name r = n"
proof (cases "n = ''execution''")
  case True
  with assms have "execution_rows L = 0" "0 < lwidth L * execution_rows L"
    by (auto simp: layout_region_def execution_region_def region_capacity_bytes_def region_cells_def layout_ok_def)
  then show ?thesis by simp
next
  case False
  with assms have "List.find (\<lambda>r. n = rg_name r) (lregions L) = Some r"
    by (auto simp: layout_region_def split: option.splits)
  then show ?thesis by (auto simp: find_Some_iff)
qed

lemma fold_dset_fresh:
  "distinct (map f xs) \<Longrightarrow> (\<forall>x \<in> set xs. f x \<notin> dkeys d) \<Longrightarrow>
   fold (\<lambda>x d. dset (f x) (g x) d) xs d = d @ map (\<lambda>x. (f x, g x)) xs"
proof (induction xs arbitrary: d)
  case (Cons x xs)
  have "dset (f x) (g x) d = d @ [(f x, g x)]"
    using Cons.prems(2) by (induction d) auto
  moreover have "\<forall>z \<in> set xs. f z \<notin> dkeys (d @ [(f x, g x)])"
    using Cons.prems by (auto simp: image_iff)
  ultimately show ?case using Cons.IH [of "d @ [(f x, g x)]"] Cons.prems(1) by simp
qed simp

lemma sorted_bindings:
  "mk_bindings (sort_key fst d) = Inr bs \<Longrightarrow> sorted (map b_role bs)"
  by (auto simp: mk_bindings_iff comp_def split_def)

lemma sort_key_sorted: "sorted (map f xs) \<Longrightarrow> sort_key f xs = xs"
  by (induction xs) (auto intro: insort_is_Cons)

section \<open>Properties\<close>

definition demo_abi_bindings :: "(string, string) dict" where
  "demo_abi_bindings = [(''mailbox_in'', ''memory''), (''provenance'', ''inbox'')]"

text \<open>C12. Role isolation: in a validated ABI every binding names a region of the layout, which lies wholly
  below the executable rows and has at least the capacity its role requires; and two different bindings,
  neither of them to \<open>storage\<close>, the whole data plane, share no cell of the frame.\<close>

theorem abi_roles_isolated:
  assumes "layout_ok L" "abi_validate sha L a = Inr a'"
  shows "(\<forall>b \<in> set (abi_bindings a'). \<exists>r. layout_region L (Some (b_region b)) = Inr r \<and>
      min_role_capacity (b_role b) \<le> region_capacity_bytes r \<and>
      (\<forall>x y. region_contains r x y \<longrightarrow> execution_rows L \<le> y)) \<and>
    (\<forall>b \<in> set (abi_bindings a'). \<forall>c \<in> set (abi_bindings a').
      b \<noteq> c \<and> b_region b \<noteq> ''storage'' \<and> b_region c \<noteq> ''storage'' \<longrightarrow>
      (\<forall>r q x y. layout_region L (Some (b_region b)) = Inr r \<and> layout_region L (Some (b_region c)) = Inr q \<and>
        region_contains r x y \<longrightarrow> \<not> region_contains q x y))"
proof -
  have ok: "abi_ok L a'" using assms(2) by (auto simp: abi_validate_iff)
  have named: "r \<in> set (lregions L) \<and> rg_name r = b_region b"
    if "b \<in> set (abi_bindings a')" "b_region b \<noteq> ''storage''" "layout_region L (Some (b_region b)) = Inr r" for b r
  proof -
    have "0 < min_role_capacity (b_role b)" by (simp add: min_role_capacity_def)
    then have "execution_rows L \<le> rg_y r" "0 < region_capacity_bytes r" using ok that(1,3) by (auto simp: abi_ok_def)
    then show ?thesis using bound_region [OF assms(1) that(3)] that(2) by blast
  qed
  have "b_region b \<noteq> b_region c" if "b \<in> set (abi_bindings a')" "c \<in> set (abi_bindings a')" "b \<noteq> c" for b c
    using ok that by (auto simp: abi_ok_def distinct_map inj_on_def)
  then have "\<not> region_contains q x y"
    if "b \<in> set (abi_bindings a')" "c \<in> set (abi_bindings a')" "b \<noteq> c" "b_region b \<noteq> ''storage''" "b_region c \<noteq> ''storage''"
      "layout_region L (Some (b_region b)) = Inr r" "layout_region L (Some (b_region c)) = Inr q" "region_contains r x y" for b c r q x y
    using named_regions_disjoint [OF assms(1)] named that by metis
  moreover have "\<exists>r. layout_region L (Some (b_region b)) = Inr r \<and> min_role_capacity (b_role b) \<le> region_capacity_bytes r \<and>
      (\<forall>x y. region_contains r x y \<longrightarrow> execution_rows L \<le> y)" if "b \<in> set (abi_bindings a')" for b
    using ok that by (fastforce simp: abi_ok_def region_contains_def)
  ultimately show ?thesis by blast
qed

text \<open>ABI metadata round-trips: whatever ABI \<open>create\<close> returns for a layout, \<open>from_dict\<close> of its
  \<open>to_dict\<close> on the same layout returns that ABI again.\<close>

theorem abi_dict_roundtrip:
  assumes "abi_create sha L bindings version = Inr a"
  shows "abi_from_dict sha repr (abi_to_dict a) L = Inr a"
proof -
  obtain items where it: "mk_bindings (sort_key fst bindings) = Inr items"
    and v: "abi_validate sha L \<lparr>abi_version = version, abi_layout_sha256 = layout_digest sha L, abi_bindings = items\<rparr> = Inr a"
    using assms by (auto simp: abi_create_def)
  have a: "a = \<lparr>abi_version = version, abi_layout_sha256 = layout_digest sha L, abi_bindings = items\<rparr>"
    using v by (simp add: abi_validate_iff)
  let ?raw = "map (\<lambda>b. (b_role b, JStr (b_region b))) items"
  have "distinct (map b_role items)" using v by (simp add: abi_validate_iff abi_ok_def)
  then have raw: "fold (\<lambda>b d. dset (b_role b) (JStr (b_region b)) d) items [] = ?raw"
    by (simp add: fold_dset_fresh)
  have "sorted (map fst ?raw)" using sorted_bindings [OF it] by (simp add: comp_def)
  then have srt: "sort_key fst ?raw = ?raw" by (rule sort_key_sorted)
  have "mk_bindings (map (\<lambda>b. (b_role b, b_region b)) items) = Inr items"
    using it by (auto simp: mk_bindings_iff comp_def split_def)
  with v a show ?thesis
    by (simp add: abi_from_dict_def abi_to_dict_def raw srt comp_def)
qed

lemma demo_abi:
  "abi_create sha demo_layout demo_abi_bindings 1 =
     Inr \<lparr>abi_version = 1, abi_layout_sha256 = layout_digest sha demo_layout,
       abi_bindings = [\<lparr>b_role = ''mailbox_in'', b_region = ''memory''\<rparr>, \<lparr>b_role = ''provenance'', b_region = ''inbox''\<rparr>]\<rparr>"
proof -
  have s: "sort_key fst demo_abi_bindings = demo_abi_bindings" by code_simp
  have "mk_bindings demo_abi_bindings =
      Inr [\<lparr>b_role = ''mailbox_in'', b_region = ''memory''\<rparr>, \<lparr>b_role = ''provenance'', b_region = ''inbox''\<rparr>]"
    by (simp add: demo_abi_bindings_def mk_binding_def AGENT_REGION_ROLES_def)
  moreover have "layout_region demo_layout (Some ''memory'') = Inr (demo_region ''memory'' 2 6)"
    "layout_region demo_layout (Some ''inbox'') = Inr (demo_region ''inbox'' 8 4)"
    by (simp_all add: layout_region_def demo_layout_def demo_region_def)
  ultimately show ?thesis
    by (simp add: abi_create_def s abi_validate_def AGENT_ABI_VERSION_def min_role_capacity_def
        demo_region_def region_capacity_bytes_def region_cells_def demo_layout_def)
qed

theorem abi_roles_isolated_witness:
  "\<exists>r q. layout_region demo_layout (Some ''memory'') = Inr r \<and> layout_region demo_layout (Some ''inbox'') = Inr q \<and>
    128 \<le> region_capacity_bytes r \<and> region_contains r 0 2 \<and> \<not> region_contains q 0 2 \<and>
    (\<forall>x y. region_contains r x y \<longrightarrow> execution_rows demo_layout \<le> y)"
proof -
  let ?b = "\<lparr>b_role = ''mailbox_in'', b_region = ''memory''\<rparr>" and ?c = "\<lparr>b_role = ''provenance'', b_region = ''inbox''\<rparr>"
  let ?a = "\<lparr>abi_version = 1, abi_layout_sha256 = layout_digest (\<lambda>x. []) demo_layout, abi_bindings = [?b, ?c]\<rparr>"
  have v: "abi_validate (\<lambda>x. []) demo_layout ?a = Inr ?a"
    using demo_abi [of "\<lambda>x. []"] by (auto simp: abi_create_def abi_validate_iff)
  have r: "layout_region demo_layout (Some ''memory'') = Inr (demo_region ''memory'' 2 6)"
    "layout_region demo_layout (Some ''inbox'') = Inr (demo_region ''inbox'' 8 4)"
    by (simp_all add: layout_region_def demo_layout_def demo_region_def)
  have "region_contains (demo_region ''memory'' 2 6) 0 2" by (simp add: region_contains_def demo_region_def)
  then show ?thesis
    using abi_roles_isolated [OF demo_layout_ok v] r by (simp add: min_role_capacity_def)
qed

theorem abi_dict_roundtrip_witness:
  "\<exists>a. abi_create (\<lambda>x. []) demo_layout demo_abi_bindings 1 = Inr a \<and>
     abi_from_dict (\<lambda>x. []) (\<lambda>j. []) (abi_to_dict a) demo_layout = Inr a"
  using abi_dict_roundtrip [OF demo_abi] demo_abi by blast

text \<open>A validated ABI may bind one role to \<open>storage\<close>, the whole data plane, and another to a region
  inside it: the check that no region serves two roles compares names only.\<close>

lemma abi_storage_overlaps:
  "\<exists>a r q. abi_create (\<lambda>x. []) demo_layout [(''provenance'', ''storage''), (''working_memory'', ''memory'')] 1 = Inr a \<and>
     layout_region demo_layout (Some ''storage'') = Inr r \<and> layout_region demo_layout (Some ''memory'') = Inr q \<and>
     region_contains r 0 2 \<and> region_contains q 0 2"
proof -
  have s: "sort_key fst [(''provenance'', ''storage''), (''working_memory'', ''memory'')] =
      [(''provenance'', ''storage''), (''working_memory'', ''memory'')]" by code_simp
  have m: "layout_region demo_layout (Some ''memory'') = Inr (demo_region ''memory'' 2 6)"
    by (simp add: layout_region_def demo_layout_def demo_region_def)
  have t: "layout_region demo_layout (Some ''storage'') = Inr (storage_region demo_layout)"
    by (simp add: layout_region_def storage_region_def demo_layout_def)
  show ?thesis
    by (simp add: abi_create_def s mk_binding_def AGENT_REGION_ROLES_def abi_validate_def AGENT_ABI_VERSION_def
        min_role_capacity_def m t)
      (simp add: storage_region_def demo_region_def demo_layout_def region_capacity_bytes_def region_cells_def
        region_contains_def)
qed

end
