(* ===== verification/Karma.thy ===== *)
theory Karma
  imports Py_Text Complex_Main
begin

text \<open>
  Reputation of nodes, from \<^verbatim>\<open>zdx_karma_system.py\<close>: karma and experience per node, suspension and
  eviction, inactivity decay, cluster membership and election of a master node.

  \<^item> \<^verbatim>\<open>karma_score\<close> and \<^verbatim>\<open>karma_system\<close> are the objects \<open>KarmaScore\<close> and \<open>ZDXKarmaSystem\<close>; the
    dictionaries are association lists in insertion order, \<open>clusters\<close> a dictionary of sets.
  \<^item> Points in time are rational numbers; an operation takes the time \<open>now\<close> at which it runs as an
    argument and reads the clock once.
  \<^item> \<open>int(experience * 0.15)\<close> is computed in double precision: \<^verbatim>\<open>round53\<close> rounds to 53 significant
    bits, and 0.15 is the double \<open>5404319552844595 / 2^55\<close>. In the mass of a node each float
    operation is rounded by the parameter \<open>fl\<close>, so that the results hold for every rounding.
  \<^item> The iteration order of a Python set is the parameter \<open>iter\<close>.
  \<^item> \<open>k_disk\<close> is the value last handed to the state store; the leaderboard printers are not modelled.
\<close>

section \<open>Events, levels, scores\<close>

datatype karma_event =
    VALID_CONTRIBUTION | CORRECT_COMPUTATION | COMPUTE_CYCLE_COMPLETED | UPTIME_HEARTBEAT
  | PEER_VALIDATION | FRAME_SYNC_SUCCESS | AUTH_FAILURE | REPLAY_ATTACK_ATTEMPT
  | SIGNATURE_FORGERY | DOS_ATTEMPT | REVOCATION_VIOLATION | MALFORMED_PACKET
  | TIMEOUT_VIOLATION | ENROLLMENT_ABUSE | COMPUTATION_FRAUD | STATE_CORRUPTION
  | HEARTBEAT | ROUTINE_OPERATION | INACTIVITY_DECAY

text \<open>\<open>KARMA_ADJUSTMENTS.get(event, {"karma": 0, "xp": 0})\<close>\<close>

fun karma_adjustment :: "karma_event \<Rightarrow> int \<times> int" where
  "karma_adjustment VALID_CONTRIBUTION = (10, 15)"
| "karma_adjustment CORRECT_COMPUTATION = (5, 10)"
| "karma_adjustment COMPUTE_CYCLE_COMPLETED = (8, 20)"
| "karma_adjustment UPTIME_HEARTBEAT = (1, 1)"
| "karma_adjustment PEER_VALIDATION = (3, 5)"
| "karma_adjustment FRAME_SYNC_SUCCESS = (2, 3)"
| "karma_adjustment AUTH_FAILURE = (- 5, 0)"
| "karma_adjustment REPLAY_ATTACK_ATTEMPT = (- 20, - 10)"
| "karma_adjustment SIGNATURE_FORGERY = (- 50, - 25)"
| "karma_adjustment DOS_ATTEMPT = (- 30, - 15)"
| "karma_adjustment REVOCATION_VIOLATION = (- 100, 0)"
| "karma_adjustment MALFORMED_PACKET = (- 3, 0)"
| "karma_adjustment TIMEOUT_VIOLATION = (- 2, 0)"
| "karma_adjustment ENROLLMENT_ABUSE = (- 25, - 10)"
| "karma_adjustment COMPUTATION_FRAUD = (- 40, - 20)"
| "karma_adjustment STATE_CORRUPTION = (- 60, - 30)"
| "karma_adjustment _ = (0, 0)"

datatype node_level = TRUSTEE | CONTRIBUTOR | VALIDATOR | SENTINEL | MASTER

fun min_xp :: "node_level \<Rightarrow> int" where
  "min_xp TRUSTEE = 0"
| "min_xp CONTRIBUTOR = 100"
| "min_xp VALIDATOR = 1000"
| "min_xp SENTINEL = 10000"
| "min_xp MASTER = 100000"

fun mass_multiplier :: "node_level \<Rightarrow> rat" where
  "mass_multiplier TRUSTEE = 1"
| "mass_multiplier CONTRIBUTOR = 3 / 2"
| "mass_multiplier VALIDATOR = 5 / 2"
| "mass_multiplier SENTINEL = 4"
| "mass_multiplier MASTER = 6"

definition compute_level :: "int \<Rightarrow> node_level" where
  "compute_level xp =
     (case List.find (\<lambda>l. min_xp l \<le> xp) [MASTER, SENTINEL, VALIDATOR, CONTRIBUTOR, TRUSTEE] of
        Some l \<Rightarrow> l | None \<Rightarrow> TRUSTEE)"

record membership =
  cm_cluster_id :: string
  joined_at :: rat
  last_active :: rat
  cycles_completed :: nat
  cycles_in_progress :: nat

record karma_score =
  node_id :: string
  karma :: int
  total_experience :: int
  level :: node_level
  last_event_time :: rat
  last_activity_time :: rat
  suspension_status :: bool
  suspension_time :: "rat option"
  eviction_pending :: bool
  consecutive_violations :: nat
  memberships :: "(string, membership) dict"

definition fresh_score :: "string \<Rightarrow> karma_score" where
  "fresh_score nid = \<lparr>node_id = nid, karma = 50, total_experience = 0, level = TRUSTEE,
     last_event_time = 0, last_activity_time = 0, suspension_status = False, suspension_time = None,
     eviction_pending = False, consecutive_violations = 0, memberships = []\<rparr>"

definition fresh_membership :: "string \<Rightarrow> rat \<Rightarrow> membership" where
  "fresh_membership cid now = \<lparr>cm_cluster_id = cid, joined_at = now, last_active = now, cycles_completed = 0, cycles_in_progress = 0\<rparr>"

text \<open>The property \<open>is_suspended\<close> lifts an expired suspension as a side effect.\<close>

definition is_suspended :: "rat \<Rightarrow> karma_score \<Rightarrow> bool \<times> karma_score" where
  "is_suspended now sc =
     (if \<not> suspension_status sc then (False, sc)
      else
        (case suspension_time sc of
           None \<Rightarrow> (True, sc)
         | Some t \<Rightarrow>
             if now - t > 86400
             then (False, sc\<lparr>suspension_status := False, consecutive_violations := 0\<rparr>)
             else (True, sc)))"

text \<open>The first disjunct decides: without the flag, \<open>is_suspended\<close> is false and changes nothing.\<close>

definition mass :: "(rat \<Rightarrow> rat) \<Rightarrow> karma_score \<Rightarrow> rat" where
  "mass fl sc =
     (if suspension_status sc then 0
      else
        (let karma_factor = max (fl (1 / 10)) (fl (of_int (karma sc) / 100))
         in fl (fl (mass_multiplier (level sc) * fl (of_int (total_experience sc))) * karma_factor)))"

record karma_record =
  kr_node_id :: string
  kr_event :: karma_event
  kr_karma_delta :: int
  kr_xp_delta :: int
  kr_timestamp :: rat
  kr_reason :: string
  kr_severity :: string

record karma_core =
  scores :: "(string, karma_score) dict"
  event_log :: "(string, karma_record list) dict"
  suspension_queue :: "(string, rat) dict"
  eviction_queue :: "string set"
  clusters :: "(string, string set) dict"

record karma_system = karma_core +
  k_disk :: "(karma_core \<times> rat) option"

definition CLUSTER_SIZE :: nat where "CLUSTER_SIZE = 100"
definition INACTIVITY_DECAY_PERIOD :: rat where "INACTIVITY_DECAY_PERIOD = 604800"

section \<open>Persistence\<close>

definition karma_save :: "rat \<Rightarrow> karma_system \<Rightarrow> karma_system" where
  "karma_save now st =
     st\<lparr>k_disk := Some (\<lparr>scores = scores st, event_log = event_log st, suspension_queue = suspension_queue st,
        eviction_queue = eviction_queue st, clusters = clusters st\<rparr>, now)\<rparr>"

definition karma_empty :: "(karma_core \<times> rat) option \<Rightarrow> karma_system" where
  "karma_empty disk = \<lparr>scores = [], event_log = [], suspension_queue = [], eviction_queue = {}, clusters = [],
     k_disk = disk\<rparr>"

text \<open>Construction: an empty system that loads what the store holds.\<close>

definition karma_load :: "(karma_core \<times> rat) option \<Rightarrow> karma_system" where
  "karma_load disk =
     (case disk of
        None \<Rightarrow> karma_empty None
      | Some (c, t) \<Rightarrow>
          (karma_empty disk)\<lparr>
            scores := fold (\<lambda>(n, s) d. dset n s d) (scores c) [],
            event_log := event_log c,
            suspension_queue := suspension_queue c,
            eviction_queue := eviction_queue c,
            clusters := fold (\<lambda>(k, s) d. dset k s d) (clusters c) []\<rparr>)"

section \<open>Clusters\<close>

text \<open>\<open>self.clusters[cid]\<close> of a defaultdict.\<close>

definition cluster_of :: "karma_system \<Rightarrow> string \<Rightarrow> string set" where
  "cluster_of st cid = (case dget (clusters st) cid of None \<Rightarrow> {} | Some s \<Rightarrow> s)"

definition score_of :: "karma_system \<Rightarrow> string \<Rightarrow> karma_score" where
  "score_of st nid = (case dget (scores st) nid of None \<Rightarrow> fresh_score nid | Some s \<Rightarrow> s)"

definition put_score :: "string \<Rightarrow> karma_score \<Rightarrow> karma_system \<Rightarrow> karma_system" where
  "put_score nid sc st = st\<lparr>scores := dset nid sc (scores st)\<rparr>"

definition get_score :: "string \<Rightarrow> karma_system \<Rightarrow> karma_score \<times> karma_system" where
  "get_score nid st =
     (if nid \<in> dkeys (scores st) then (score_of st nid, st)
      else (fresh_score nid, put_score nid (fresh_score nid) st))"

definition leave_cluster :: "rat \<Rightarrow> string \<Rightarrow> string \<Rightarrow> karma_system \<Rightarrow> bool \<times> karma_system" where
  "leave_cluster now nid cid st =
     (case dget (scores st) nid of
        None \<Rightarrow> (False, st)
      | Some sc \<Rightarrow>
          if cid \<in> dkeys (memberships sc) then
            (True, karma_save now
               ((put_score nid (sc\<lparr>memberships := ddel cid (memberships sc)\<rparr>) st)
                 \<lparr>clusters := dset cid (cluster_of st cid - {nid}) (clusters st)\<rparr>))
          else (False, st))"

definition add_member :: "rat \<Rightarrow> string \<Rightarrow> string \<Rightarrow> karma_system \<Rightarrow> karma_system" where
  "add_member now nid cid st =
     (let sc = score_of st nid in
      (put_score nid (sc\<lparr>memberships := dset cid (fresh_membership cid now) (memberships sc)\<rparr>) st)
        \<lparr>clusters := dset cid (insert nid (cluster_of st cid)) (clusters st)\<rparr>)"

section \<open>Events\<close>

definition suspend_node :: "rat \<Rightarrow> string \<Rightarrow> karma_system \<Rightarrow> karma_system" where
  "suspend_node now nid st =
     (case dget (scores st) nid of
        None \<Rightarrow> st
      | Some sc \<Rightarrow>
          (put_score nid (sc\<lparr>suspension_status := True, suspension_time := Some now\<rparr>) st)
            \<lparr>suspension_queue := dset nid now (suspension_queue st)\<rparr>)"

definition mark_eviction :: "rat \<Rightarrow> string \<Rightarrow> karma_system \<Rightarrow> karma_system" where
  "mark_eviction now nid st =
     (case dget (scores st) nid of
        None \<Rightarrow> st
      | Some sc \<Rightarrow>
          fold (\<lambda>cid s. snd (leave_cluster now nid cid s)) (map fst (memberships sc))
            ((put_score nid (sc\<lparr>eviction_pending := True\<rparr>) st)
              \<lparr>eviction_queue := insert nid (eviction_queue st)\<rparr>))"

definition log_event :: "string \<Rightarrow> karma_record \<Rightarrow> karma_system \<Rightarrow> karma_system" where
  "log_event nid r st =
     st\<lparr>event_log := dset nid
        ((case dget (event_log st) nid of None \<Rightarrow> [] | Some l \<Rightarrow> l) @ [r]) (event_log st)\<rparr>"

text \<open>The score after the adjustment and before the thresholds are looked at.\<close>

definition adjusted :: "rat \<Rightarrow> karma_event \<Rightarrow> karma_score \<Rightarrow> karma_score" where
  "adjusted now ev sc =
     (let (dk, dx) = karma_adjustment ev;
          xp = max 0 (total_experience sc + dx)
      in sc\<lparr>karma := max 0 (min 100 (karma sc + dk)), total_experience := xp,
            last_event_time := now, last_activity_time := now, level := compute_level xp,
            consecutive_violations := (if dk < 0 then Suc (consecutive_violations sc)
                                       else consecutive_violations sc)\<rparr>)"

definition report_event ::
    "rat \<Rightarrow> string \<Rightarrow> karma_event \<Rightarrow> string \<Rightarrow> string \<Rightarrow> karma_system \<Rightarrow> karma_score \<times> karma_system" where
  "report_event now nid ev reason severity st =
     (let sc = adjusted now ev (score_of st nid);
          st1 = put_score nid sc st;
          st2 = (if karma sc \<le> 0 \<or> (3 \<le> consecutive_violations sc \<and> severity = ''severe'')
                 then suspend_node now nid st1 else st1);
          st3 = (if karma sc \<le> - 50 \<or> ev = REVOCATION_VIOLATION then mark_eviction now nid st2 else st2);
          (dk, dx) = karma_adjustment ev;
          st4 = log_event nid \<lparr>kr_node_id = nid, kr_event = ev, kr_karma_delta = dk, kr_xp_delta = dx, kr_timestamp = now,
                  kr_reason = reason, kr_severity = severity\<rparr> st3;
          st5 = karma_save now st4
      in (score_of st5 nid, st5))"

section \<open>Inactivity decay\<close>

text \<open>\<open>int(xp * 0.15)\<close>\<close>

definition xp_lost :: "int \<Rightarrow> int" where
  "xp_lost xp = int (round53 (round53 (nat xp) * 5404319552844595) div 2 ^ 55)"

fun decay_xp :: "nat \<Rightarrow> int \<Rightarrow> int" where
  "decay_xp 0 xp = xp"
| "decay_xp (Suc n) xp = decay_xp n (max 0 (xp - xp_lost xp))"

definition apply_inactivity_decay :: "rat \<Rightarrow> string \<Rightarrow> karma_system \<Rightarrow> int \<times> karma_system" where
  "apply_inactivity_decay now nid st =
     (case dget (scores st) nid of
        None \<Rightarrow> (0, st)
      | Some sc \<Rightarrow>
          (let idle = now - last_activity_time sc in
           if idle < INACTIVITY_DECAY_PERIOD then (0, st)
           else
             (let periods = nat \<lfloor>idle / INACTIVITY_DECAY_PERIOD\<rfloor>;
                  xp = decay_xp periods (total_experience sc);
                  loss = total_experience sc - xp;
                  st1 = put_score nid (sc\<lparr>total_experience := xp, level := compute_level xp\<rparr>) st
              in if loss > 0
                 then (loss, karma_save now (log_event nid
                        \<lparr>kr_node_id = nid, kr_event = INACTIVITY_DECAY, kr_karma_delta = 0, kr_xp_delta = - loss,
                         kr_timestamp = now,
                         kr_reason = ''Inactivity decay ('' @ nat_str periods @ '' period(s), 15% loss)'',
                         kr_severity = ''moderate''\<rparr> st1))
                 else (loss, st1))))"

section \<open>Participation\<close>

datatype participation = Evicted | Suspended rat | Critical_karma int | Active

definition can_participate :: "rat \<Rightarrow> string \<Rightarrow> karma_system \<Rightarrow> (bool \<times> participation) \<times> karma_system" where
  "can_participate now nid st =
     (let (sc, st1) = get_score nid st in
      if nid \<in> eviction_queue st1 then ((False, Evicted), st1)
      else
        (case is_suspended now sc of
           (susp, sc') \<Rightarrow>
             (let st2 = put_score nid sc' st1 in
              if susp then
                ((False, Suspended (86400 - (now - (case suspension_time sc' of
                    None \<Rightarrow> now | Some t \<Rightarrow> if t = 0 then now else t)))), st2)
              else if karma sc' \<le> 0 then ((False, Critical_karma (karma sc')), st2)
              else ((True, Active), st2))))"

definition join_cluster :: "rat \<Rightarrow> string \<Rightarrow> string \<Rightarrow> karma_system \<Rightarrow> bool \<times> karma_system" where
  "join_cluster now nid cid st =
     (case can_participate now nid (snd (get_score nid st)) of
        ((ok, _), st1) \<Rightarrow>
          if \<not> ok then (False, st1)
          else
            (let st2 = st1\<lparr>clusters := dset cid (cluster_of st1 cid) (clusters st1)\<rparr> in
             if card (cluster_of st2 cid) \<ge> CLUSTER_SIZE then (False, st2)
             else if cid \<notin> dkeys (memberships (score_of st2 nid))
               then (True, karma_save now (add_member now nid cid st2))
             else (True, st2)))"

definition register_cluster_activity ::
    "rat \<Rightarrow> string \<Rightarrow> string \<Rightarrow> bool \<Rightarrow> karma_system \<Rightarrow> karma_system" where
  "register_cluster_activity now nid cid cycle_completed st =
     (let st1 = snd (get_score nid st);
          st2 = (if cid \<notin> dkeys (memberships (score_of st1 nid)) then add_member now nid cid st1 else st1);
          sc = score_of st2 nid;
          m = the (dget (memberships sc) cid);
          m' = m\<lparr>last_active := now,
                 cycles_completed := (if cycle_completed then Suc (cycles_completed m) else cycles_completed m)\<rparr>;
          st3 = put_score nid (sc\<lparr>memberships := dset cid m' (memberships sc)\<rparr>) st2;
          st4 = (if cycle_completed
                 then snd (report_event now nid COMPUTE_CYCLE_COMPLETED
                        (''Completed compute cycle in cluster '' @ cid) ''minor'' st3)
                 else st3)
      in put_score nid ((score_of st4 nid)\<lparr>last_activity_time := now\<rparr>) st4)"

section \<open>Election\<close>

record cluster_info =
  ci_cluster_id :: string
  ci_node_count :: nat
  ci_capacity :: nat
  ci_utilization :: rat
  ci_active_nodes :: nat
  ci_total_mass :: rat
  ci_average_karma :: int

fun tally_cluster ::
    "(rat \<Rightarrow> rat) \<Rightarrow> rat \<Rightarrow> string list \<Rightarrow> nat \<Rightarrow> rat \<Rightarrow> int \<Rightarrow> karma_system \<Rightarrow> (nat \<times> rat \<times> int) \<times> karma_system" where
  "tally_cluster fl now [] n m k st = ((n, m, k), st)"
| "tally_cluster fl now (nid # nids) n m k st =
     (case can_participate now nid (snd (get_score nid st)) of
        ((ok, _), st1) \<Rightarrow>
          (let sc = score_of st1 nid in
           if ok then tally_cluster fl now nids (Suc n) (fl (m + mass fl sc)) (k + karma sc) st1
           else tally_cluster fl now nids n m k st1))"

definition get_cluster_info ::
    "(rat \<Rightarrow> rat) \<Rightarrow> (string set \<Rightarrow> string list) \<Rightarrow> rat \<Rightarrow> string \<Rightarrow> karma_system \<Rightarrow> cluster_info \<times> karma_system" where
  "get_cluster_info fl iter now cid st =
     (case tally_cluster fl now (iter (cluster_of st cid)) 0 0 0 st of
        ((n, m, k), st1) \<Rightarrow>
          (\<lparr>ci_cluster_id = cid, ci_node_count = card (cluster_of st cid), ci_capacity = CLUSTER_SIZE,
            ci_utilization = fl (of_nat (card (cluster_of st cid)) / of_nat CLUSTER_SIZE), ci_active_nodes = n, ci_total_mass = m,
            ci_average_karma = (if 0 < n then k div int n else 0)\<rparr>, st1))"

fun collect_candidates ::
    "(rat \<Rightarrow> rat) \<Rightarrow> rat \<Rightarrow> string list \<Rightarrow> karma_system \<Rightarrow> (string \<times> rat \<times> node_level \<times> int) list \<times> karma_system" where
  "collect_candidates fl now [] st = ([], st)"
| "collect_candidates fl now (nid # nids) st =
     (let (sc, st1) = get_score nid st in
      if level sc \<noteq> MASTER then collect_candidates fl now nids st1
      else
        (case is_suspended now sc of
           (susp, sc') \<Rightarrow>
             (let st2 = put_score nid sc' st1 in
              if susp \<or> eviction_pending sc' \<or> karma sc' \<le> 0 then collect_candidates fl now nids st2
              else (case collect_candidates fl now nids st2 of
                      (cs, st3) \<Rightarrow> ((nid, mass fl sc', level sc', karma sc') # cs, st3)))))"

text \<open>\<open>candidates.sort(key=mass, reverse=True)\<close> is stable.\<close>

definition get_master_node_candidates ::
    "(rat \<Rightarrow> rat) \<Rightarrow> (string set \<Rightarrow> string list) \<Rightarrow> rat \<Rightarrow> string \<Rightarrow> nat \<Rightarrow> karma_system \<Rightarrow>
     (string \<times> rat \<times> node_level \<times> int) list \<times> karma_system" where
  "get_master_node_candidates fl iter now cid top_n st =
     (case collect_candidates fl now (iter (cluster_of st cid)) st of
        (cs, st1) \<Rightarrow> (take top_n (sort_key (\<lambda>c. - fst (snd c)) cs), st1))"

definition elect_master_node ::
    "(rat \<Rightarrow> rat) \<Rightarrow> (string set \<Rightarrow> string list) \<Rightarrow> rat \<Rightarrow> string \<Rightarrow> karma_system \<Rightarrow> string option \<times> karma_system" where
  "elect_master_node fl iter now cid st =
     (case get_master_node_candidates fl iter now cid 100 st of
        ([], st1) \<Rightarrow> (None, st1)
      | (c # _, st1) \<Rightarrow> (Some (fst c), st1))"

section \<open>Invariant\<close>

definition score_ok :: "karma_score \<Rightarrow> bool" where
  "score_ok sc \<longleftrightarrow> 0 \<le> karma sc \<and> karma sc \<le> 100 \<and> 0 \<le> total_experience sc \<and>
     level sc = compute_level (total_experience sc) \<and> dict_ok (memberships sc)"

definition memberships_of :: "karma_system \<Rightarrow> string \<Rightarrow> string set" where
  "memberships_of st nid = dkeys (memberships (score_of st nid))"

definition k_ok :: "karma_system \<Rightarrow> bool" where
  "k_ok st \<longleftrightarrow> (\<forall>nid. score_ok (score_of st nid)) \<and>
     (\<forall>nid cid. nid \<in> cluster_of st cid \<longleftrightarrow> cid \<in> memberships_of st nid) \<and>
     (\<forall>cid. finite (cluster_of st cid)) \<and>
     (\<forall>nid. nid \<in> eviction_queue st \<longleftrightarrow> eviction_pending (score_of st nid))"

lemma compute_level_0 [simp]: "compute_level 0 = TRUSTEE"
  by (simp add: compute_level_def)

lemma fresh_score_ok [simp]: "score_ok (fresh_score nid)"
  by (simp add: score_ok_def fresh_score_def)

lemma fresh_score_simps [simp]:
  "memberships (fresh_score nid) = []" "eviction_pending (fresh_score nid) = False"
  by (simp_all add: fresh_score_def)

lemma score_of_put [simp]: "score_of (put_score nid sc st) n = (if n = nid then sc else score_of st n)"
  by (simp add: score_of_def put_score_def)

lemma put_score_simps [simp]:
  "cluster_of (put_score nid sc st) = cluster_of st" "clusters (put_score nid sc st) = clusters st"
  "eviction_queue (put_score nid sc st) = eviction_queue st"
  "suspension_queue (put_score nid sc st) = suspension_queue st"
  "event_log (put_score nid sc st) = event_log st"
  by (simp_all add: put_score_def cluster_of_def fun_eq_iff)

lemma other_fields [simp]:
  "score_of (st\<lparr>clusters := c\<rparr>) = score_of st" "score_of (st\<lparr>event_log := l\<rparr>) = score_of st"
  "score_of (st\<lparr>suspension_queue := q\<rparr>) = score_of st" "score_of (st\<lparr>eviction_queue := e\<rparr>) = score_of st"
  "cluster_of (st\<lparr>event_log := l\<rparr>) = cluster_of st" "cluster_of (st\<lparr>suspension_queue := q\<rparr>) = cluster_of st"
  "cluster_of (st\<lparr>eviction_queue := e\<rparr>) = cluster_of st"
  by (simp_all add: score_of_def cluster_of_def fun_eq_iff)

lemma cluster_of_upd [simp]:
  "cluster_of (st\<lparr>clusters := dset cid s c\<rparr>) x = (if x = cid then s else cluster_of (st\<lparr>clusters := c\<rparr>) x)"
  by (simp add: cluster_of_def)

lemma clusters_id [simp]: "st\<lparr>clusters := clusters st\<rparr> = st" "put_score nid sc st\<lparr>clusters := clusters st\<rparr> = put_score nid sc st"
  by (simp_all add: put_score_def)

lemma karma_save_simps [simp]:
  "scores (karma_save now st) = scores st" "score_of (karma_save now st) = score_of st"
  "cluster_of (karma_save now st) = cluster_of st" "eviction_queue (karma_save now st) = eviction_queue st"
  "k_ok (karma_save now st) = k_ok st"
  by (simp_all add: karma_save_def score_of_def cluster_of_def k_ok_def memberships_of_def fun_eq_iff)

lemma log_event_simps [simp]:
  "score_of (log_event nid r st) = score_of st" "cluster_of (log_event nid r st) = cluster_of st"
  "eviction_queue (log_event nid r st) = eviction_queue st" "k_ok (log_event nid r st) = k_ok st"
  by (simp_all add: log_event_def k_ok_def memberships_of_def)

lemma score_of_Some: "dget (scores st) nid = Some sc \<Longrightarrow> score_of st nid = sc"
  by (simp add: score_of_def)

lemma score_of_None: "dget (scores st) nid = None \<Longrightarrow> score_of st nid = fresh_score nid"
  by (simp add: score_of_def)

lemma k_ok_put:
  assumes "k_ok st" "score_ok sc" "dkeys (memberships sc) = memberships_of st nid"
    "eviction_pending sc = eviction_pending (score_of st nid)"
  shows "k_ok (put_score nid sc st)"
  using assms by (auto simp: k_ok_def memberships_of_def)

lemma k_ok_score: "k_ok st \<Longrightarrow> score_ok (score_of st nid)"
  by (simp add: k_ok_def)

lemma get_score_facts [simp]:
  "fst (get_score nid st) = score_of st nid" "score_of (snd (get_score nid st)) = score_of st"
  "cluster_of (snd (get_score nid st)) = cluster_of st"
  "eviction_queue (snd (get_score nid st)) = eviction_queue st"
  "clusters (snd (get_score nid st)) = clusters st"
proof -
  have "dget (scores st) nid = None \<Longrightarrow> score_of st n = (if n = nid then fresh_score nid else score_of st n)" for n
    by (simp add: score_of_def)
  then show "score_of (snd (get_score nid st)) = score_of st"
    by (auto simp: get_score_def fun_eq_iff dget_None_iff)
  show "fst (get_score nid st) = score_of st nid"
    using dget_None_iff [of "scores st" nid] by (auto simp: get_score_def score_of_None)
qed (simp_all add: get_score_def)

lemma k_ok_get [simp]: "k_ok (snd (get_score nid st)) = k_ok st"
  by (simp add: k_ok_def memberships_of_def)

lemma is_suspended_facts:
  assumes "is_suspended now sc = (b, sc')"
  shows "karma sc' = karma sc" "total_experience sc' = total_experience sc" "level sc' = level sc"
    "memberships sc' = memberships sc" "eviction_pending sc' = eviction_pending sc"
    "b \<longleftrightarrow> suspension_status sc'" "score_ok sc' = score_ok sc"
  using assms by (auto simp: is_suspended_def score_ok_def split: if_splits option.splits)

lemma adjusted_ok:
  "score_ok sc \<Longrightarrow> score_ok (adjusted now ev sc)"
  "memberships (adjusted now ev sc) = memberships sc"
  "eviction_pending (adjusted now ev sc) = eviction_pending sc"
  by (auto simp: adjusted_def score_ok_def Let_def split: prod.splits)

lemma suspend_node_ok: "k_ok st \<Longrightarrow> k_ok (suspend_node now nid st)"
proof (cases "dget (scores st) nid")
  case (Some sc)
  assume ok: "k_ok st"
  have "score_ok (sc\<lparr>suspension_status := True, suspension_time := Some now\<rparr>)"
    using k_ok_score [OF ok, of nid] score_of_Some [OF Some] by (simp add: score_ok_def)
  then have "k_ok (put_score nid (sc\<lparr>suspension_status := True, suspension_time := Some now\<rparr>) st)"
    using ok score_of_Some [OF Some] by (intro k_ok_put) (simp_all add: memberships_of_def)
  with Some show ?thesis by (simp add: suspend_node_def k_ok_def memberships_of_def)
qed (simp add: suspend_node_def)

lemma leave_cluster_ok: "k_ok st \<Longrightarrow> k_ok (snd (leave_cluster now nid cid st))"
proof (cases "dget (scores st) nid")
  case (Some sc)
  assume ok: "k_ok st"
  have sc: "sc = score_of st nid" using score_of_Some [OF Some] by simp
  have "score_ok (sc\<lparr>memberships := ddel cid (memberships sc)\<rparr>)"
    using k_ok_score [OF ok, of nid] by (simp add: score_ok_def sc)
  with ok Some show ?thesis
    by (auto simp: leave_cluster_def k_ok_def memberships_of_def sc)
qed (simp add: leave_cluster_def)

lemma leave_cluster_memberships:
  "memberships_of (snd (leave_cluster now nid cid st)) n =
     (if n = nid then memberships_of st nid - {cid} else memberships_of st n)"
  by (auto simp: leave_cluster_def memberships_of_def score_of_Some score_of_None split: option.splits)

lemma leave_cluster_eviction [simp]:
  "eviction_queue (snd (leave_cluster now nid cid st)) = eviction_queue st"
  "eviction_pending (score_of (snd (leave_cluster now nid cid st)) n) = eviction_pending (score_of st n)"
  by (auto simp: leave_cluster_def score_of_Some split: option.splits)

lemma add_member_ok: "k_ok st \<Longrightarrow> k_ok (add_member now nid cid st)"
  by (auto simp: add_member_def Let_def k_ok_def memberships_of_def score_ok_def)

abbreviation leave_all :: "rat \<Rightarrow> string \<Rightarrow> string list \<Rightarrow> karma_system \<Rightarrow> karma_system" where
  "leave_all now nid \<equiv> fold (\<lambda>cid s. snd (leave_cluster now nid cid s))"

lemma leave_all_facts:
  "k_ok st \<Longrightarrow> k_ok (leave_all now nid cids st)"
  "memberships_of (leave_all now nid cids st) nid = memberships_of st nid - set cids"
  "eviction_queue (leave_all now nid cids st) = eviction_queue st"
  by (induction cids arbitrary: st) (auto simp: leave_cluster_ok leave_cluster_memberships)

lemma mark_eviction_facts:
  assumes ok: "k_ok st" and nid: "nid \<in> dkeys (scores st)"
  shows "k_ok (mark_eviction now nid st)" "memberships_of (mark_eviction now nid st) nid = {}"
    "eviction_queue (mark_eviction now nid st) = insert nid (eviction_queue st)"
proof -
  obtain sc where sc: "dget (scores st) nid = Some sc"
    using nid dget_None_iff [of "scores st" nid] by auto
  let ?st1 = "(put_score nid (sc\<lparr>eviction_pending := True\<rparr>) st)\<lparr>eviction_queue := insert nid (eviction_queue st)\<rparr>"
  have m: "mark_eviction now nid st = leave_all now nid (map fst (memberships sc)) ?st1"
    using sc by (simp add: mark_eviction_def)
  have eq: "sc = score_of st nid" using score_of_Some [OF sc] by simp
  have "score_ok (sc\<lparr>eviction_pending := True\<rparr>)"
    using k_ok_score [OF ok, of nid] by (simp add: score_ok_def eq)
  with ok have "k_ok ?st1" by (auto simp: k_ok_def memberships_of_def eq)
  then show "k_ok (mark_eviction now nid st)" by (simp add: m leave_all_facts)
  show "memberships_of (mark_eviction now nid st) nid = {}"
    by (simp add: m leave_all_facts) (simp add: memberships_of_def eq)
  show "eviction_queue (mark_eviction now nid st) = insert nid (eviction_queue st)"
    by (simp add: m leave_all_facts)
qed

lemma dkeys_scores_put: "nid \<in> dkeys (scores (put_score nid sc st))"
  by (simp add: put_score_def)

lemma suspend_facts:
  "dkeys (scores (suspend_node now nid st)) = dkeys (scores st)"
  "eviction_queue (suspend_node now nid st) = eviction_queue st"
  "memberships_of (suspend_node now nid st) = memberships_of st"
  by (auto simp: suspend_node_def put_score_def memberships_of_def score_of_def fun_eq_iff dget_None_iff
      split: option.splits)
    (metis dget_None_iff option.distinct(1))+

text \<open>The state of \<open>report_event\<close> just before the eviction check.\<close>

definition after_thresholds :: "rat \<Rightarrow> string \<Rightarrow> karma_event \<Rightarrow> string \<Rightarrow> karma_system \<Rightarrow> karma_system" where
  "after_thresholds now nid ev severity st =
     (let sc = adjusted now ev (score_of st nid); st1 = put_score nid sc st
      in if karma sc \<le> 0 \<or> (3 \<le> consecutive_violations sc \<and> severity = ''severe'')
         then suspend_node now nid st1 else st1)"

lemma after_thresholds_facts:
  assumes "k_ok st"
  shows "k_ok (after_thresholds now nid ev severity st)"
    "nid \<in> dkeys (scores (after_thresholds now nid ev severity st))"
    "eviction_queue (after_thresholds now nid ev severity st) = eviction_queue st"
    "memberships_of (after_thresholds now nid ev severity st) = memberships_of st"
proof -
  let ?sc = "adjusted now ev (score_of st nid)"
  have "k_ok (put_score nid ?sc st)"
    using assms k_ok_score [OF assms, of nid] by (intro k_ok_put) (simp_all add: adjusted_ok memberships_of_def)
  then show "k_ok (after_thresholds now nid ev severity st)"
    by (simp add: after_thresholds_def Let_def suspend_node_ok)
  show "nid \<in> dkeys (scores (after_thresholds now nid ev severity st))"
    "eviction_queue (after_thresholds now nid ev severity st) = eviction_queue st"
    by (simp_all add: after_thresholds_def Let_def suspend_facts dkeys_scores_put)
  show "memberships_of (after_thresholds now nid ev severity st) = memberships_of st"
    by (simp add: after_thresholds_def Let_def suspend_facts) (simp add: memberships_of_def adjusted_ok fun_eq_iff)
qed

text \<open>Clamped karma never goes below zero: the eviction threshold of \<open>-50\<close> is never reached, and
  only a revocation violation evicts.\<close>

lemma report_event_unfold:
  assumes "k_ok st"
  shows "\<exists>r. snd (report_event now nid ev reason severity st) = karma_save now (log_event nid r
    (if ev = REVOCATION_VIOLATION then mark_eviction now nid (after_thresholds now nid ev severity st)
     else after_thresholds now nid ev severity st))"
proof -
  have "0 \<le> karma (adjusted now ev (score_of st nid))"
    using adjusted_ok(1) [OF k_ok_score [OF assms, of nid], of now ev] by (simp add: score_ok_def)
  then have "\<not> karma (adjusted now ev (score_of st nid)) \<le> - 50" by linarith
  then show ?thesis
    unfolding report_event_def after_thresholds_def Let_def split_def by (auto intro!: exI)
qed

lemma report_event_ok:
  assumes "k_ok st"
  shows "k_ok (snd (report_event now nid ev reason severity st))"
    "eviction_queue (snd (report_event now nid ev reason severity st)) =
       (if ev = REVOCATION_VIOLATION then insert nid (eviction_queue st) else eviction_queue st)"
    "memberships_of (snd (report_event now nid ev reason severity st)) nid =
       (if ev = REVOCATION_VIOLATION then {} else memberships_of st nid)"
proof -
  let ?R = "snd (report_event now nid ev reason severity st)"
  obtain r where r: "snd (report_event now nid ev reason severity st) = karma_save now (log_event nid r
    (if ev = REVOCATION_VIOLATION then mark_eviction now nid (after_thresholds now nid ev severity st)
     else after_thresholds now nid ev severity st))"
    using report_event_unfold [OF assms] by blast
  note a = after_thresholds_facts [OF assms, where now = now and nid = nid and ev = ev and severity = severity]
  note m = mark_eviction_facts [OF a(1,2)]
  have mem: "memberships_of (karma_save now s) = memberships_of s" "memberships_of (log_event nid r s) = memberships_of s" for s
    by (simp_all add: memberships_of_def fun_eq_iff)
  have "k_ok ?R \<and> eviction_queue ?R = (if ev = REVOCATION_VIOLATION then insert nid (eviction_queue st) else eviction_queue st) \<and>
      memberships_of ?R nid = (if ev = REVOCATION_VIOLATION then {} else memberships_of st nid)"
  proof (cases "ev = REVOCATION_VIOLATION")
    case True
    then show ?thesis unfolding r mem using m a(3) by (simp only: if_P mem karma_save_simps log_event_simps)
  next
    case False
    then show ?thesis unfolding r mem using a by (simp only: if_not_P mem karma_save_simps log_event_simps) simp
  qed
  then show "k_ok ?R"
    "eviction_queue ?R = (if ev = REVOCATION_VIOLATION then insert nid (eviction_queue st) else eviction_queue st)"
    "memberships_of ?R nid = (if ev = REVOCATION_VIOLATION then {} else memberships_of st nid)"
    by blast+
qed

lemma decay_xp_ge0: "0 \<le> xp \<Longrightarrow> 0 \<le> decay_xp n xp"
  by (induction n arbitrary: xp) auto

lemma decay_ok: "k_ok st \<Longrightarrow> k_ok (snd (apply_inactivity_decay now nid st))"
proof (cases "dget (scores st) nid")
  case (Some sc)
  assume ok: "k_ok st"
  have eq: "sc = score_of st nid" using score_of_Some [OF Some] by simp
  have "score_ok (sc\<lparr>total_experience := xp, level := compute_level xp\<rparr>)" if "0 \<le> xp" for xp
    using k_ok_score [OF ok, of nid] that by (simp add: score_ok_def eq)
  then have "k_ok (put_score nid (sc\<lparr>total_experience := xp, level := compute_level xp\<rparr>) st)" if "0 \<le> xp" for xp
    using ok that by (intro k_ok_put) (simp_all add: memberships_of_def eq)
  moreover have "0 \<le> decay_xp n (total_experience sc)" for n
    using k_ok_score [OF ok, of nid] by (intro decay_xp_ge0) (simp add: score_ok_def eq)
  ultimately show ?thesis using Some ok by (simp add: apply_inactivity_decay_def Let_def)
qed (simp add: apply_inactivity_decay_def)

lemma can_participate_facts:
  assumes ok: "k_ok st" and c: "can_participate now nid st = ((b, why), st')"
  shows "k_ok st'" "cluster_of st' = cluster_of st" "memberships_of st' = memberships_of st"
    "eviction_queue st' = eviction_queue st" "clusters st' = clusters st"
    "b \<longleftrightarrow> nid \<notin> eviction_queue st \<and> \<not> suspension_status (score_of st' nid) \<and> 0 < karma (score_of st' nid)"
proof -
  obtain susp sc' where s: "is_suspended now (score_of st nid) = (susp, sc')"
    by (cases "is_suspended now (score_of st nid)")
  note f = is_suspended_facts [OF s]
  have p: "k_ok (put_score nid sc' (snd (get_score nid st)))"
    using ok f k_ok_score [OF ok, of nid] by (intro k_ok_put) (simp_all add: memberships_of_def)
  have g: "get_score nid st = (score_of st nid, snd (get_score nid st))"
    by (metis get_score_facts(1) prod.collapse)
  show "k_ok st'" "cluster_of st' = cluster_of st" "eviction_queue st' = eviction_queue st" "clusters st' = clusters st"
    using c s p ok by (subst (asm) can_participate_def, subst (asm) g, auto simp: Let_def split: if_splits)+
  show "memberships_of st' = memberships_of st"
    using c s f(4) by (subst (asm) can_participate_def, subst (asm) g, auto simp: Let_def memberships_of_def fun_eq_iff split: if_splits)+
  show "b \<longleftrightarrow> nid \<notin> eviction_queue st \<and> \<not> suspension_status (score_of st' nid) \<and> 0 < karma (score_of st' nid)"
    using c s f by (subst (asm) can_participate_def, subst (asm) g, auto simp: Let_def split: if_splits)+
qed

lemma touch_cluster: "cluster_of (st\<lparr>clusters := dset cid (cluster_of st cid) (clusters st)\<rparr>) = cluster_of st"
  by (auto simp: fun_eq_iff)

lemma touch_cluster_ok: "k_ok (st\<lparr>clusters := dset cid (cluster_of st cid) (clusters st)\<rparr>) = k_ok st"
  unfolding k_ok_def memberships_of_def touch_cluster by simp

lemma join_cluster_ok: "k_ok st \<Longrightarrow> k_ok (snd (join_cluster now nid cid st))"
proof -
  assume ok: "k_ok st"
  obtain b why st1 where c: "can_participate now nid (snd (get_score nid st)) = ((b, why), st1)"
    by (metis prod.collapse)
  have "k_ok st1" using can_participate_facts(1) [OF _ c] ok by simp
  then show ?thesis
    using c by (simp add: join_cluster_def Let_def add_member_ok touch_cluster_ok)
qed

lemma register_ok: "k_ok st \<Longrightarrow> k_ok (register_cluster_activity now nid cid b st)"
proof -
  assume ok: "k_ok st"
  let ?st1 = "snd (get_score nid st)"
  let ?st2 = "if cid \<notin> dkeys (memberships (score_of ?st1 nid)) then add_member now nid cid ?st1 else ?st1"
  have ok2: "k_ok ?st2" using ok by (simp add: add_member_ok)
  have m: "cid \<in> memberships_of ?st2 nid" by (simp add: memberships_of_def add_member_def Let_def)
  have mv: "k_ok (put_score nid ((score_of ?st2 nid)\<lparr>memberships := dset cid m' (memberships (score_of ?st2 nid))\<rparr>) ?st2)" for m'
    using ok2 m k_ok_score [OF ok2, of nid]
    by (intro k_ok_put) (auto simp: memberships_of_def score_ok_def simp del: get_score_facts)
  have fin: "k_ok (put_score nid ((score_of s nid)\<lparr>last_activity_time := now\<rparr>) s)" if "k_ok s" for s
    using that k_ok_score [OF that, of nid] by (intro k_ok_put) (simp_all add: memberships_of_def score_ok_def)
  show ?thesis
    unfolding register_cluster_activity_def Let_def
    by (rule fin) (cases b, simp_all only: if_True if_False, intro report_event_ok(1) mv, rule mv)
qed

section \<open>Elections\<close>

definition eligible :: "rat \<Rightarrow> karma_system \<Rightarrow> string \<Rightarrow> bool" where
  "eligible now st n \<longleftrightarrow> (let sc = score_of st n in
     level sc = MASTER \<and> \<not> fst (is_suspended now sc) \<and> \<not> eviction_pending sc \<and> 0 < karma sc)"

definition election_mass :: "(rat \<Rightarrow> rat) \<Rightarrow> rat \<Rightarrow> karma_system \<Rightarrow> string \<Rightarrow> rat" where
  "election_mass fl now st n = mass fl (snd (is_suspended now (score_of st n)))"

lemma eligible_cong: "score_of st n = score_of st' n \<Longrightarrow> eligible now st n = eligible now st' n"
  "score_of st n = score_of st' n \<Longrightarrow> election_mass fl now st n = election_mass fl now st' n"
  by (simp_all add: eligible_def election_mass_def)

lemma collect_candidates_eq:
  "distinct nids \<Longrightarrow> map (\<lambda>c. (fst c, fst (snd c))) (fst (collect_candidates fl now nids st)) =
     map (\<lambda>n. (n, election_mass fl now st n)) (filter (eligible now st) nids)"
proof (induction nids arbitrary: st)
  case (Cons a nids)
  have g: "get_score a st = (score_of st a, snd (get_score a st))"
    by (metis get_score_facts(1) prod.collapse)
  obtain susp sc' where s: "is_suspended now (score_of st a) = (susp, sc')"
    by (cases "is_suspended now (score_of st a)")
  note f = is_suspended_facts [OF s]
  let ?st2 = "put_score a sc' (snd (get_score a st))"
  have same: "filter (eligible now ?st2) nids = filter (eligible now st) nids"
    "filter (eligible now (snd (get_score a st))) nids = filter (eligible now st) nids"
    using Cons.prems by (auto intro!: filter_cong eligible_cong)
  have same': "map (\<lambda>n. (n, election_mass fl now ?st2 n)) (filter P nids) = map (\<lambda>n. (n, election_mass fl now st n)) (filter P nids)"
    "map (\<lambda>n. (n, election_mass fl now (snd (get_score a st)) n)) (filter P nids) =
       map (\<lambda>n. (n, election_mass fl now st n)) (filter P nids)" for P
    using Cons.prems by (auto intro!: eligible_cong)
  note ih2 = Cons.IH [of ?st2, unfolded same same'] and ih1 = Cons.IH [of "snd (get_score a st)", unfolded same same']
  have el: "eligible now st a \<longleftrightarrow> level (score_of st a) = MASTER \<and> \<not> (susp \<or> eviction_pending sc' \<or> karma sc' \<le> 0)"
    using f s by (auto simp: eligible_def Let_def)
  show ?case
    unfolding collect_candidates.simps
    using Cons.prems ih1 ih2 s el by (subst g) (auto simp: election_mass_def split: prod.splits)
qed simp

lemma elect_spec:
  assumes "distinct (iter (cluster_of st cid))" "set (iter (cluster_of st cid)) = cluster_of st cid"
  shows "case fst (elect_master_node fl iter now cid st) of
      None \<Rightarrow> \<forall>n \<in> cluster_of st cid. \<not> eligible now st n
    | Some w \<Rightarrow> w \<in> cluster_of st cid \<and> eligible now st w \<and>
        (\<forall>n \<in> cluster_of st cid. eligible now st n \<longrightarrow> election_mass fl now st n \<le> election_mass fl now st w)"
proof -
  obtain cs st1 where c: "collect_candidates fl now (iter (cluster_of st cid)) st = (cs, st1)"
    by (cases "collect_candidates fl now (iter (cluster_of st cid)) st")
  let ?srt = "sort_key (\<lambda>c. - fst (snd c)) cs"
  have eq: "map (\<lambda>c. (fst c, fst (snd c))) cs =
      map (\<lambda>n. (n, election_mass fl now st n)) (filter (eligible now st) (iter (cluster_of st cid)))"
    using collect_candidates_eq [OF assms(1), of fl now st] c by simp
  have img: "(\<lambda>c. (fst c, fst (snd c))) ` set cs =
      (\<lambda>n. (n, election_mass fl now st n)) ` {n \<in> cluster_of st cid. eligible now st n}"
    using arg_cong [OF eq, of set] assms(2) by simp
  show ?thesis
  proof (cases ?srt)
    case Nil
    then have "cs = []" by (metis length_0_conv length_sort)
    with img have "{n \<in> cluster_of st cid. eligible now st n} = {}" by simp
    then show ?thesis using c Nil by (auto simp: elect_master_node_def get_master_node_candidates_def)
  next
    case (Cons w rest)
    have w: "w \<in> set cs" using Cons by (metis list.set_intros(1) set_sort)
    have best: "fst (snd c) \<le> fst (snd w)" if "c \<in> set cs" for c
    proof -
      have "c \<in> set (w # rest)" using that Cons by (metis set_sort)
      moreover have "sorted (map (\<lambda>c. - fst (snd c)) (w # rest))" by (metis Cons sorted_sort_key)
      ultimately show ?thesis by auto
    qed
    have res: "fst (elect_master_node fl iter now cid st) = Some (fst w)"
      using c Cons by (simp add: elect_master_node_def get_master_node_candidates_def)
    have wm: "fst w \<in> cluster_of st cid" "eligible now st (fst w)" "fst (snd w) = election_mass fl now st (fst w)"
      using imageI [OF w, of "\<lambda>c. (fst c, fst (snd c))"] unfolding img by auto
    have "election_mass fl now st n \<le> election_mass fl now st (fst w)"
      if n: "n \<in> cluster_of st cid" "eligible now st n" for n
    proof -
      have "(n, election_mass fl now st n) \<in> (\<lambda>c. (fst c, fst (snd c))) ` set cs"
        unfolding img using n by blast
      then obtain c where "c \<in> set cs" "fst (snd c) = election_mass fl now st n" by auto
      with best [of c] wm(3) show ?thesis by simp
    qed
    with res wm show ?thesis by simp
  qed
qed

lemma collect_candidates_ok: "k_ok st \<Longrightarrow> k_ok (snd (collect_candidates fl now nids st))"
proof (induction nids arbitrary: st)
  case (Cons a nids)
  have g: "get_score a st = (score_of st a, snd (get_score a st))"
    by (metis get_score_facts(1) prod.collapse)
  obtain susp sc' where s: "is_suspended now (score_of st a) = (susp, sc')"
    by (cases "is_suspended now (score_of st a)")
  note f = is_suspended_facts [OF s]
  have "k_ok (put_score a sc' (snd (get_score a st)))"
    using Cons.prems f k_ok_score [OF Cons.prems, of a] by (intro k_ok_put) (simp_all add: memberships_of_def)
  note ih2 = Cons.IH [OF this] and ih1 = Cons.IH [of "snd (get_score a st)"]
  show ?case
    unfolding collect_candidates.simps
    using Cons.prems ih1 ih2 s by (subst g) (auto simp: Let_def split: prod.splits)
qed simp

lemma tally_ok: "k_ok st \<Longrightarrow> k_ok (snd (tally_cluster fl now nids n m k st))"
proof (induction nids arbitrary: n m k st)
  case (Cons a nids)
  obtain b why st1 where c: "can_participate now a (snd (get_score a st)) = ((b, why), st1)"
    by (metis prod.collapse)
  have "k_ok st1" using can_participate_facts(1) [OF _ c] Cons.prems by simp
  then show ?case using Cons.IH c by (simp add: Let_def)
qed simp

section \<open>Runs of the system\<close>

datatype karma_action =
    Report string karma_event string string
  | Decay string
  | Activity string string bool
  | Join string string
  | Leave string string
  | Ask string
  | Elect string
  | Info string

fun karma_step ::
    "(rat \<Rightarrow> rat) \<Rightarrow> (string set \<Rightarrow> string list) \<Rightarrow> rat \<Rightarrow> karma_action \<Rightarrow> karma_system \<Rightarrow> karma_system" where
  "karma_step fl iter now (Report n ev reason sev) st = snd (report_event now n ev reason sev st)"
| "karma_step fl iter now (Decay n) st = snd (apply_inactivity_decay now n st)"
| "karma_step fl iter now (Activity n c b) st = register_cluster_activity now n c b st"
| "karma_step fl iter now (Join n c) st = snd (join_cluster now n c st)"
| "karma_step fl iter now (Leave n c) st = snd (leave_cluster now n c st)"
| "karma_step fl iter now (Ask n) st = snd (can_participate now n st)"
| "karma_step fl iter now (Elect c) st = snd (elect_master_node fl iter now c st)"
| "karma_step fl iter now (Info c) st = snd (get_cluster_info fl iter now c st)"

inductive karma_reachable :: "(rat \<Rightarrow> rat) \<Rightarrow> (string set \<Rightarrow> string list) \<Rightarrow> karma_system \<Rightarrow> bool"
  for fl iter where
  start: "karma_reachable fl iter (karma_empty None)"
| step: "karma_reachable fl iter st \<Longrightarrow> karma_reachable fl iter (karma_step fl iter now act st)"

lemma karma_step_ok: "k_ok st \<Longrightarrow> k_ok (karma_step fl iter now act st)"
proof (cases act)
  case (Ask n)
  assume "k_ok st"
  then show ?thesis
    using can_participate_facts(1) [of st now n] Ask by (cases "can_participate now n st") auto
next
  case (Elect c)
  assume ok: "k_ok st"
  have "snd (elect_master_node fl iter now c st) = snd (collect_candidates fl now (iter (cluster_of st c)) st)"
    by (auto simp: elect_master_node_def get_master_node_candidates_def split: prod.splits list.splits)
  then show ?thesis using Elect ok by (simp add: collect_candidates_ok)
next
  case (Info c)
  assume ok: "k_ok st"
  have "snd (get_cluster_info fl iter now c st) = snd (tally_cluster fl now (iter (cluster_of st c)) 0 0 0 st)"
    by (auto simp: get_cluster_info_def split: prod.splits)
  then show ?thesis using Info ok by (simp add: tally_ok)
qed (simp_all add: report_event_ok(1) decay_ok register_ok join_cluster_ok leave_cluster_ok)

lemma karma_empty_ok: "k_ok (karma_empty d)"
  by (simp add: k_ok_def karma_empty_def score_of_def cluster_of_def memberships_of_def)

fun karma_run ::
    "(rat \<Rightarrow> rat) \<Rightarrow> (string set \<Rightarrow> string list) \<Rightarrow> (rat \<times> karma_action) list \<Rightarrow> karma_system \<Rightarrow> karma_system" where
  "karma_run fl iter [] st = st"
| "karma_run fl iter (a # as) st = karma_run fl iter as (karma_step fl iter (fst a) (snd a) st)"

lemma collect_candidates_queue: "eviction_queue (snd (collect_candidates fl now nids st)) = eviction_queue st"
proof (induction nids arbitrary: st)
  case (Cons a nids)
  have g: "get_score a st = (score_of st a, snd (get_score a st))"
    by (metis get_score_facts(1) prod.collapse)
  show ?case
    unfolding collect_candidates.simps using Cons.IH
    by (subst g, auto simp: Let_def split: prod.splits) (metis get_score_facts(4) put_score_simps(3) snd_conv)+
qed simp

lemma tally_queue: "k_ok st \<Longrightarrow> eviction_queue (snd (tally_cluster fl now nids n m k st)) = eviction_queue st"
proof (induction nids arbitrary: n m k st)
  case (Cons a nids)
  obtain b why st1 where c: "can_participate now a (snd (get_score a st)) = ((b, why), st1)"
    by (metis prod.collapse)
  have "k_ok st1" "eviction_queue st1 = eviction_queue st"
    using can_participate_facts(1,4) [OF _ c] Cons.prems by simp_all
  then show ?case using Cons.IH c by (simp add: Let_def)
qed simp

lemma join_cluster_queue: "k_ok st \<Longrightarrow> eviction_queue (snd (join_cluster now nid cid st)) = eviction_queue st"
proof -
  assume ok: "k_ok st"
  obtain b why st1 where c: "can_participate now nid (snd (get_score nid st)) = ((b, why), st1)"
    by (metis prod.collapse)
  have "eviction_queue st1 = eviction_queue st" using can_participate_facts(4) [OF _ c] ok by simp
  then show ?thesis using c by (simp add: join_cluster_def Let_def add_member_def)
qed

lemma register_queue: "k_ok st \<Longrightarrow> eviction_queue (register_cluster_activity now nid cid b st) = eviction_queue st"
proof -
  assume ok: "k_ok st"
  let ?st1 = "snd (get_score nid st)"
  let ?st2 = "if cid \<notin> dkeys (memberships (score_of ?st1 nid)) then add_member now nid cid ?st1 else ?st1"
  have ok2: "k_ok ?st2" using ok by (simp add: add_member_ok)
  have m: "cid \<in> memberships_of ?st2 nid" by (simp add: memberships_of_def add_member_def Let_def)
  have "k_ok (put_score nid ((score_of ?st2 nid)\<lparr>memberships := dset cid m' (memberships (score_of ?st2 nid))\<rparr>) ?st2)" for m'
    using ok2 m k_ok_score [OF ok2, of nid]
    by (intro k_ok_put) (auto simp: memberships_of_def score_ok_def simp del: get_score_facts)
  note r = report_event_ok(2) [OF this]
  have "eviction_queue ?st2 = eviction_queue st" by (simp add: add_member_def Let_def)
  then show ?thesis unfolding register_cluster_activity_def Let_def by (cases b) (simp_all only: if_True if_False put_score_simps r, simp_all)
qed

text \<open>Only a revocation violation adds to the eviction queue, and nothing takes from it.\<close>

lemma karma_step_queue:
  assumes ok: "k_ok st"
  shows "eviction_queue (karma_step fl iter now act st) =
    eviction_queue st \<union> {n. \<exists>reason severity. act = Report n REVOCATION_VIOLATION reason severity}"
proof (cases act)
  case (Report n ev reason severity)
  then show ?thesis using report_event_ok(2) [OF ok] by auto
next
  case (Decay n)
  then show ?thesis by (auto simp: apply_inactivity_decay_def Let_def split: option.splits)
next
  case (Ask n)
  then show ?thesis using can_participate_facts(4) [OF ok, of now n] by (cases "can_participate now n st") auto
next
  case (Elect c)
  have "snd (elect_master_node fl iter now c st) = snd (collect_candidates fl now (iter (cluster_of st c)) st)"
    by (auto simp: elect_master_node_def get_master_node_candidates_def split: prod.splits list.splits)
  then show ?thesis using Elect by (simp add: collect_candidates_queue)
next
  case (Info c)
  have "snd (get_cluster_info fl iter now c st) = snd (tally_cluster fl now (iter (cluster_of st c)) 0 0 0 st)"
    by (auto simp: get_cluster_info_def split: prod.splits)
  then show ?thesis using Info ok by (simp add: tally_queue)
qed (use ok in \<open>auto simp: join_cluster_queue register_queue\<close>)

lemma karma_run_queue:
  "k_ok st \<Longrightarrow> n \<in> eviction_queue st \<Longrightarrow> k_ok (karma_run fl iter acts st) \<and> n \<in> eviction_queue (karma_run fl iter acts st)"
  by (induction acts arbitrary: st) (simp_all add: karma_step_ok karma_step_queue)

lemma evicted_refused:
  assumes "k_ok st" "n \<in> eviction_queue st"
  shows "\<not> fst (fst (can_participate t n st))" "\<not> fst (join_cluster t n c st)"
proof -
  show "\<not> fst (fst (can_participate t n st))"
    using can_participate_facts(6) [OF assms(1), of t n] assms(2) by (cases "can_participate t n st") auto
  obtain b why st1 where cp: "can_participate t n (snd (get_score n st)) = ((b, why), st1)"
    by (metis prod.collapse)
  have "\<not> b" using can_participate_facts(6) [OF _ cp] assms by simp
  with cp show "\<not> fst (join_cluster t n c st)" by (simp add: join_cluster_def)
qed

section \<open>Arithmetic of the decay\<close>

lemma bit_length_bounds:
  assumes "0 < n"
  shows "2 ^ (bit_length n - 1) \<le> n" "n < 2 ^ bit_length n"
  using assms
proof (induction n rule: bit_length.induct)
  case (1 n)
  {
    case 1
    show ?case
    proof (cases "n div 2 = 0")
      case True
      with 1 have "n = 1" by linarith
      then show ?thesis by (simp add: bit_length.simps)
    next
      case False
      then have "0 < bit_length (n div 2)" by (subst bit_length.simps) simp
      then have "2 ^ bit_length (n div 2) = 2 * 2 ^ (bit_length (n div 2) - 1)"
        by (metis Suc_diff_1 power_Suc)
      also have "\<dots> \<le> 2 * (n div 2)" using "1.IH"(1) 1 False by simp
      finally show ?thesis using 1 by (subst bit_length.simps) simp
    qed
  next
    case 2
    show ?case
    proof (cases "n div 2 = 0")
      case True
      with 2 have "n = 1" by linarith
      then show ?thesis by (simp add: bit_length.simps)
    next
      case False
      then have "n div 2 < 2 ^ bit_length (n div 2)" using "1.IH"(2) 2 by simp
      then have "n < 2 * 2 ^ bit_length (n div 2)" by linarith
      then show ?thesis using 2 by (subst bit_length.simps) simp
    qed
  }
qed

lemma round53_le: "round53 n \<le> 2 * n"
proof (cases "n = 0")
  case True
  then show ?thesis by (simp add: round53_def bit_length.simps)
next
  case False
  let ?s = "bit_length n - 53"
  have "(2 :: nat) ^ ?s \<le> 2 ^ (bit_length n - 1)" by (intro power_increasing) auto
  also have "\<dots> \<le> n" using bit_length_bounds(1) False by simp
  finally have "(n div 2 ^ ?s + 1) * 2 ^ ?s \<le> n + n"
    by (simp add: add_mult_distrib add_mono div_times_less_eq_dividend)
  moreover have "n div 2 ^ ?s * 2 ^ ?s \<le> n" by (rule div_times_less_eq_dividend)
  ultimately show ?thesis unfolding round53_def Let_def by (simp add: mult_2)
qed

lemma xp_lost_bounds:
  assumes "0 \<le> xp"
  shows "0 \<le> xp_lost xp" "xp_lost xp \<le> xp"
proof -
  let ?m = "round53 (nat xp) * 5404319552844595"
  have "round53 ?m \<le> 2 * (2 * nat xp * 5404319552844595)"
    using round53_le [of ?m] round53_le [of "nat xp"] by linarith
  also have "\<dots> \<le> nat xp * 2 ^ 55" by simp
  finally have "round53 ?m div 2 ^ 55 \<le> nat xp"
    by (metis div_le_mono nonzero_mult_div_cancel_right power_not_zero zero_neq_numeral)
  with assms show "xp_lost xp \<le> xp" by (simp add: xp_lost_def)
  show "0 \<le> xp_lost xp" by (simp add: xp_lost_def)
qed

lemma decay_xp_le: "0 \<le> xp \<Longrightarrow> decay_xp n xp \<le> xp"
proof (induction n arbitrary: xp)
  case (Suc n)
  have "decay_xp n (max 0 (xp - xp_lost xp)) \<le> max 0 (xp - xp_lost xp)" by (rule Suc.IH) simp
  with xp_lost_bounds [OF Suc.prems] Suc.prems show ?case by simp
qed simp

section \<open>Properties\<close>

definition demo_karma :: karma_system where
  "demo_karma = snd (report_event 0 ''n'' VALID_CONTRIBUTION [] ''minor'' (karma_empty None))"

lemma demo_karma_ok: "k_ok demo_karma"
  unfolding demo_karma_def by (rule report_event_ok(1) [OF karma_empty_ok])

definition master_karma :: karma_system where
  "master_karma = (karma_empty None)\<lparr>
     scores := [(''n'', (fresh_score ''n'')\<lparr>total_experience := 200000, level := MASTER,
                   memberships := [(''c'', fresh_membership ''c'' 0)]\<rparr>)],
     clusters := [(''c'', {''n''})]\<rparr>"

text \<open>C13. Invariant of the reputation system: in every state reached by reported events, decay,
  cluster activity, joins, leaves, participation checks, elections and statistics, each node has
  karma in \<open>0..100\<close>, non-negative experience and the level of its experience, cluster sets and
  membership dictionaries agree, and exactly the nodes in the eviction queue are marked.\<close>

theorem karma_reachable_invariant:
  assumes "karma_reachable fl iter st"
  shows "0 \<le> karma (score_of st n) \<and> karma (score_of st n) \<le> 100 \<and> 0 \<le> total_experience (score_of st n) \<and>
    level (score_of st n) = compute_level (total_experience (score_of st n)) \<and>
    (n \<in> cluster_of st c \<longleftrightarrow> c \<in> dkeys (memberships (score_of st n))) \<and>
    (n \<in> eviction_queue st \<longleftrightarrow> eviction_pending (score_of st n))"
proof -
  have "k_ok st"
    using assms by (induction rule: karma_reachable.induct) (simp_all add: karma_empty_ok karma_step_ok)
  then show ?thesis by (simp add: k_ok_def score_ok_def memberships_of_def)
qed

theorem karma_reachable_invariant_witness:
  "karma_reachable (\<lambda>x. x) (\<lambda>s. []) demo_karma \<and> karma (score_of demo_karma ''n'') \<le> 100"
proof -
  have "karma_reachable (\<lambda>x. x) (\<lambda>s. [])
      (karma_step (\<lambda>x. x) (\<lambda>s. []) 0 (Report ''n'' VALID_CONTRIBUTION [] ''minor'') (karma_empty None))"
    by (intro karma_reachable.intros)
  then have r: "karma_reachable (\<lambda>x. x) (\<lambda>s. []) demo_karma" by (simp add: demo_karma_def)
  from karma_reachable_invariant [OF r] r show ?thesis by blast
qed

text \<open>C14. Eviction is for revocation only, and for good. In every reachable state an operation adds a node to
  the eviction queue exactly when it reports a revocation violation of that node (the other documented
  trigger, karma of \<open>-50\<close>, cannot occur because karma is clamped to \<open>0..100\<close>), and no operation takes a node
  out. Right after the report the node is in no cluster. After any further operations, and for every
  iteration order of the sets, it is still refused participation and every join, and never elected;
  it may be a member again, since cluster activity admits it (\<open>activity_readmits_evicted\<close>).\<close>

theorem eviction_permanent:
  assumes "karma_reachable fl iter st" "\<And>s. finite s \<Longrightarrow> set (iter s) = s \<and> distinct (iter s)"
  shows "eviction_queue (karma_step fl iter now act st) =
      eviction_queue st \<union> {n. \<exists>reason severity. act = Report n REVOCATION_VIOLATION reason severity} \<and>
    (let st' = snd (report_event now n REVOCATION_VIOLATION reason severity st) in
      (\<forall>c. n \<notin> cluster_of st' c) \<and>
      (\<forall>acts t c. let st'' = karma_run fl iter acts st' in
        n \<in> eviction_queue st'' \<and> \<not> fst (fst (can_participate t n st'')) \<and> \<not> fst (join_cluster t n c st'') \<and>
        fst (elect_master_node fl iter t c st'') \<noteq> Some n))"
proof -
  let ?st = "snd (report_event now n REVOCATION_VIOLATION reason severity st)"
  have ok: "k_ok st"
    using assms(1) by (induction rule: karma_reachable.induct) (simp_all add: karma_empty_ok karma_step_ok)
  note r = report_event_ok [OF ok, where now = now and nid = n and ev = REVOCATION_VIOLATION and reason = reason and severity = severity]
  have later: "k_ok (karma_run fl iter acts ?st) \<and> n \<in> eviction_queue (karma_run fl iter acts ?st)" for acts
    using r(1,2) by (intro karma_run_queue) simp_all
  have "fst (elect_master_node fl iter t c st'') \<noteq> Some n" if st: "k_ok st''" "n \<in> eviction_queue st''" for st'' t c
  proof -
    have "\<not> eligible t st'' n" using st by (auto simp: eligible_def Let_def k_ok_def)
    moreover have "finite (cluster_of st'' c)" using st(1) by (simp add: k_ok_def)
    ultimately show ?thesis using elect_spec [where iter = iter and st = st'' and cid = c and fl = fl and now = t] assms(2) by (auto split: option.splits)
  qed
  moreover have "\<forall>c. n \<notin> cluster_of ?st c" using r(1,3) by (simp add: k_ok_def)
  ultimately show ?thesis
    using later evicted_refused by (simp add: karma_step_queue [OF ok] Let_def)
qed

theorem eviction_permanent_witness:
  "let st' = snd (report_event 1 ''n'' REVOCATION_VIOLATION [] ''severe'' demo_karma);
       st'' = karma_run (\<lambda>x. x) sorted_list_of_set [(2, Report ''n'' VALID_CONTRIBUTION [] ''minor''), (3, Activity ''n'' ''c'' True)] st' in
   (\<forall>c. ''n'' \<notin> cluster_of st' c) \<and> ''n'' \<in> eviction_queue st'' \<and> \<not> fst (join_cluster 4 ''n'' ''c'' st'') \<and>
   fst (elect_master_node (\<lambda>x. x) sorted_list_of_set 5 ''c'' st'') \<noteq> Some ''n''"
proof -
  have "karma_reachable (\<lambda>x. x) sorted_list_of_set
      (karma_step (\<lambda>x. x) sorted_list_of_set 0 (Report ''n'' VALID_CONTRIBUTION [] ''minor'') (karma_empty None))"
    by (intro karma_reachable.intros)
  then have r: "karma_reachable (\<lambda>x. x) sorted_list_of_set demo_karma" by (simp add: demo_karma_def)
  note e = eviction_permanent [OF r, where now = 1 and act = "Ask ''n''" and n = "''n''" and reason = "[]" and severity = "''severe''",
      THEN conjunct2, unfolded Let_def]
  show ?thesis
    unfolding Let_def using e [THEN conjunct1] e [THEN conjunct2, rule_format] by (simp del: karma_run.simps)
qed

text \<open>C15. Joining respects capacity: \<open>join_cluster\<close> never makes a cluster of at most 100 nodes
  exceed 100, a node it reports as joined is a member of the cluster, and a full cluster refuses
  every request without changing any cluster.\<close>

theorem join_cluster_capacity:
  assumes "k_ok st" "join_cluster now n c st = (joined, st')"
  shows "(joined \<longrightarrow> n \<in> cluster_of st' c \<and> card (cluster_of st' c) \<le> CLUSTER_SIZE) \<and>
    (\<not> joined \<longrightarrow> cluster_of st' = cluster_of st) \<and>
    (CLUSTER_SIZE \<le> card (cluster_of st c) \<longrightarrow> \<not> joined)"
proof -
  obtain b why st1 where cp: "can_participate now n (snd (get_score n st)) = ((b, why), st1)"
    by (metis prod.collapse)
  have "k_ok (snd (get_score n st))" using assms(1) by simp
  note f = can_participate_facts [OF this cp]
  let ?st2 = "st1\<lparr>clusters := dset c (cluster_of st1 c) (clusters st1)\<rparr>"
  have ok1: "k_ok st1" and cl: "cluster_of st1 = cluster_of st" using f(1,2) by simp_all
  have fin: "finite (cluster_of st c)" using assms(1) by (simp add: k_ok_def)
  show ?thesis
  proof (cases "b \<and> card (cluster_of st c) < CLUSTER_SIZE")
    case True
    have join: "join_cluster now n c st = (if c \<notin> dkeys (memberships (score_of ?st2 n))
        then (True, karma_save now (add_member now n c ?st2)) else (True, ?st2))"
      using True cl unfolding join_cluster_def Let_def cp prod.case by (simp add: touch_cluster)
    have mem: "n \<in> cluster_of ?st2 c" if "c \<in> dkeys (memberships (score_of ?st2 n))"
      using ok1 that by (simp add: touch_cluster k_ok_def memberships_of_def)
    have "card (insert n (cluster_of st c)) \<le> CLUSTER_SIZE"
      using True fin by (simp add: card_insert_if)
    with True join mem assms(2) cl show ?thesis
      by (auto simp: add_member_def Let_def touch_cluster split: if_splits)
  next
    case False
    with cp assms(2) cl show ?thesis
      unfolding join_cluster_def Let_def cp prod.case by (auto simp: touch_cluster split: if_splits)
  qed
qed

theorem join_cluster_capacity_witness:
  "\<exists>st'. join_cluster 1 ''n'' ''c'' (karma_empty None) = (True, st') \<and> ''n'' \<in> cluster_of st' ''c'' \<and>
    card (cluster_of st' ''c'') \<le> CLUSTER_SIZE"
proof -
  obtain st' where "join_cluster 1 ''n'' ''c'' (karma_empty None) = (True, st')"
    by (simp add: join_cluster_def can_participate_def karma_empty_def get_score_def is_suspended_def score_of_def put_score_def
        cluster_of_def CLUSTER_SIZE_def fresh_score_def)
  then show ?thesis using join_cluster_capacity [OF karma_empty_ok] by blast
qed

text \<open>Bounded decay: the loss returned by \<open>apply_inactivity_decay\<close>, computed in double
  precision, is between zero and the node's experience, is what the experience shrinks by, and is
  zero for a node active within the last seven days; the level follows the new experience.\<close>

theorem decay_bounds:
  assumes "k_ok st" "apply_inactivity_decay now n st = (loss, st')"
  shows "0 \<le> loss \<and> loss \<le> total_experience (score_of st n) \<and>
    total_experience (score_of st' n) = total_experience (score_of st n) - loss \<and>
    level (score_of st' n) = compute_level (total_experience (score_of st' n)) \<and>
    (now - last_activity_time (score_of st n) < INACTIVITY_DECAY_PERIOD \<longrightarrow> loss = 0)"
proof -
  have ok': "k_ok st'" using decay_ok [OF assms(1), of now n] assms(2) by simp
  have xp: "0 \<le> total_experience (score_of st n)" using k_ok_score [OF assms(1), of n] by (simp add: score_ok_def)
  have "level (score_of st' n) = compute_level (total_experience (score_of st' n))"
    using k_ok_score [OF ok', of n] by (simp add: score_ok_def)
  moreover have "0 \<le> loss \<and> loss \<le> total_experience (score_of st n) \<and>
      total_experience (score_of st' n) = total_experience (score_of st n) - loss \<and>
      (now - last_activity_time (score_of st n) < INACTIVITY_DECAY_PERIOD \<longrightarrow> loss = 0)"
  proof (cases "dget (scores st) n")
    case None
    with assms(2) xp show ?thesis by (simp add: apply_inactivity_decay_def)
  next
    case (Some sc)
    have "sc = score_of st n" using score_of_Some [OF Some] by simp
    with assms(2) Some xp decay_xp_le [OF xp] decay_xp_ge0 [OF xp] show ?thesis
      by (auto simp: apply_inactivity_decay_def Let_def split: if_splits)
  qed
  ultimately show ?thesis by blast
qed

theorem decay_bounds_witness:
  "case apply_inactivity_decay 700000 ''n'' demo_karma of (loss, st') \<Rightarrow>
     0 \<le> loss \<and> loss \<le> total_experience (score_of demo_karma ''n'')"
  by (cases "apply_inactivity_decay 700000 ''n'' demo_karma") (use decay_bounds [OF demo_karma_ok] in auto)

text \<open>C16. Elections pick the heaviest eligible node: for every rounding of the masses and every
  iteration order of the member set, the elected node is a member with MASTER level, positive
  karma, neither suspended nor marked for eviction, no eligible member is heavier, and nobody is
  elected only when no member is eligible.\<close>

theorem elect_master_node_spec:
  assumes "k_ok st" "\<And>s. finite s \<Longrightarrow> set (iter s) = s \<and> distinct (iter s)"
  shows "case fst (elect_master_node fl iter now c st) of
      None \<Rightarrow> \<forall>n \<in> cluster_of st c. \<not> eligible now st n
    | Some w \<Rightarrow> w \<in> cluster_of st c \<and> eligible now st w \<and>
        (\<forall>n \<in> cluster_of st c. eligible now st n \<longrightarrow> election_mass fl now st n \<le> election_mass fl now st w)"
proof -
  have "finite (cluster_of st c)" using assms(1) by (simp add: k_ok_def)
  with assms(2) show ?thesis by (intro elect_spec) auto
qed

lemma master_karma_ok: "k_ok master_karma"
proof -
  have "compute_level 200000 = MASTER" by (simp add: compute_level_def)
  then show ?thesis
    by (auto simp: k_ok_def master_karma_def score_of_def cluster_of_def memberships_of_def score_ok_def
        karma_empty_def dict_ok_def fresh_score_def)
qed

theorem elect_master_node_spec_witness:
  "fst (elect_master_node (\<lambda>x. x) sorted_list_of_set 5 ''c'' master_karma) = Some ''n''"
proof -
  have c: "cluster_of master_karma ''c'' = {''n''}" by (simp add: master_karma_def cluster_of_def)
  have e: "eligible 5 master_karma ''n''"
    by (simp add: eligible_def master_karma_def score_of_def karma_empty_def is_suspended_def fresh_score_def)
  have "case fst (elect_master_node (\<lambda>x. x) sorted_list_of_set 5 ''c'' master_karma) of
      None \<Rightarrow> \<forall>n \<in> cluster_of master_karma ''c''. \<not> eligible 5 master_karma n
    | Some w \<Rightarrow> w \<in> cluster_of master_karma ''c'' \<and> eligible 5 master_karma w \<and>
        (\<forall>n \<in> cluster_of master_karma ''c''. eligible 5 master_karma n \<longrightarrow>
           election_mass (\<lambda>x. x) 5 master_karma n \<le> election_mass (\<lambda>x. x) 5 master_karma w)"
    by (rule elect_master_node_spec [OF master_karma_ok]) auto
  with c e show ?thesis by (auto split: option.splits)
qed

section \<open>Two observations\<close>

text \<open>Decay does not reset the activity timer, so a second call for the same idle period takes
  experience again: 1000, then 850, then 723 points.\<close>

lemma decay_repeats:
  fixes sc defines "sc \<equiv> (fresh_score ''n'')\<lparr>total_experience := 1000, level := VALIDATOR\<rparr>"
  shows "case apply_inactivity_decay 700000 ''n'' ((karma_empty None)\<lparr>scores := [(''n'', sc)]\<rparr>) of
    (l1, st1) \<Rightarrow> l1 = 150 \<and> fst (apply_inactivity_decay 700000 ''n'' st1) = 127"
proof -
  have x: "xp_lost 1000 = 150" "xp_lost 850 = 127"
    by (simp_all add: xp_lost_def round53_def Let_def bit_length.simps)
  have p: "nat \<lfloor>(700000 :: rat) / INACTIVITY_DECAY_PERIOD\<rfloor> = 1"
    by (simp add: INACTIVITY_DECAY_PERIOD_def floor_divide_of_int_eq [of 700000 604800, simplified])
  have d: "decay_xp 1 1000 = 850" "decay_xp 1 850 = 723" by (simp_all add: x)
  have s: "scores (karma_save t st) = scores st" "scores (log_event n r st) = scores st" for t st n r
    by (simp_all add: log_event_def)
  show ?thesis
    by (simp add: apply_inactivity_decay_def sc_def p d s Let_def put_score_def fresh_score_def del: One_nat_def)
      (simp add: INACTIVITY_DECAY_PERIOD_def)
qed

text \<open>Cluster activity admits any node: it bypasses the capacity check and the participation check
  that guard \<open>join_cluster\<close>, so an evicted node becomes a member again.\<close>

lemma activity_readmits_evicted:
  assumes "n \<in> eviction_queue st" "k_ok st"
  shows "n \<in> cluster_of (register_cluster_activity now n c False st) c"
    "n \<in> eviction_queue (register_cluster_activity now n c False st)"
proof -
  show "n \<in> cluster_of (register_cluster_activity now n c False st) c"
    using assms by (auto simp: register_cluster_activity_def add_member_def Let_def k_ok_def memberships_of_def)
  show "n \<in> eviction_queue (register_cluster_activity now n c False st)"
    using assms by (simp add: register_cluster_activity_def add_member_def Let_def)
qed

end
