(* ===== verification/Auth_Pipeline.thy ===== *)
theory Auth_Pipeline
  imports Prelude Complex_Main
begin

text \<open>
  The authentication pipeline of \<^verbatim>\<open>zdx_auth_pipeline.py\<close>. The callables handed to the constructor
  are the fields of \<^verbatim>\<open>auth_env\<close>; the handler is represented by the list \<open>dispatched\<close> of the
  messages it was called with. Times are rational numbers, \<open>now\<close> is the time at which a message is
  processed. \<open>AuthenticationError\<close> is a value with its stage and peer; the free-text reason is left
  out.

  The lemmas show that only authenticated messages reach the stateful stages, exactly when a message
  is dispatched, that dispatched sequence numbers of a peer strictly increase between two clearings of
  its replay state, and the rate limit of a window.
\<close>

section \<open>Replay guard\<close>

definition MAX_MESSAGE_AGE :: rat where "MAX_MESSAGE_AGE = 60"
definition SEQUENCE_WINDOW :: int where "SEQUENCE_WINDOW = 100"
definition RATE_LIMIT_WINDOW :: rat where "RATE_LIMIT_WINDOW = 10"
definition RATE_LIMIT_MAX_MESSAGES :: nat where "RATE_LIMIT_MAX_MESSAGES = 100"

record guard =
  g_peer_id :: string
  last_sequence :: int
  seen_sequences :: "int set"
  last_message_time :: rat
  message_count :: nat
  rate_limit_window_start :: rat

definition new_guard :: "string \<Rightarrow> guard" where
  "new_guard p = \<lparr>g_peer_id = p, last_sequence = - 1, seen_sequences = {}, last_message_time = 0,
     message_count = 0, rate_limit_window_start = 0\<rparr>"

definition check_and_update_rate_limit :: "rat \<Rightarrow> guard \<Rightarrow> bool \<times> guard" where
  "check_and_update_rate_limit now g =
     (let g1 = (if now - rate_limit_window_start g > RATE_LIMIT_WINDOW
                then g\<lparr>rate_limit_window_start := now, message_count := 0\<rparr> else g);
          g2 = g1\<lparr>message_count := Suc (message_count g1)\<rparr>
      in (message_count g2 \<le> RATE_LIMIT_MAX_MESSAGES, g2))"

definition check_sequence :: "int \<Rightarrow> guard \<Rightarrow> bool \<times> guard" where
  "check_sequence s g =
     (if s \<le> last_sequence g then (False, g)
      else if s \<in> seen_sequences g then (False, g)
      else
        (let g1 = (if s > last_sequence g + SEQUENCE_WINDOW then g\<lparr>seen_sequences := {}\<rparr> else g)
         in (True, g1\<lparr>seen_sequences := insert s (seen_sequences g1), last_sequence := s\<rparr>)))"

section \<open>Pipeline\<close>

record 'p auth_msg =
  m_peer :: string
  m_version :: int
  m_timestamp :: rat
  m_signature :: string
  m_payload :: 'p
  m_sequence :: "int option"

record 'p auth_env =
  verify_signature :: "string \<Rightarrow> 'p \<Rightarrow> string \<Rightarrow> bool"
  check_revocation :: "string \<Rightarrow> bool"
  check_enrollment :: "string \<Rightarrow> bool"

record 'p pipeline =
  replay_guards :: "(string, guard) dict"
  dispatched :: "'p auth_msg list"

record auth_error =
  ae_stage :: string
  ae_peer :: string

definition guard_of :: "string \<Rightarrow> 'p pipeline \<Rightarrow> guard" where
  "guard_of p st = (case dget (replay_guards st) p of None \<Rightarrow> new_guard [] | Some g \<Rightarrow> g)"

definition put_guard :: "string \<Rightarrow> guard \<Rightarrow> 'p pipeline \<Rightarrow> 'p pipeline" where
  "put_guard p g st = st\<lparr>replay_guards := dset p g (replay_guards st)\<rparr>"

definition validate_protocol_version :: "int \<Rightarrow> bool" where
  "validate_protocol_version v \<longleftrightarrow> v \<in> {1}"

definition validate_timestamp :: "rat \<Rightarrow> rat \<Rightarrow> bool" where
  "validate_timestamp now t \<longleftrightarrow> \<not> \<bar>now - t\<bar> > MAX_MESSAGE_AGE"

text \<open>Stages 3 to 5 raise when their callable refuses the peer; \<open>True\<close> is the return.\<close>

definition verify_ed25519_signature :: "'p auth_env \<Rightarrow> string \<Rightarrow> string \<Rightarrow> 'p \<Rightarrow> bool" where
  "verify_ed25519_signature env p signature payload \<longleftrightarrow> verify_signature env p payload signature"

definition check_revoked :: "'p auth_env \<Rightarrow> string \<Rightarrow> bool" where
  "check_revoked env p \<longleftrightarrow> \<not> check_revocation env p"

definition check_enrolled :: "'p auth_env \<Rightarrow> string \<Rightarrow> bool" where
  "check_enrolled env p \<longleftrightarrow> check_enrollment env p"

definition check_rate_limit :: "rat \<Rightarrow> string \<Rightarrow> 'p pipeline \<Rightarrow> bool \<times> 'p pipeline" where
  "check_rate_limit now p st =
     (case check_and_update_rate_limit now ((guard_of p st)\<lparr>g_peer_id := p\<rparr>) of
        (ok, g) \<Rightarrow> (ok, put_guard p g st))"

definition check_replay :: "string \<Rightarrow> int \<Rightarrow> 'p pipeline \<Rightarrow> bool \<times> 'p pipeline" where
  "check_replay p s st =
     (case check_sequence s ((guard_of p st)\<lparr>g_peer_id := p\<rparr>) of
        (ok, g) \<Rightarrow> (ok, put_guard p g st))"

definition process_message ::
    "'p auth_env \<Rightarrow> rat \<Rightarrow> 'p auth_msg \<Rightarrow> 'p pipeline \<Rightarrow> auth_error option \<times> 'p pipeline" where
  "process_message env now m st =
     (let fail = (\<lambda>stage s. (Some \<lparr>ae_stage = stage, ae_peer = m_peer m\<rparr>, s));
          dispatch = (\<lambda>s. (None, s\<lparr>dispatched := dispatched s @ [m]\<rparr>))
      in
      if \<not> validate_protocol_version (m_version m) then fail ''protocol_version'' st
      else if \<not> validate_timestamp now (m_timestamp m) then fail ''timestamp'' st
      else if \<not> verify_ed25519_signature env (m_peer m) (m_signature m) (m_payload m)
        then fail ''signature_verification'' st
      else if \<not> check_revoked env (m_peer m) then fail ''revocation_check'' st
      else if \<not> check_enrolled env (m_peer m) then fail ''enrollment_check'' st
      else
        (case check_rate_limit now (m_peer m) st of
           (False, st1) \<Rightarrow> fail ''rate_limit'' st1
         | (True, st1) \<Rightarrow>
             (case m_sequence m of
                None \<Rightarrow> dispatch st1
              | Some s \<Rightarrow>
                  (case check_replay (m_peer m) s st1 of
                     (False, st2) \<Rightarrow> fail ''replay_protection'' st2
                   | (True, st2) \<Rightarrow> dispatch st2))))"

definition get_replay_state :: "string \<Rightarrow> 'p pipeline \<Rightarrow> guard" where
  "get_replay_state p st = (case dget (replay_guards st) p of None \<Rightarrow> new_guard p | Some g \<Rightarrow> g)"

definition clear_replay_state :: "string \<Rightarrow> 'p pipeline \<Rightarrow> 'p pipeline" where
  "clear_replay_state p st = st\<lparr>replay_guards := ddel p (replay_guards st)\<rparr>"

definition empty_pipeline :: "'p pipeline" where
  "empty_pipeline = \<lparr>replay_guards = [], dispatched = []\<rparr>"

text \<open>A history of a pipeline: messages, each with its time and with the answers the callables give at that
  moment, and clearings of the replay state of a peer, as the server does when it revokes one.\<close>

datatype 'p auth_event = Receive "'p auth_env" rat "'p auth_msg" | Clear string

fun auth_step :: "'p auth_event \<Rightarrow> 'p pipeline \<Rightarrow> 'p pipeline" where
  "auth_step (Receive env now m) st = snd (process_message env now m st)"
| "auth_step (Clear p) st = clear_replay_state p st"

fun auth_run :: "'p auth_event list \<Rightarrow> 'p pipeline \<Rightarrow> 'p pipeline" where
  "auth_run [] st = st"
| "auth_run (ev # evs) st = auth_run evs (auth_step ev st)"

section \<open>One message\<close>

text \<open>The stateless stages 1 to 5.\<close>

definition authenticated :: "'p auth_env \<Rightarrow> rat \<Rightarrow> 'p auth_msg \<Rightarrow> bool" where
  "authenticated env now m \<longleftrightarrow> m_version m = 1 \<and> \<bar>now - m_timestamp m\<bar> \<le> MAX_MESSAGE_AGE \<and>
     verify_signature env (m_peer m) (m_payload m) (m_signature m) \<and>
     \<not> check_revocation env (m_peer m) \<and> check_enrollment env (m_peer m)"

lemmas auth_stage_defs = validate_protocol_version_def validate_timestamp_def
  verify_ed25519_signature_def check_revoked_def check_enrolled_def

lemma guard_of_put [simp]: "guard_of q (put_guard p g st) = (if q = p then g else guard_of q st)"
  by (simp add: guard_of_def put_guard_def)

lemma dispatched_put [simp]: "dispatched (put_guard p g st) = dispatched st"
  by (simp add: put_guard_def)

lemma guard_of_dispatch [simp]: "guard_of q (st\<lparr>dispatched := d\<rparr>) = guard_of q st"
  by (simp add: guard_of_def)

lemma process_unauthenticated:
  "\<not> authenticated env now m \<Longrightarrow> \<exists>e. process_message env now m st = (Some e, st)"
  by (auto simp: process_message_def authenticated_def auth_stage_defs Let_def)

lemma rate_limit_facts:
  assumes "check_and_update_rate_limit now g = (ok, g')"
  shows "last_sequence g' = last_sequence g" "seen_sequences g' = seen_sequences g"
    "now - rate_limit_window_start g \<le> RATE_LIMIT_WINDOW \<Longrightarrow>
       message_count g' = Suc (message_count g) \<and> rate_limit_window_start g' = rate_limit_window_start g"
    "ok \<longleftrightarrow> message_count g' \<le> RATE_LIMIT_MAX_MESSAGES"
  using assms by (auto simp: check_and_update_rate_limit_def Let_def split: if_splits)

lemma check_sequence_facts:
  assumes "check_sequence s g = (ok, g')"
  shows "message_count g' = message_count g" "rate_limit_window_start g' = rate_limit_window_start g"
    "ok \<Longrightarrow> last_sequence g < s \<and> last_sequence g' = s" "\<not> ok \<Longrightarrow> g' = g"
    "ok \<Longrightarrow> seen_sequences g' \<subseteq> insert s (seen_sequences g)"
  using assms by (auto simp: check_sequence_def Let_def split: if_splits)

text \<open>What an authenticated message does to the guard of its peer.\<close>

lemma process_authenticated:
  assumes "authenticated env now m"
  shows "\<exists>ok g. check_and_update_rate_limit now ((guard_of (m_peer m) st)\<lparr>g_peer_id := m_peer m\<rparr>) = (ok, g) \<and>
    process_message env now m st =
      (if \<not> ok then (Some \<lparr>ae_stage = ''rate_limit'', ae_peer = m_peer m\<rparr>, put_guard (m_peer m) g st)
       else (case m_sequence m of
          None \<Rightarrow> (None, (put_guard (m_peer m) g st)\<lparr>dispatched := dispatched st @ [m]\<rparr>)
        | Some s \<Rightarrow>
            (case check_sequence s (g\<lparr>g_peer_id := m_peer m\<rparr>) of
               (False, g') \<Rightarrow> (Some \<lparr>ae_stage = ''replay_protection'', ae_peer = m_peer m\<rparr>,
                               put_guard (m_peer m) g' (put_guard (m_peer m) g st))
             | (True, g') \<Rightarrow> (None, (put_guard (m_peer m) g' (put_guard (m_peer m) g st))
                               \<lparr>dispatched := dispatched st @ [m]\<rparr>))))"
proof -
  obtain ok g where g: "check_and_update_rate_limit now ((guard_of (m_peer m) st)\<lparr>g_peer_id := m_peer m\<rparr>) = (ok, g)"
    by (cases "check_and_update_rate_limit now ((guard_of (m_peer m) st)\<lparr>g_peer_id := m_peer m\<rparr>)")
  with assms show ?thesis
    by (auto simp: process_message_def authenticated_def auth_stage_defs
        Let_def check_rate_limit_def check_replay_def split: option.splits prod.splits bool.splits)
qed

section \<open>Runs\<close>

definition seqs_of :: "string \<Rightarrow> 'p auth_msg list \<Rightarrow> int list" where
  "seqs_of p ms = map (\<lambda>m. the (m_sequence m)) (filter (\<lambda>m. m_peer m = p \<and> m_sequence m \<noteq> None) ms)"

definition count_of :: "string \<Rightarrow> 'p auth_msg list \<Rightarrow> nat" where
  "count_of p ms = length (filter (\<lambda>m. m_peer m = p) ms)"

lemma seqs_of_Cons: "seqs_of p (m # ms) = (case m_sequence m of Some s \<Rightarrow> if m_peer m = p then s # seqs_of p ms else seqs_of p ms
    | None \<Rightarrow> seqs_of p ms)"
  by (simp add: seqs_of_def split: option.splits)

lemma clear_simps [simp]:
  "dispatched (clear_replay_state q st) = dispatched st"
  "guard_of p (clear_replay_state q st) = (if p = q then new_guard [] else guard_of p st)"
  by (simp_all add: clear_replay_state_def guard_of_def)

text \<open>The three ways a message can change the state of its peer.\<close>

lemma process_cases:
  obtains (rejected) e where "process_message env now m st = (Some e, st)" "\<not> authenticated env now m"
  | (counted) e g where "process_message env now m st = (Some e, put_guard (m_peer m) g st)"
      "authenticated env now m" "last_sequence g = last_sequence (guard_of (m_peer m) st)"
  | (passed) g where "process_message env now m st = (None, (put_guard (m_peer m) g st)\<lparr>dispatched := dispatched st @ [m]\<rparr>)"
      "authenticated env now m" "message_count g \<le> RATE_LIMIT_MAX_MESSAGES"
      "case m_sequence m of None \<Rightarrow> last_sequence g = last_sequence (guard_of (m_peer m) st)
       | Some s \<Rightarrow> last_sequence (guard_of (m_peer m) st) < s \<and> last_sequence g = s"
proof (cases "authenticated env now m")
  case False
  with rejected process_unauthenticated show thesis by blast
next
  case True
  let ?p = "m_peer m"
  obtain ok g where g: "check_and_update_rate_limit now ((guard_of ?p st)\<lparr>g_peer_id := ?p\<rparr>) = (ok, g)"
    and pm: "process_message env now m st =
      (if \<not> ok then (Some \<lparr>ae_stage = ''rate_limit'', ae_peer = ?p\<rparr>, put_guard ?p g st)
       else (case m_sequence m of
          None \<Rightarrow> (None, (put_guard ?p g st)\<lparr>dispatched := dispatched st @ [m]\<rparr>)
        | Some s \<Rightarrow>
            (case check_sequence s (g\<lparr>g_peer_id := ?p\<rparr>) of
               (False, g') \<Rightarrow> (Some \<lparr>ae_stage = ''replay_protection'', ae_peer = ?p\<rparr>, put_guard ?p g' (put_guard ?p g st))
             | (True, g') \<Rightarrow> (None, (put_guard ?p g' (put_guard ?p g st))\<lparr>dispatched := dispatched st @ [m]\<rparr>))))"
    using process_authenticated [OF True, of st] by blast
  note rl = rate_limit_facts [OF g]
  have pp: "put_guard ?p a (put_guard ?p b st) = put_guard ?p a st" for a b
    by (simp add: put_guard_def)
  show thesis
  proof (cases ok)
    case False
    with counted True pm rl(1) show thesis by simp
  next
    case ok: True
    show thesis
    proof (cases "m_sequence m")
      case None
      with passed True pm ok rl(1,4) show thesis by simp
    next
      case (Some s)
      obtain ok2 g' where c: "check_sequence s (g\<lparr>g_peer_id := ?p\<rparr>) = (ok2, g')"
        by (cases "check_sequence s (g\<lparr>g_peer_id := ?p\<rparr>)")
      note cs = check_sequence_facts [OF c]
      show thesis
        using counted passed True pm ok Some c cs rl(1,4) by (cases ok2) (simp_all add: pp)
    qed
  qed
qed

text \<open>What a run without a clearing of \<open>p\<close> adds for \<open>p\<close> continues its sequence.\<close>

lemma auth_run_increasing:
  "Clear p \<notin> set evs \<Longrightarrow>
   \<exists>new. dispatched (auth_run evs st) = dispatched st @ new \<and> sorted_wrt (<) (last_sequence (guard_of p st) # seqs_of p new)"
proof (induction evs st rule: auth_run.induct)
  case (1 st)
  then show ?case by (simp add: seqs_of_def)
next
  case (2 ev evs st)
  let ?st = "auth_step ev st"
  from 2 obtain new where new: "dispatched (auth_run evs ?st) = dispatched ?st @ new"
    "sorted_wrt (<) (last_sequence (guard_of p ?st) # seqs_of p new)" by auto
  show ?case
  proof (cases ev)
    case (Clear q)
    with new 2(2) show ?thesis by (intro exI [of _ new]) auto
  next
    case (Receive env now m)
    show ?thesis
    proof (cases rule: process_cases [of env now m st])
      case (rejected e)
      with new Receive show ?thesis by auto
    next
      case (counted e g)
      with new Receive show ?thesis by (auto split: if_splits)
    next
      case (passed g)
      then have "dispatched (auth_run (ev # evs) st) = dispatched st @ m # new" using new(1) Receive by simp
      moreover have "sorted_wrt (<) (last_sequence (guard_of p st) # seqs_of p (m # new))"
        using new(2) passed Receive by (auto simp: seqs_of_Cons split: option.splits if_splits)
      ultimately show ?thesis by blast
    qed
  qed
qed

lemma process_window:
  assumes "m_peer m = p" "now - rate_limit_window_start (guard_of p st) \<le> RATE_LIMIT_WINDOW"
    "authenticated env now m"
  shows "rate_limit_window_start (guard_of p (snd (process_message env now m st))) = rate_limit_window_start (guard_of p st)"
    "message_count (guard_of p (snd (process_message env now m st))) = Suc (message_count (guard_of p st))"
proof -
  obtain ok g where g: "check_and_update_rate_limit now ((guard_of p st)\<lparr>g_peer_id := p\<rparr>) = (ok, g)"
    and pm: "process_message env now m st =
      (if \<not> ok then (Some \<lparr>ae_stage = ''rate_limit'', ae_peer = p\<rparr>, put_guard p g st)
       else (case m_sequence m of
          None \<Rightarrow> (None, (put_guard p g st)\<lparr>dispatched := dispatched st @ [m]\<rparr>)
        | Some s \<Rightarrow>
            (case check_sequence s (g\<lparr>g_peer_id := p\<rparr>) of
               (False, g') \<Rightarrow> (Some \<lparr>ae_stage = ''replay_protection'', ae_peer = p\<rparr>, put_guard p g' (put_guard p g st))
             | (True, g') \<Rightarrow> (None, (put_guard p g' (put_guard p g st))\<lparr>dispatched := dispatched st @ [m]\<rparr>))))"
    using process_authenticated [OF assms(3), of st] assms(1) by auto
  have g': "message_count g = Suc (message_count (guard_of p st))"
    "rate_limit_window_start g = rate_limit_window_start (guard_of p st)"
    using rate_limit_facts(3) [OF g] assms(2) by simp_all
  have "message_count x = message_count g \<and> rate_limit_window_start x = rate_limit_window_start g"
    if "check_sequence s (g\<lparr>g_peer_id := p\<rparr>) = (b, x)" for s b x
    using check_sequence_facts(1,2) [OF that] by simp
  then show "rate_limit_window_start (guard_of p (snd (process_message env now m st))) = rate_limit_window_start (guard_of p st)"
    "message_count (guard_of p (snd (process_message env now m st))) = Suc (message_count (guard_of p st))"
    unfolding pm using g' by (auto split: option.splits prod.splits bool.splits)
qed

lemma process_other: "m_peer m \<noteq> p \<Longrightarrow> guard_of p (snd (process_message env now m st)) = guard_of p st"
  by (rule process_cases [of env now m st]) auto

lemma process_count:
  "count_of p (dispatched (snd (process_message env now m st))) \<le> count_of p (dispatched st) +
     (if m_peer m = p \<and> message_count (guard_of p (snd (process_message env now m st))) \<le> RATE_LIMIT_MAX_MESSAGES \<and>
         authenticated env now m then 1 else 0)"
  by (rule process_cases [of env now m st]) (auto simp: count_of_def)

lemma auth_run_rate:
  assumes "\<And>env t m. Receive env t m \<in> set evs \<Longrightarrow> m_peer m = p \<Longrightarrow> t - rate_limit_window_start (guard_of p st) \<le> RATE_LIMIT_WINDOW"
    and "Clear p \<notin> set evs"
  shows "count_of p (dispatched (auth_run evs st)) \<le>
    count_of p (dispatched st) + (RATE_LIMIT_MAX_MESSAGES - message_count (guard_of p st))"
  using assms
proof (induction evs st rule: auth_run.induct)
  case (2 ev evs st)
  show ?case
  proof (cases ev)
    case (Clear q)
    with 2 show ?thesis by simp
  next
    case (Receive env t m)
    let ?st = "snd (process_message env t m st)"
    have step: "auth_step ev st = ?st" using Receive by simp
    show ?thesis
    proof (cases "m_peer m = p \<and> authenticated env t m")
      case True
      note w = process_window [of m p t st env]
      have w': "rate_limit_window_start (guard_of p ?st) = rate_limit_window_start (guard_of p st)"
        "message_count (guard_of p ?st) = Suc (message_count (guard_of p st))"
        using w True 2(2) Receive by auto
      have ih: "count_of p (dispatched (auth_run evs ?st)) \<le>
          count_of p (dispatched ?st) + (RATE_LIMIT_MAX_MESSAGES - message_count (guard_of p ?st))"
        by (rule 2(1) [unfolded step]) (use 2(2,3) w'(1) in auto)
      show ?thesis using ih process_count [of p env t m st] w'(2) step by (auto split: if_splits)
    next
      case False
      have "guard_of p ?st = guard_of p st"
        using False process_other process_unauthenticated by (metis snd_conv)
      then have ih: "count_of p (dispatched (auth_run evs ?st)) \<le>
          count_of p (dispatched ?st) + (RATE_LIMIT_MAX_MESSAGES - message_count (guard_of p st))"
        using 2 step by auto
      show ?thesis using ih process_count [of p env t m st] False step by (auto split: if_splits)
    qed
  qed
qed simp

section \<open>Properties\<close>

definition demo_env :: "nat auth_env" where
  "demo_env = \<lparr>verify_signature = (\<lambda>p d s. s = ''ok''), check_revocation = (\<lambda>p. p = ''bad''), check_enrollment = (\<lambda>p. True)\<rparr>"

definition demo_msg :: "int \<Rightarrow> nat auth_msg" where
  "demo_msg n = \<lparr>m_peer = ''a'', m_version = 1, m_timestamp = 5, m_signature = ''ok'', m_payload = 7, m_sequence = Some n\<rparr>"

lemmas demo_run_simps = process_message_def auth_stage_defs demo_env_def demo_msg_def MAX_MESSAGE_AGE_def check_rate_limit_def
  check_and_update_rate_limit_def check_replay_def check_sequence_def guard_of_def put_guard_def clear_replay_state_def
  empty_pipeline_def new_guard_def RATE_LIMIT_WINDOW_def RATE_LIMIT_MAX_MESSAGES_def SEQUENCE_WINDOW_def Let_def

text \<open>C17. Unauthenticated traffic consumes no state: a message that fails the version, timestamp,
  signature, revocation or enrollment check is rejected with the whole pipeline state unchanged;
  a message is dispatched exactly when no error is raised, and only if it passed all these checks,
  at most 100 messages were counted in its window and its sequence number exceeds the last one.\<close>

theorem only_authenticated_dispatch:
  "case process_message env now m st of
     (Some e, st') \<Rightarrow> dispatched st' = dispatched st \<and> ae_peer e = m_peer m \<and>
       (\<not> authenticated env now m \<longrightarrow> st' = st)
   | (None, st') \<Rightarrow> dispatched st' = dispatched st @ [m] \<and> authenticated env now m \<and>
       message_count (guard_of (m_peer m) st') \<le> RATE_LIMIT_MAX_MESSAGES \<and>
       (\<forall>s. m_sequence m = Some s \<longrightarrow> last_sequence (guard_of (m_peer m) st) < s)"
proof -
  have peer: "fst (process_message env now m st) = Some e \<Longrightarrow> ae_peer e = m_peer m" for e
    by (auto simp: process_message_def Let_def split: if_splits option.splits prod.splits bool.splits)
  show ?thesis
  proof (cases rule: process_cases [of env now m st])
    case (rejected e)
    with peer show ?thesis by simp
  next
    case (counted e g)
    with peer show ?thesis by simp
  next
    case (passed g)
    then show ?thesis by (auto split: option.splits)
  qed
qed

theorem only_authenticated_dispatch_witness:
  "case process_message demo_env 5 ((demo_msg 0)\<lparr>m_signature := ''forged''\<rparr>) empty_pipeline of
     (Some e, st') \<Rightarrow> st' = empty_pipeline | (None, st') \<Rightarrow> False"
proof -
  let ?m = "(demo_msg 0)\<lparr>m_signature := ''forged''\<rparr>"
  have "\<not> authenticated demo_env 5 ?m" by (simp add: authenticated_def demo_msg_def demo_env_def)
  then show ?thesis
    using only_authenticated_dispatch [where env = demo_env and now = 5 and m = ?m and st = empty_pipeline] by (auto split: prod.splits option.splits)
qed

text \<open>C18. Replay protection: from any state, over any history of messages and clearings in which the replay
  state of the peer is not cleared, with registries that may change at any time, the messages
  dispatched for the peer carry strictly increasing sequence numbers, all above the last number of the
  state the history starts in; so no numbered message of a peer is dispatched twice between two clearings.\<close>

theorem dispatched_sequences_increase:
  assumes "Clear p \<notin> set evs"
  shows "\<exists>new. dispatched (auth_run evs st) = dispatched st @ new \<and>
    sorted_wrt (<) (last_sequence (guard_of p st) # seqs_of p new)"
  by (rule auth_run_increasing [OF assms])

theorem dispatched_sequences_increase_witness:
  "\<exists>new. dispatched (auth_run [Receive demo_env 5 (demo_msg 3), Clear ''b'', Receive demo_env 6 (demo_msg 3),
        Receive demo_env 7 (demo_msg 4)] empty_pipeline) = new \<and> seqs_of ''a'' new = [3, 4] \<and> sorted_wrt (<) (- 1 # seqs_of ''a'' new)"
proof -
  let ?evs = "[Receive demo_env 5 (demo_msg 3), Clear ''b'', Receive demo_env 6 (demo_msg 3), Receive demo_env 7 (demo_msg 4)]"
  have "dispatched (auth_run ?evs empty_pipeline) = [demo_msg 3, demo_msg 4]"
    by (simp add: demo_run_simps)
  moreover have "last_sequence (guard_of ''a'' (empty_pipeline :: nat pipeline)) = - 1" "dispatched (empty_pipeline :: nat pipeline) = []"
    by (simp_all add: empty_pipeline_def guard_of_def new_guard_def)
  moreover have "seqs_of ''a'' [demo_msg 3, demo_msg 4] = [3, 4]" by (simp add: seqs_of_def demo_msg_def)
  ultimately show ?thesis
    using dispatched_sequences_increase [of "''a''" ?evs empty_pipeline] by auto
qed

text \<open>C19. Rate limit: while all messages of a peer arrive within ten seconds of the start of its
  window and its state is not cleared, at most as many are dispatched as were left of the limit of 100
  messages, whatever else happens.\<close>

theorem rate_limit_window_bound:
  assumes "\<And>env t m. Receive env t m \<in> set evs \<Longrightarrow> m_peer m = p \<Longrightarrow> t - rate_limit_window_start (guard_of p st) \<le> RATE_LIMIT_WINDOW"
    and "Clear p \<notin> set evs"
  shows "count_of p (dispatched (auth_run evs st)) \<le>
    count_of p (dispatched st) + (RATE_LIMIT_MAX_MESSAGES - message_count (guard_of p st))"
  by (rule auth_run_rate [OF assms])

theorem rate_limit_window_bound_witness:
  "count_of ''a'' (dispatched (auth_run [Receive demo_env 5 (demo_msg 0), Receive demo_env 6 (demo_msg 1)] empty_pipeline)) \<le> 100"
proof -
  let ?st = "empty_pipeline :: nat pipeline"
  let ?ms = "[Receive demo_env 5 (demo_msg 0), Receive demo_env 6 (demo_msg 1)]"
  have w: "t - rate_limit_window_start (guard_of ''a'' ?st) \<le> RATE_LIMIT_WINDOW"
    if "Receive env t m \<in> set ?ms" "m_peer m = ''a''" for env t m
    using that by (auto simp: empty_pipeline_def guard_of_def new_guard_def RATE_LIMIT_WINDOW_def)
  have "count_of ''a'' (dispatched ?st) + (RATE_LIMIT_MAX_MESSAGES - message_count (guard_of ''a'' ?st)) = 100"
    by (simp add: empty_pipeline_def guard_of_def new_guard_def RATE_LIMIT_MAX_MESSAGES_def count_of_def)
  moreover have "count_of ''a'' (dispatched (auth_run ?ms ?st)) \<le>
      count_of ''a'' (dispatched ?st) + (RATE_LIMIT_MAX_MESSAGES - message_count (guard_of ''a'' ?st))"
    by (rule rate_limit_window_bound) (use w in auto)
  ultimately show ?thesis by linarith
qed

text \<open>Clearing the replay state forgets the last sequence number: a peer that is revoked and registered
  again gets a message of before the revocation accepted a second time while its timestamp is fresh.\<close>

lemma replay_after_clear:
  "dispatched (auth_run [Receive demo_env 5 (demo_msg 3), Clear ''a'', Receive demo_env 6 (demo_msg 3)] empty_pipeline) =
     [demo_msg 3, demo_msg 3]"
  by (simp add: demo_run_simps)

text \<open>The signature covers the payload only. Whoever recorded a signed message can present it again
  with a current timestamp and the next sequence number, and it is dispatched once more.\<close>

lemma replay_with_fresh_sequence:
  assumes "authenticated env t0 m" "last_sequence (guard_of (m_peer m) st) < s"
    "message_count (guard_of (m_peer m) st) < RATE_LIMIT_MAX_MESSAGES"
    "\<forall>q \<in> seen_sequences (guard_of (m_peer m) st). q \<le> last_sequence (guard_of (m_peer m) st)"
  shows "fst (process_message env now (m\<lparr>m_timestamp := now, m_sequence := Some s\<rparr>) st) = None"
proof -
  let ?m = "m\<lparr>m_timestamp := now, m_sequence := Some s\<rparr>"
  have a: "authenticated env now ?m" using assms(1) by (simp add: authenticated_def MAX_MESSAGE_AGE_def)
  have "s \<notin> seen_sequences (guard_of (m_peer m) st)" using assms(2,4) by force
  with process_authenticated [OF a, of st] assms(2,3) show ?thesis
    by (auto simp: check_and_update_rate_limit_def check_sequence_def RATE_LIMIT_MAX_MESSAGES_def Let_def
        split: if_splits)
qed

end
