(* ===== verification/Compute_Task.thy ===== *)
theory Compute_Task
  imports Spatial_Frame Agent_ABI Complex_Main
begin

text \<open>
  Frame execution requests, from \<^verbatim>\<open>zdx_compute_core.py\<close>: \<open>ComputeTask\<close> with its \<open>validate\<close>, and
  \<open>execute_task\<close>, which checks the digest of the frame file and runs it on the machine its metadata
  names. Metadata values are JSON values without floats. That \<open>metadata\<close> is a dictionary and the
  numeric fields are integers is carried by the types. Files are a parameter (path to bytes), and so
  are SHA-256 and the decoding of an image file. The interval timer of \<open>execute_task\<close> and the elapsed
  time it reports are left out.

  The lemmas show that validation normalises (what it returns validates to itself), which metadata
  keys it depends on, what it guarantees, and that no frame with another digest is executed.
\<close>

section \<open>Tasks\<close>

record task =
  t_frame_path :: string
  t_frame_sha256 :: string
  t_artifact_digest :: "string option"
  t_memory_mb :: int
  t_threads :: int
  t_id :: string
  t_max_seconds :: int
  t_created_at :: rat
  t_metadata :: "(string, json) dict"

definition SPATIAL_FRAME_VERSION :: int where "SPATIAL_FRAME_VERSION = 1"
definition SPATIAL_PNG_FEATURE :: string where "SPATIAL_PNG_FEATURE = ''spatial-png-v1''"

text \<open>\<open>str.lower\<close> on ASCII letters, which decides whether the result is a hexadecimal digest.\<close>

definition lower_char :: "char \<Rightarrow> char" where
  "lower_char c = (let n = char_code c in if 65 \<le> n \<and> n \<le> 90 then char_of (n + 32) else c)"

definition py_lower :: "string \<Rightarrow> string" where
  "py_lower s = map lower_char s"

definition hex64 :: "string \<Rightarrow> bool" where
  "hex64 s \<longleftrightarrow> length s = 64 \<and> (\<forall>c \<in> set s. c \<in> set ''0123456789abcdef'')"

definition validate_fields :: "task \<Rightarrow> task result" where
  "validate_fields t =
     (if t_id t = [] \<or> (t_frame_path t = [] \<and> t_artifact_digest t \<in> {None, Some []})
      then Inl (ValueError ''task_id and frame_path or artifact_digest are required'')
      else
        (let sha = py_lower (t_frame_sha256 t) in
         if sha \<noteq> [] \<and> \<not> hex64 sha
         then Inl (ValueError ''frame_sha256 must be a 64-character hex digest'')
         else
           rbind (case t_artifact_digest t of
                    None \<Rightarrow> Inr (t\<lparr>t_frame_sha256 := sha\<rparr>)
                  | Some d \<Rightarrow>
                      (let digest = py_lower d in
                       if \<not> hex64 digest
                       then Inl (ValueError ''artifact_digest must be a 64-character hex digest'')
                       else if sha \<noteq> [] \<and> sha \<noteq> digest
                       then Inl (ValueError ''frame_sha256 and artifact_digest must match'')
                       else Inr (t\<lparr>t_frame_sha256 := digest, t_artifact_digest := Some digest\<rparr>)))
             (\<lambda>t1. if t_memory_mb t1 < 1 \<or> t_threads t1 < 1 \<or> t_max_seconds t1 < 1
                   then Inl (ValueError ''memory_mb, threads, and max_seconds must be positive'')
                   else Inr t1)))"

text \<open>A list of non-empty strings.\<close>

definition feature_name :: "json \<Rightarrow> bool" where
  "feature_name j \<longleftrightarrow> (case j of JStr s \<Rightarrow> s \<noteq> [] | _ \<Rightarrow> False)"

definition required_features :: "(string, json) dict \<Rightarrow> json list result" where
  "required_features md =
     (case dget md ''required_vm_features'' of
        None \<Rightarrow> Inr []
      | Some (JList xs) \<Rightarrow>
          if list_all feature_name xs then Inr xs
          else Inl (ValueError ''required_vm_features must be a list of non-empty strings'')
      | _ \<Rightarrow> Inl (ValueError ''required_vm_features must be a list of non-empty strings''))"

text \<open>The dictionary \<open>{**self.metadata, \<dots>}\<close> a spatial task ends up with.\<close>

definition spatial_metadata :: "layout \<Rightarrow> json list \<Rightarrow> (string, json) dict \<Rightarrow> (string, json) dict" where
  "spatial_metadata L required md =
     (let required' = (if JStr SPATIAL_PNG_FEATURE \<in> set required then required
                       else required @ [JStr SPATIAL_PNG_FEATURE])
      in dset ''required_vm_features'' (JList required')
           (dset ''spatial_layout'' (layout_to_dict L)
             (dset ''spatial_version'' (JInt SPATIAL_FRAME_VERSION) md)))"

definition validate_spatial :: "int \<Rightarrow> int \<Rightarrow> json list \<Rightarrow> (string, json) dict \<Rightarrow> (string, json) dict result" where
  "validate_spatial th mem required md =
     (case dget md ''spatial_layout'' of
        Some (JObj raw) \<Rightarrow>
          rbind (layout_from_dict (JObj raw)) (\<lambda>L.
          if dget md ''spatial_version'' \<notin> {None, Some (JInt SPATIAL_FRAME_VERSION)}
          then Inl (ValueError ''unsupported spatial_version'')
          else if th \<noteq> execution_rows L
          then Inl (ValueError ''spatial task threads must equal spatial_layout.execution_rows'')
          else if raw_capacity_bytes L * 4 > mem * 1024 * 1024
          then Inl (ValueError ''spatial frame working-set estimate exceeds task memory_mb'')
          else Inr (spatial_metadata L required md))
      | _ \<Rightarrow> Inl (ValueError ''spatial-png task requires spatial_layout metadata''))"

definition validate_metadata :: "int \<Rightarrow> int \<Rightarrow> (string, json) dict \<Rightarrow> (string, json) dict result" where
  "validate_metadata th mem md =
     (let execution_model = dget md ''execution_model'' in
      if execution_model \<notin> {None, Some JNull, Some (JStr ''pixel-frame''), Some (JStr ''spatial-png'')}
      then Inl (ValueError ''unsupported execution_model'')
      else rbind (required_features md) (\<lambda>required.
        if execution_model = Some (JStr ''spatial-png'')
        then validate_spatial th mem required md
        else Inr md))"

definition task_validate :: "task \<Rightarrow> task result" where
  "task_validate t =
     rbind (validate_fields t) (\<lambda>t1.
     rbind (validate_metadata (t_threads t1) (t_memory_mb t1) (t_metadata t1)) (\<lambda>md.
     Inr (t1\<lparr>t_metadata := md\<rparr>)))"

section \<open>Execution of one task\<close>

record exec_result =
  er_task_id :: string
  er_model :: json
  er_registers :: "thread_regs list"
  er_shared :: "int list"

definition sha256_file :: "(bytes \<Rightarrow> bytes) \<Rightarrow> (string \<Rightarrow> bytes option) \<Rightarrow> string \<Rightarrow> string result" where
  "sha256_file sha files path =
     (case files path of
        None \<Rightarrow> Inl (FileNotFoundError path)
      | Some content \<Rightarrow> Inr (hexdigest (sha content)))"

text \<open>
  \<open>decode\<close> reads an image file, \<open>decode_rgb\<close> reads it converted to RGB. Default limits of the machine
  are 100 chained frames and 4096 column steps.
\<close>

definition DEFAULT_MAX_CHAIN :: int where "DEFAULT_MAX_CHAIN = 100"
definition DEFAULT_MAX_COL_STEPS :: int where "DEFAULT_MAX_COL_STEPS = 4096"

definition run_frame ::
    "(bytes \<Rightarrow> bytes) \<Rightarrow> (string \<Rightarrow> bytes option) \<Rightarrow> (bytes \<Rightarrow> image option) \<Rightarrow> (bytes \<Rightarrow> raster option) \<Rightarrow>
     task \<Rightarrow> json \<Rightarrow> vm result" where
  "run_frame sha files decode decode_rgb t model =
     (let load = (\<lambda>p. Option.bind (files p) decode_rgb);
          exists = (\<lambda>p. files p \<noteq> None)
      in
      if model = JStr ''spatial-png''
      then
        rbind (case dget (t_metadata t) ''spatial_layout'' of
                 None \<Rightarrow> Inl (KeyError ''spatial_layout'') | Some raw \<Rightarrow> layout_from_dict raw) (\<lambda>L.
        rbind (spatial_vm_init sha L None False True None DEFAULT_MAX_CHAIN DEFAULT_MAX_COL_STEPS None) (\<lambda>s.
        (case execute_spatial sha (\<lambda>p. Option.bind (files p) decode) load exists (t_frame_path t) s of
           (Inl e, _) \<Rightarrow> Inl e
         | (Inr _, s') \<Rightarrow> Inr (sv_vm s'))))
      else
        rbind (vm_init sha (t_threads t) False True None DEFAULT_MAX_CHAIN DEFAULT_MAX_COL_STEPS None) (\<lambda>v.
        (case execute_texture sha load exists (t_frame_path t) v of
           (Inl e, _) \<Rightarrow> Inl e
         | (Inr _, v') \<Rightarrow> Inr v')))"

definition execute_task ::
    "(bytes \<Rightarrow> bytes) \<Rightarrow> (string \<Rightarrow> bytes option) \<Rightarrow> (bytes \<Rightarrow> image option) \<Rightarrow> (bytes \<Rightarrow> raster option) \<Rightarrow>
     task \<Rightarrow> exec_result result" where
  "execute_task sha files decode decode_rgb t0 =
     rbind (task_validate t0) (\<lambda>t.
     if t_frame_path t = [] \<or> files (t_frame_path t) = None
     then Inl (FileNotFoundError (t_frame_path t))
     else
       rbind (sha256_file sha files (t_frame_path t)) (\<lambda>actual.
       if t_frame_sha256 t \<noteq> [] \<and> actual \<noteq> t_frame_sha256 t
       then Inl (ValueError ''frame hash mismatch'')
       else
         (let model = (case dget (t_metadata t) ''execution_model'' of
                         None \<Rightarrow> JStr ''pixel-frame'' | Some m \<Rightarrow> m)
          in rbind (run_frame sha files decode decode_rgb t model) (\<lambda>v.
             Inr \<lparr>er_task_id = t_id t, er_model = model, er_registers = registers v, er_shared = shared v\<rparr>))))"

section \<open>Validation normalises\<close>

lemma py_lower_idem [simp]: "py_lower (py_lower s) = py_lower s"
proof -
  have "lower_char (lower_char c) = lower_char c" for c
  proof (cases "65 \<le> char_code c \<and> char_code c \<le> 90")
    case True
    then have "char_code (char_of (char_code c + 32)) = char_code c + 32"
      by (simp add: char_code_def)
    then have "\<not> (char_code (char_of (char_code c + 32)) \<le> 90)" using True by linarith
    moreover have "lower_char c = char_of (char_code c + 32)" by (simp only: lower_char_def Let_def True if_True simp_thms)
    ultimately show ?thesis by (simp only: lower_char_def [of "char_of (char_code c + 32)"] Let_def if_False simp_thms)
  next
    case False
    then have "lower_char c = c" by (simp only: lower_char_def Let_def if_False)
    then show ?thesis by (simp only:)
  qed
  then show ?thesis by (simp add: py_lower_def)
qed

lemma validate_fields_metadata:
  "validate_fields (t\<lparr>t_metadata := md\<rparr>) = map_sum id (\<lambda>u. u\<lparr>t_metadata := md\<rparr>) (validate_fields t)"
  by (auto simp: validate_fields_def Let_def split: option.splits)

lemma validate_fields_Inr:
  "validate_fields t = Inr u \<longleftrightarrow>
     t_id t \<noteq> [] \<and> \<not> (t_frame_path t = [] \<and> t_artifact_digest t \<in> {None, Some []}) \<and>
     1 \<le> t_memory_mb t \<and> 1 \<le> t_threads t \<and> 1 \<le> t_max_seconds t \<and>
     (py_lower (t_frame_sha256 t) = [] \<or> hex64 (py_lower (t_frame_sha256 t))) \<and>
     (case t_artifact_digest t of
        None \<Rightarrow> u = t\<lparr>t_frame_sha256 := py_lower (t_frame_sha256 t)\<rparr>
      | Some d \<Rightarrow> hex64 (py_lower d) \<and> py_lower (t_frame_sha256 t) \<in> {[], py_lower d} \<and>
          u = t\<lparr>t_frame_sha256 := py_lower d, t_artifact_digest := Some (py_lower d)\<rparr>)"
  by (cases "t_artifact_digest t") (auto simp: validate_fields_def Let_def split: if_splits)

lemma validate_fields_idem:
  assumes "validate_fields t = Inr u"
  shows "validate_fields u = Inr u"
proof (cases "t_artifact_digest t")
  case None
  with assms show ?thesis by (simp add: validate_fields_Inr)
next
  case (Some d)
  then have u: "u = t\<lparr>t_frame_sha256 := py_lower d, t_artifact_digest := Some (py_lower d)\<rparr>"
    and h: "hex64 (py_lower d)" using assms by (simp_all add: validate_fields_Inr)
  have "length (py_lower d) = 64" using h unfolding hex64_def by blast
  then have n: "py_lower d \<noteq> []" by auto
  have "t_id t \<noteq> []" "1 \<le> t_memory_mb t" "1 \<le> t_threads t" "1 \<le> t_max_seconds t"
    using assms by (simp_all add: validate_fields_Inr)
  with h n show ?thesis unfolding u by (simp add: validate_fields_Inr)
qed

lemma validate_fields_facts:
  assumes "validate_fields t = Inr u"
  shows "t_metadata u = t_metadata t" "t_id u = t_id t" "t_id u \<noteq> []" "1 \<le> t_memory_mb u" "1 \<le> t_threads u"
    "1 \<le> t_max_seconds u" "t_memory_mb u = t_memory_mb t" "t_threads u = t_threads t" "t_created_at u = t_created_at t"
    "t_frame_sha256 u \<noteq> [] \<Longrightarrow> hex64 (t_frame_sha256 u)"
  using assms by (auto simp: validate_fields_Inr split: option.splits)

text \<open>The metadata keys validation reads or writes.\<close>

definition model_keys :: "string set" where
  "model_keys = {''execution_model'', ''required_vm_features'', ''spatial_layout'', ''spatial_version''}"

lemma validate_spatial_Inr:
  "validate_spatial th mem req md = Inr md' \<longleftrightarrow>
     (\<exists>raw L. dget md ''spatial_layout'' = Some (JObj raw) \<and> layout_from_dict (JObj raw) = Inr L \<and>
        dget md ''spatial_version'' \<in> {None, Some (JInt SPATIAL_FRAME_VERSION)} \<and>
        th = execution_rows L \<and> \<not> raw_capacity_bytes L * 4 > mem * 1024 * 1024 \<and>
        md' = spatial_metadata L req md)"
  unfolding validate_spatial_def
  by (cases "dget md ''spatial_layout''"; cases "the (dget md ''spatial_layout'')") auto

lemma validate_metadata_Inr:
  "validate_metadata th mem md = Inr md' \<longleftrightarrow>
     dget md ''execution_model'' \<in> {None, Some JNull, Some (JStr ''pixel-frame''), Some (JStr ''spatial-png'')} \<and>
     (\<exists>req. required_features md = Inr req \<and>
       (if dget md ''execution_model'' = Some (JStr ''spatial-png'')
        then validate_spatial th mem req md = Inr md' else md' = md))"
  by (auto simp: validate_metadata_def Let_def)

lemma required_features_names: "required_features md = Inr req \<Longrightarrow> list_all feature_name req"
  unfolding required_features_def
  by (cases "dget md ''required_vm_features''"; cases "the (dget md ''required_vm_features'')") (auto split: if_splits)

lemma spatial_metadata_get:
  "dget (spatial_metadata L req md) ''execution_model'' = dget md ''execution_model''"
  "dget (spatial_metadata L req md) ''spatial_layout'' = Some (layout_to_dict L)"
  "dget (spatial_metadata L req md) ''spatial_version'' = Some (JInt SPATIAL_FRAME_VERSION)"
  "dget (spatial_metadata L req md) ''required_vm_features'' =
     Some (JList (if JStr SPATIAL_PNG_FEATURE \<in> set req then req else req @ [JStr SPATIAL_PNG_FEATURE]))"
  by (simp_all add: spatial_metadata_def Let_def)

lemma spatial_metadata_same:
  assumes "dget md ''spatial_layout'' = Some (layout_to_dict L)"
    "dget md ''spatial_version'' = Some (JInt SPATIAL_FRAME_VERSION)"
    "dget md ''required_vm_features'' = Some (JList req)" "JStr SPATIAL_PNG_FEATURE \<in> set req"
  shows "spatial_metadata L req md = md"
  using assms by (simp add: spatial_metadata_def Let_def dset_same)

text \<open>Metadata that agrees with what validation returned on the keys it inspects stays as it is.\<close>

lemma validate_metadata_keys:
  assumes v: "validate_metadata th mem md0 = Inr md" and k: "\<And>k. k \<in> model_keys \<Longrightarrow> dget md' k = dget md k"
  shows "validate_metadata th mem md' = Inr md'"
proof -
  have keys: "dget md' ''execution_model'' = dget md ''execution_model''"
    "dget md' ''required_vm_features'' = dget md ''required_vm_features''"
    "dget md' ''spatial_layout'' = dget md ''spatial_layout''"
    "dget md' ''spatial_version'' = dget md ''spatial_version''"
    by (simp_all add: k model_keys_def)
  obtain req where req: "required_features md0 = Inr req"
    using v by (auto simp: validate_metadata_Inr)
  show ?thesis
  proof (cases "dget md0 ''execution_model'' = Some (JStr ''spatial-png'')")
    case False
    with v have "md = md0" by (auto simp: validate_metadata_Inr)
    moreover from this keys(2) req have "required_features md' = Inr req" by (simp add: required_features_def)
    ultimately show ?thesis using False v keys(1) by (auto simp: validate_metadata_Inr)
  next
    case True
    let ?req = "if JStr SPATIAL_PNG_FEATURE \<in> set req then req else req @ [JStr SPATIAL_PNG_FEATURE]"
    from True v req obtain L where L: "layout_ok L" "th = execution_rows L"
      "\<not> raw_capacity_bytes L * 4 > mem * 1024 * 1024" and md: "md = spatial_metadata L req md0"
      by (auto simp: validate_metadata_Inr validate_spatial_Inr dest: layout_from_dict_ok)
    note get = keys [unfolded md spatial_metadata_get]
    obtain raw where raw: "layout_to_dict L = JObj raw" by (simp add: layout_to_dict_def)
    have "required_features md' = Inr ?req"
      using required_features_names [OF req]
      by (simp add: required_features_def get feature_name_def SPATIAL_PNG_FEATURE_def)
    moreover have "validate_spatial th mem ?req md' = Inr md'"
      using L get raw layout_from_to_dict [OF L(1)] spatial_metadata_same [of md' L ?req]
      by (auto simp: validate_spatial_Inr)
    ultimately show ?thesis using True get by (auto simp: validate_metadata_Inr)
  qed
qed

text \<open>A task validation returns unchanged.\<close>

definition task_valid :: "task \<Rightarrow> bool" where
  "task_valid t \<longleftrightarrow> task_validate t = Inr t"

lemma task_validate_valid: "task_validate t = Inr u \<Longrightarrow> task_valid u"
proof -
  assume "task_validate t = Inr u"
  then obtain t1 md where t1: "validate_fields t = Inr t1"
    and md: "validate_metadata (t_threads t1) (t_memory_mb t1) (t_metadata t1) = Inr md"
    and u: "u = t1\<lparr>t_metadata := md\<rparr>"
    by (auto simp: task_validate_def)
  have "validate_fields u = Inr u"
    using validate_fields_idem [OF t1] by (simp add: u validate_fields_metadata)
  with validate_metadata_keys [OF md, of md] show ?thesis by (simp add: task_valid_def task_validate_def u)
qed

lemma task_validate_facts:
  assumes "task_validate t = Inr u"
  shows "t_id u = t_id t" "t_id u \<noteq> []" "1 \<le> t_memory_mb u" "1 \<le> t_threads u" "1 \<le> t_max_seconds u"
    "t_memory_mb u = t_memory_mb t" "t_threads u = t_threads t" "t_created_at u = t_created_at t"
    "t_frame_sha256 u \<noteq> [] \<Longrightarrow> hex64 (t_frame_sha256 u)"
  using assms by (auto simp: task_validate_def dest: validate_fields_facts)

lemma task_valid_metadata:
  assumes "task_valid t" "\<And>k. k \<in> model_keys \<Longrightarrow> dget md k = dget (t_metadata t) k"
  shows "task_valid (t\<lparr>t_metadata := md\<rparr>)"
proof -
  from assms(1) obtain t1 where t1: "validate_fields t = Inr t1"
    and m: "validate_metadata (t_threads t1) (t_memory_mb t1) (t_metadata t1) = Inr (t_metadata t)"
    and t: "t = t1\<lparr>t_metadata := t_metadata t\<rparr>"
    by (auto simp: task_valid_def task_validate_def)
  have "t_metadata t1 = t_metadata t" using validate_fields_facts(1) [OF t1] by simp
  then have tt: "t1 = t" using t by (metis task.update_convs(9) task.surjective)
  have "validate_metadata (t_threads t) (t_memory_mb t) md = Inr md"
    by (rule validate_metadata_keys [OF m [unfolded tt] assms(2)])
  with t1 show ?thesis by (simp add: task_valid_def task_validate_def validate_fields_metadata tt)
qed

section \<open>What execution guarantees\<close>

lemma spatial_frame_bytes:
  assumes "execute_spatial_frame sha load ex f s = (Inr regs, s')" "vm_bytes (sv_vm s)"
  shows "vm_bytes (sv_vm s') \<and> threads (sv_vm s') = threads (sv_vm s)"
proof -
  obtain res v where a: "execute_array (f_image f) (sv_vm s) = (res, v)" by (cases "execute_array (f_image f) (sv_vm s)")
  have v: "vm_bytes v" "threads v = threads (sv_vm s)"
    using array_keeps_bytes [OF a assms(2)] vm_staticD(1) [OF execute_array_static [OF a]] .
  have fin: "threads (finish_execution sha u) = threads u" for u
    by (simp_all add: finish_execution_def record_execution_generation_def save_shared_def Let_def)
  have m: "vm_bytes (u\<lparr>max_chain := n\<rparr>) = vm_bytes u" for u n by (simp add: vm_bytes_def)
  have t: "vm_bytes v' \<and> threads v' = threads v"
    if "execute_texture sha load ex p (v\<lparr>max_chain := n\<rparr>) = (r, v')" for p n r v'
    using texture_keeps_bytes [OF that] texture_threads [OF that] v(1) by (simp add: m)
  show ?thesis
    using assms(1) v t
    by (auto simp: execute_spatial_frame_def a Let_def fin m split: if_splits sum.splits option.splits prod.splits)
qed

lemma run_frame_bytes:
  assumes "run_frame sha files decode decode_rgb t model = Inr v" "task_valid t"
    "model = JStr ''spatial-png'' \<longleftrightarrow> dget (t_metadata t) ''execution_model'' = Some (JStr ''spatial-png'')"
  shows "vm_bytes v \<and> threads v = nat (t_threads t)"
proof (cases "model = JStr ''spatial-png''")
  case False
  let ?load = "\<lambda>p. Option.bind (files p) decode_rgb" and ?ex = "\<lambda>p. files p \<noteq> None"
  from False assms(1) obtain v0 where
    v0: "vm_init sha (t_threads t) False True None DEFAULT_MAX_CHAIN DEFAULT_MAX_COL_STEPS None = Inr v0"
    and x: "(case execute_texture sha ?load ?ex (t_frame_path t) v0 of (Inl e, _) \<Rightarrow> Inl e | (Inr _, v') \<Rightarrow> Inr v') = Inr v"
    by (simp only: run_frame_def Let_def if_False rbind_eq_Inr) blast
  obtain res v' where e: "execute_texture sha ?load ?ex (t_frame_path t) v0 = (res, v')"
    by (cases "execute_texture sha ?load ?ex (t_frame_path t) v0")
  with x have ex: "execute_texture sha ?load ?ex (t_frame_path t) v0 = (res, v)" by (cases res) simp_all
  show ?thesis
    using vm_init_bytes [OF v0] texture_keeps_bytes [OF ex] texture_threads [OF ex] by simp
next
  case True
  from assms(2) obtain t1 where t1: "validate_fields t = Inr t1"
    "validate_metadata (t_threads t1) (t_memory_mb t1) (t_metadata t1) = Inr (t_metadata t)"
    by (auto simp: task_valid_def task_validate_def)
  note f = validate_fields_facts [OF t1(1)]
  obtain req raw L where L: "dget (t_metadata t) ''spatial_layout'' = Some (JObj raw)" "layout_from_dict (JObj raw) = Inr L"
    "t_threads t = execution_rows L"
    using t1(2) True assms(3) by (auto simp: f validate_metadata_Inr validate_spatial_Inr)
  let ?run = "execute_spatial sha (\<lambda>p. Option.bind (files p) decode) (\<lambda>p. Option.bind (files p) decode_rgb)
      (\<lambda>p. files p \<noteq> None) (t_frame_path t)"
  from assms(1) L(1,2) True obtain s where
    s: "spatial_vm_init sha L None False True None DEFAULT_MAX_CHAIN DEFAULT_MAX_COL_STEPS None = Inr s"
    and x: "(case ?run s of (Inl e, _) \<Rightarrow> Inl e | (Inr _, s') \<Rightarrow> Inr (sv_vm s')) = Inr v"
    by (simp only: run_frame_def Let_def if_True simp_thms rbind_simps rbind_eq_Inr option.simps) blast
  obtain res s' where "?run s = (res, s')" by (cases "?run s")
  with x obtain regs where ex: "?run s = (Inr regs, s')" and v: "v = sv_vm s'" by (cases res) simp_all
  have b: "vm_bytes (sv_vm s) \<and> threads (sv_vm s) = nat (execution_rows L)"
    using s vm_init_bytes by (auto simp: spatial_vm_init_def Let_def split: if_splits)
  obtain f where "execute_spatial_frame sha (\<lambda>p. Option.bind (files p) decode_rgb) (\<lambda>p. files p \<noteq> None) f s = (Inr regs, s')"
    using ex by (auto simp: execute_spatial_def split: sum.splits)
  from spatial_frame_bytes [OF this] b v L(3) show ?thesis by simp
qed

definition set_frame :: raster where
  "set_frame = \<lparr>rwidth = 1, rheight = 2, rcells = [(10, 0, 200), (10, 0, 100)]\<rparr>"

lemma set_frame_column:
  assumes "threads v = 2" "opmap v = MAP" "registers v = [zero_regs, zero_regs]" "halted c = {}" "\<not> skip_next c 0" "\<not> skip_next c 1"
  shows "exec_column set_frame 0 v c =
    (None, v\<lparr>clock := 0, registers := [zero_regs\<lparr>reg_A := 200\<rparr>, zero_regs\<lparr>reg_A := 100\<rparr>]\<rparr>, c\<lparr>jump_to := None\<rparr>)"
proof -
  have d: "rev_opmap MAP 10 = Some ''SET_REG''" by code_simp
  have "[0..<2] = [0, 1 :: nat]" by (simp add: numeral_2_eq_2)
  then show ?thesis
    using assms d by (simp add: exec_column_def exec_thread_def set_frame_def pixel_at_def exec_instr_def upd_thread_def zero_regs_def Let_def)
qed

lemma set_frame_runs:
  assumes "load path = Some set_frame" "threads v = 2" "opmap v = MAP" "registers v = [zero_regs, zero_regs]"
    "max_chain v = Suc n" "max_col_steps v = Suc m"
  shows "\<exists>v'. execute_texture sha load ex path v = (Inr [zero_regs\<lparr>reg_A := 200\<rparr>, zero_regs\<lparr>reg_A := 100\<rparr>], v')"
proof -
  let ?w = "v\<lparr>next_frame := None, clock := 0, registers := [zero_regs\<lparr>reg_A := 200\<rparr>, zero_regs\<lparr>reg_A := 100\<rparr>]\<rparr>"
  have "run_columns m set_frame (Suc 0) w c = (None, w, c)" for w c
    by (cases m) (simp_all add: set_frame_def)
  then have "execute_array set_frame v = (Inr None, ?w)"
    using assms set_frame_column [of "v\<lparr>next_frame := None\<rparr>" fresh_ctx]
    by (simp add: execute_array_def fresh_ctx_def next_column_def) (simp add: set_frame_def)
  then show ?thesis
    using assms(1,5) by (auto simp: execute_texture_def execute_single_def finish_execution_def record_execution_generation_def
        save_shared_def Let_def)
qed

section \<open>Properties\<close>

text \<open>Validation normalises tasks: a task that \<open>validate\<close> returned validates to itself, so storing
  it and validating it again on every claim never changes or rejects it; its limits are positive, a
  digest it carries is 64 hexadecimal digits, and other metadata keys can change without affecting this.\<close>

theorem validate_normalises:
  assumes "task_validate t = Inr u" "\<forall>k. k \<in> model_keys \<longrightarrow> dget md k = dget (t_metadata u) k"
  shows "task_validate u = Inr u \<and> task_validate (u\<lparr>t_metadata := md\<rparr>) = Inr (u\<lparr>t_metadata := md\<rparr>) \<and>
    1 \<le> t_memory_mb u \<and> 1 \<le> t_threads u \<and> 1 \<le> t_max_seconds u \<and> t_id u \<noteq> [] \<and>
    (t_frame_sha256 u = [] \<or> hex64 (t_frame_sha256 u))"
  using task_validate_valid [OF assms(1)] task_valid_metadata [of u md] assms(2) task_validate_facts [OF assms(1)]
  unfolding task_valid_def by auto

definition spatial_task :: task where
  "spatial_task = \<lparr>t_frame_path = ''f.png'', t_frame_sha256 = [], t_artifact_digest = None, t_memory_mb = 64,
     t_threads = 2, t_id = ''t1'', t_max_seconds = 60, t_created_at = 5,
     t_metadata = [(''execution_model'', JStr ''spatial-png''), (''spatial_layout'', layout_to_dict demo_layout)]\<rparr>"

definition spatial_task_valid :: task where
  "spatial_task_valid = spatial_task\<lparr>t_metadata := spatial_metadata demo_layout [] (t_metadata spatial_task)\<rparr>"

lemma spatial_task_validates: "task_validate spatial_task = Inr spatial_task_valid"
proof -
  obtain raw where raw: "layout_to_dict demo_layout = JObj raw" by (simp add: layout_to_dict_def)
  have "validate_spatial 2 64 [] (t_metadata spatial_task) = Inr (spatial_metadata demo_layout [] (t_metadata spatial_task))"
    using layout_from_to_dict [OF demo_layout_ok] raw unfolding validate_spatial_Inr
    by (auto simp: spatial_task_def demo_layout_def raw_capacity_bytes_def total_cells_def)
  then show ?thesis
    by (simp add: task_validate_def validate_fields_def validate_metadata_def required_features_def spatial_task_valid_def
        spatial_task_def py_lower_def Let_def)
qed

theorem validate_normalises_witness:
  "task_validate spatial_task_valid = Inr spatial_task_valid"
  using validate_normalises [OF spatial_task_validates, of "t_metadata spatial_task_valid"] by simp

text \<open>C26. Executing a task verifies it first: a result is only returned for a task that validates and
  whose frame file exists with the stated digest, if one is stated; the result has one register set
  per requested thread, with A, B and OUT and every shared slot in \<open>0..255\<close>, for both machines (the fourth
  register T is the column of the last instruction and is not bounded).\<close>

theorem execute_task_verified:
  assumes "execute_task sha files decode decode_rgb t = Inr res"
  shows "\<exists>u content. task_validate t = Inr u \<and> files (t_frame_path u) = Some content \<and>
    (t_frame_sha256 u = [] \<or> hexdigest (sha content) = t_frame_sha256 u) \<and> er_task_id res = t_id t \<and>
    length (er_registers res) = nat (t_threads t) \<and>
    (\<forall>r \<in> set (er_registers res). regs_bytes r) \<and> (\<forall>m \<in> set (er_shared res). byte_range m)"
proof -
  obtain u content v model where u: "task_validate t = Inr u" "files (t_frame_path u) = Some content"
    "t_frame_sha256 u = [] \<or> hexdigest (sha content) = t_frame_sha256 u"
    and model: "model = (case dget (t_metadata u) ''execution_model'' of None \<Rightarrow> JStr ''pixel-frame'' | Some m \<Rightarrow> m)"
    and v: "run_frame sha files decode decode_rgb u model = Inr v"
    and res: "er_task_id res = t_id u" "er_registers res = registers v" "er_shared res = shared v"
    using assms by (auto simp: execute_task_def sha256_file_def Let_def split: if_splits option.splits)
  have "vm_bytes v \<and> threads v = nat (t_threads u)"
    by (rule run_frame_bytes [OF v task_validate_valid [OF u(1)]]) (auto simp: model split: option.splits)
  with u res task_validate_facts [OF u(1)] show ?thesis by (auto simp: vm_bytes_def)
qed

theorem execute_task_verified_witness:
  "\<exists>res. execute_task (\<lambda>b. [1]) (\<lambda>p. if p = ''f.png'' then Some [7 :: byte] else None) (\<lambda>b. None)
      (\<lambda>b. Some set_frame) (spatial_task\<lparr>t_metadata := []\<rparr>) = Inr res \<and>
    length (er_registers res) = 2 \<and> map reg_A (er_registers res) = [200, 100] \<and> (\<forall>r \<in> set (er_registers res). regs_bytes r)"
proof -
  let ?files = "\<lambda>p. if p = ''f.png'' then Some [7 :: byte] else None"
  let ?e = "execute_task (\<lambda>b. [1]) ?files (\<lambda>b. None) (\<lambda>b. Some set_frame) (spatial_task\<lparr>t_metadata := []\<rparr>)"
  obtain v where v: "vm_init (\<lambda>b. [1]) 2 False True None DEFAULT_MAX_CHAIN DEFAULT_MAX_COL_STEPS None = Inr v"
    "\<exists>n. max_chain v = Suc n" "\<exists>m. max_col_steps v = Suc m" "threads v = 2" "opmap v = MAP" "registers v = [zero_regs, zero_regs]"
    by (simp add: vm_init_def DEFAULT_MAX_CHAIN_def DEFAULT_MAX_COL_STEPS_def Let_def numeral_2_eq_2)
  then obtain n m where nm: "max_chain v = Suc n" "max_col_steps v = Suc m" by blast
  obtain v' where t: "execute_texture (\<lambda>b. [1]) (\<lambda>p. Option.bind (?files p) (\<lambda>b. Some set_frame)) (\<lambda>p. ?files p \<noteq> None) ''f.png'' v =
      (Inr [zero_regs\<lparr>reg_A := 200\<rparr>, zero_regs\<lparr>reg_A := 100\<rparr>], v')"
    using set_frame_runs [of "\<lambda>p. Option.bind (?files p) (\<lambda>b. Some set_frame)" "''f.png''", OF _ v(4-6) nm, of "\<lambda>b. [1]" "\<lambda>p. ?files p \<noteq> None"]
    by (auto simp del: not_None_eq)
  then have "registers v' = [zero_regs\<lparr>reg_A := 200\<rparr>, zero_regs\<lparr>reg_A := 100\<rparr>]"
    by (auto simp: execute_texture_def Let_def split: prod.splits sum.splits)
  with v(1) t obtain res where res: "?e = Inr res" "map reg_A (er_registers res) = [200, 100]"
    by (auto simp: execute_task_def task_validate_def validate_fields_def validate_metadata_def required_features_def
        spatial_task_def py_lower_def Let_def sha256_file_def run_frame_def)
  from execute_task_verified [OF res(1)] res show ?thesis by (auto simp: spatial_task_def)
qed

end
