(* ===== verification/Compute.thy ===== *)
theory Compute
  imports Compute_Task "HOL-Library.Product_Lexorder"
begin

text \<open>
  The compute coordinator: the task queue with worker leases and memory admission of
  \<^verbatim>\<open>zdx_compute_core.py\<close> (\<open>ComputeCoordinator\<close>) and the accounting subclass of \<^verbatim>\<open>zdx_compute.py\<close>.
  The four task tables, the workers, the attempt counters and the contributions are dictionaries; the
  state file is the field \<open>c_disk\<close>, the tables as the last \<open>_save\<close> wrote them. Each operation takes the
  time \<open>now\<close> it runs at; \<open>claim\<close> takes the fresh lease identifier. A stored task is the record itself
  (\<open>to_dict\<close> and \<open>from_dict\<close> exchange it with a dictionary of the same fields, \<open>from_dict\<close> validates).
  A task result is its JSON text and its \<open>elapsed_seconds\<close>, which a worker sends unchecked and which may be any
  JSON value; \<open>num\<close> is what \<open>float\<close> reads from a text (\<open>None\<close> where it raises). Products of seconds are exact.
  Failures of the file system are left out.

  The lemmas show the invariant of the tables over every history, that no task is lost, that a worker
  is never given more memory or threads than it has, which task a claim returns, that attempts are
  bounded, and which completed tasks the contributions account for.
\<close>

section \<open>State\<close>

record lease =
  l_task :: task
  l_worker :: string
  l_leased_at :: rat
  l_lease_until :: rat
  l_lease_id :: string
  l_attempts :: int

text \<open>The values of \<open>float\<close>, and the JSON values \<open>elapsed_seconds\<close> may have.\<close>

datatype pyfloat = Finite rat | Infinite bool | NaN

datatype elapsed_value = E_null | E_bool bool | E_int int | E_float pyfloat | E_text string | E_container

text \<open>\<open>r_elapsed\<close> is \<open>None\<close> when the result is not an object or has no such key.\<close>

record task_result =
  r_text :: string
  r_elapsed :: "elapsed_value option"

record done_task =
  d_task :: task
  d_worker :: string
  d_completed_at :: rat
  d_result :: task_result

record failed_task =
  x_task :: task
  x_worker :: string
  x_failed_at :: rat
  x_error :: string
  x_attempts :: int

record worker =
  w_capabilities :: "(string, json) dict"
  w_last_seen :: rat

record contribution =
  n_node_id :: string
  n_workload_id :: string
  n_task_id :: string
  n_cpu_time_seconds :: pyfloat
  n_ram_time_mb_seconds :: pyfloat
  n_task_class :: string
  n_verification_result :: string
  n_completed_work :: int
  n_karma_impact :: int
  n_error :: string

record cstate =
  c_queued :: "(string, task) dict"
  c_running :: "(string, lease) dict"
  c_completed :: "(string, done_task) dict"
  c_failed :: "(string, failed_task) dict"
  c_workers :: "(string, worker) dict"
  c_attempts :: "(string, int) dict"
  c_contributions :: "(string, contribution) dict"

record coord = cstate +
  c_lease_seconds :: int
  c_max_attempts :: int
  c_disk :: "cstate option"

definition MAX_RESULT_BYTES :: nat where "MAX_RESULT_BYTES = 1048576"

definition coord_save :: "coord \<Rightarrow> coord" where
  "coord_save st = st\<lparr>c_disk := Some (cstate.truncate st)\<rparr>"

text \<open>The checks \<open>_load\<close> makes on the document of an existing state file.\<close>

definition load_checks :: "json \<Rightarrow> unit result" where
  "load_checks doc =
     (case doc of
        JObj d \<Rightarrow>
          if \<not> (case dget d ''version'' of Some j \<Rightarrow> json_eq_int j 1 | None \<Rightarrow> False)
          then Inl (RuntimeError ''invalid compute state'')
          else if \<not> list_all (\<lambda>name. case dget d name of Some (JObj _) \<Rightarrow> True | _ \<Rightarrow> False)
                     [''queued'', ''running'', ''completed'', ''failed'', ''workers'']
          then Inl (RuntimeError ''invalid compute state'')
          else if (case dget d ''attempts'' of None \<Rightarrow> False | Some (JObj _) \<Rightarrow> False | _ \<Rightarrow> True)
          then Inl (RuntimeError ''invalid compute state'')
          else Inr ()
      | _ \<Rightarrow> Inl (AttributeError ''get''))"

definition empty_cstate :: cstate where
  "empty_cstate = \<lparr>c_queued = [], c_running = [], c_completed = [], c_failed = [], c_workers = [],
     c_attempts = [], c_contributions = []\<rparr>"

text \<open>Construction on a state file that is absent or holds the given tables.\<close>

definition coord_init :: "int \<Rightarrow> int \<Rightarrow> cstate option \<Rightarrow> coord" where
  "coord_init lease_seconds max_attempts file =
     (let c = (case file of None \<Rightarrow> empty_cstate | Some c \<Rightarrow> c)
      in coord_save (cstate.extend c
           \<lparr>c_lease_seconds = max 1 lease_seconds, c_max_attempts = max 1 max_attempts, c_disk = file\<rparr>))"

section \<open>Submission and workers\<close>

definition known_task :: "string \<Rightarrow> coord \<Rightarrow> bool" where
  "known_task tid st \<longleftrightarrow> tid \<in> dkeys (c_queued st) \<or> tid \<in> dkeys (c_running st) \<or>
     tid \<in> dkeys (c_completed st) \<or> tid \<in> dkeys (c_failed st)"

definition submit :: "task \<Rightarrow> coord \<Rightarrow> task result \<times> coord" where
  "submit t st =
     (case task_validate t of
        Inl e \<Rightarrow> (Inl e, st)
      | Inr u \<Rightarrow>
          if known_task (t_id u) st then (Inl (ValueError ''task already exists''), st)
          else (Inr u, coord_save (st\<lparr>c_queued := dset (t_id u) u (c_queued st),
                 c_attempts := dset (t_id u) 0 (c_attempts st)\<rparr>)))"

definition submit_frame ::
    "(bytes \<Rightarrow> bytes) \<Rightarrow> (string \<Rightarrow> bytes option) \<Rightarrow> string \<Rightarrow> task \<Rightarrow> coord \<Rightarrow> task result \<times> coord" where
  "submit_frame sha files path t st =
     (case sha256_file sha files path of
        Inl e \<Rightarrow> (Inl e, st)
      | Inr digest \<Rightarrow> submit (t\<lparr>t_frame_path := path, t_frame_sha256 := digest\<rparr>) st)"

definition register_worker :: "rat \<Rightarrow> string \<Rightarrow> (string, json) dict \<Rightarrow> coord \<Rightarrow> unit result \<times> coord" where
  "register_worker now wid caps st =
     (if wid = [] then (Inl (ValueError ''worker_id and capabilities are required''), st)
      else (Inr (), coord_save (st\<lparr>c_workers := dset wid \<lparr>w_capabilities = caps, w_last_seen = now\<rparr> (c_workers st)\<rparr>)))"

section \<open>Expired leases\<close>

definition attempts_of :: "string \<Rightarrow> lease \<Rightarrow> coord \<Rightarrow> int" where
  "attempts_of tid r st = (case dget (c_attempts st) tid of None \<Rightarrow> l_attempts r | Some a \<Rightarrow> a)"

definition without_lease_id :: "task \<Rightarrow> task" where
  "without_lease_id t = t\<lparr>t_metadata := ddel ''lease_id'' (t_metadata t)\<rparr>"

definition requeue_one :: "rat \<Rightarrow> string \<Rightarrow> coord \<Rightarrow> coord" where
  "requeue_one now tid st =
     (case dget (c_running st) tid of
        None \<Rightarrow> st
      | Some r \<Rightarrow>
          (let attempts = attempts_of tid r st;
               t = without_lease_id (l_task r);
               st1 = st\<lparr>c_running := ddel tid (c_running st)\<rparr>
           in if attempts \<ge> c_max_attempts st
              then st1\<lparr>c_failed := dset tid \<lparr>x_task = t, x_worker = l_worker r, x_failed_at = now,
                         x_error = ''lease expired'', x_attempts = attempts\<rparr> (c_failed st),
                       c_attempts := ddel tid (c_attempts st)\<rparr>
              else st1\<lparr>c_queued := dset tid t (c_queued st)\<rparr>))"

definition expired :: "rat \<Rightarrow> coord \<Rightarrow> string list" where
  "expired now st = map fst (filter (\<lambda>p. l_lease_until (snd p) \<le> now) (c_running st))"

definition requeue_expired :: "rat \<Rightarrow> coord \<Rightarrow> bool \<times> coord" where
  "requeue_expired now st = (expired now st \<noteq> [], fold (requeue_one now) (expired now st) st)"

definition coord_status :: "rat \<Rightarrow> coord \<Rightarrow> cstate \<times> coord" where
  "coord_status now st =
     (case requeue_expired now st of
        (changed, st1) \<Rightarrow>
          (let st2 = (if changed then coord_save st1 else st1) in (cstate.truncate st2, st2)))"

section \<open>Claiming a task\<close>

definition positive_int :: "json option \<Rightarrow> int list" where
  "positive_int j = (case j of Some (JInt v) \<Rightarrow> if v > 0 then [v] else [] | _ \<Rightarrow> [])"

definition memory_caps :: "(string, json) dict \<Rightarrow> int list" where
  "memory_caps caps =
     (let safe_limits = (case dget caps ''safe_limits'' of Some (JObj d) \<Rightarrow> d | _ \<Rightarrow> [])
      in positive_int (dget caps ''memory_mb'') @ positive_int (dget safe_limits ''memory_limit_mb''))"

definition leases_of :: "string \<Rightarrow> coord \<Rightarrow> lease list" where
  "leases_of wid st = filter (\<lambda>r. l_worker r = wid) (map snd (c_running st))"

definition reserved_memory :: "string \<Rightarrow> coord \<Rightarrow> int" where
  "reserved_memory wid st = sum_list (map (\<lambda>r. t_memory_mb (l_task r)) (leases_of wid st))"

definition reserved_threads :: "string \<Rightarrow> coord \<Rightarrow> int" where
  "reserved_threads wid st = sum_list (map (\<lambda>r. t_threads (l_task r)) (leases_of wid st))"

definition memory_limit :: "(string, json) dict \<Rightarrow> int \<Rightarrow> int" where
  "memory_limit caps available = fold min (memory_caps caps) (max 0 available)"

definition cpu_limit :: "(string, json) dict \<Rightarrow> int \<Rightarrow> int" where
  "cpu_limit caps cpu_count = fold min (positive_int (dget caps ''cpu_count'')) (max 1 cpu_count)"

text \<open>\<open>set(capabilities.get("vm_features", []) or [])\<close>.\<close>

definition hashable :: "json \<Rightarrow> bool" where
  "hashable j \<longleftrightarrow> (case j of JList _ \<Rightarrow> False | JObj _ \<Rightarrow> False | _ \<Rightarrow> True)"

definition worker_features :: "(string, json) dict \<Rightarrow> json set result" where
  "worker_features caps =
     (case dget caps ''vm_features'' of
        None \<Rightarrow> Inr {}
      | Some JNull \<Rightarrow> Inr {}
      | Some (JBool b) \<Rightarrow> if b then Inl (TypeError ''not iterable'') else Inr {}
      | Some (JInt i) \<Rightarrow> if i \<noteq> 0 then Inl (TypeError ''not iterable'') else Inr {}
      | Some (JStr s) \<Rightarrow> Inr ((\<lambda>c. JStr [c]) ` set s)
      | Some (JList xs) \<Rightarrow> if list_all hashable xs then Inr (set xs) else Inl (TypeError ''unhashable type'')
      | Some (JObj d) \<Rightarrow> Inr (JStr ` dkeys d))"

definition required_set :: "task \<Rightarrow> json set" where
  "required_set t = (case dget (t_metadata t) ''required_vm_features'' of Some (JList xs) \<Rightarrow> set xs | _ \<Rightarrow> {})"

definition task_fits :: "int \<Rightarrow> int \<Rightarrow> json set \<Rightarrow> task \<Rightarrow> bool" where
  "task_fits mem cpu features t \<longleftrightarrow>
     \<not> (t_memory_mb t > mem \<or> t_threads t > cpu) \<and> required_set t \<subseteq> features"

fun claim_scan :: "(task \<Rightarrow> bool) \<Rightarrow> task list \<Rightarrow> task option result" where
  "claim_scan fits [] = Inr None"
| "claim_scan fits (raw # rest) =
     rbind (task_validate raw) (\<lambda>t. if fits t then Inr (Some t) else claim_scan fits rest)"

definition candidates :: "coord \<Rightarrow> task list" where
  "candidates st = sort_key (\<lambda>t. (t_created_at t, t_id t)) (map snd (c_queued st))"

definition start_lease :: "rat \<Rightarrow> string \<Rightarrow> string \<Rightarrow> task \<Rightarrow> coord \<Rightarrow> task \<times> coord" where
  "start_lease now lease_id wid t st =
     (let attempts = (case dget (c_attempts st) (t_id t) of None \<Rightarrow> 0 | Some a \<Rightarrow> a) + 1;
          t' = t\<lparr>t_metadata := dset ''lease_id'' (JStr lease_id) (t_metadata t)\<rparr>
      in (t', st\<lparr>c_queued := ddel (t_id t) (c_queued st),
                c_attempts := dset (t_id t) attempts (c_attempts st),
                c_running := dset (t_id t)
                  \<lparr>l_task = t', l_worker = wid, l_leased_at = now,
                   l_lease_until = now + of_int (min (c_lease_seconds st) (t_max_seconds t)),
                   l_lease_id = lease_id, l_attempts = attempts\<rparr> (c_running st)\<rparr>))"

definition claim :: "rat \<Rightarrow> string \<Rightarrow> string \<Rightarrow> int \<Rightarrow> int \<Rightarrow> coord \<Rightarrow> task option result \<times> coord" where
  "claim now lease_id wid available cpu_count st0 =
     (let st1 = snd (requeue_expired now st0) in
      case dget (c_workers st1) wid of
        None \<Rightarrow> (Inl (ValueError ''worker is not registered''), st1)
      | Some w \<Rightarrow>
          (let caps = w_capabilities w;
               st = st1\<lparr>c_workers := dset wid (w\<lparr>w_last_seen := now\<rparr>) (c_workers st1)\<rparr>;
               mem = max 0 (memory_limit caps available - reserved_memory wid st);
               cpu = max 0 (cpu_limit caps cpu_count - reserved_threads wid st)
           in case rbind (worker_features caps) (\<lambda>features. claim_scan (task_fits mem cpu features) (candidates st)) of
                Inl e \<Rightarrow> (Inl e, st)
              | Inr None \<Rightarrow> (Inr None, coord_save st)
              | Inr (Some t) \<Rightarrow>
                  (case start_lease now lease_id wid t st of (t', st') \<Rightarrow> (Inr (Some t'), coord_save st'))))"

section \<open>Ending a lease\<close>

definition validate_lease :: "lease \<Rightarrow> string option \<Rightarrow> unit result" where
  "validate_lease r lease_id =
     (case lease_id of None \<Rightarrow> Inr ()
      | Some i \<Rightarrow> raise_if (l_lease_id r \<noteq> i) (ValueError ''stale or invalid lease''))"

definition held_lease :: "string \<Rightarrow> string \<Rightarrow> string option \<Rightarrow> coord \<Rightarrow> lease result" where
  "held_lease wid tid lease_id st =
     (case dget (c_running st) tid of
        None \<Rightarrow> Inl (ValueError ''task is not leased to this worker'')
      | Some r \<Rightarrow>
          if l_worker r \<noteq> wid then Inl (ValueError ''task is not leased to this worker'')
          else rbind (validate_lease r lease_id) (\<lambda>_. Inr r))"

definition core_complete ::
    "rat \<Rightarrow> string \<Rightarrow> string \<Rightarrow> task_result \<Rightarrow> string option \<Rightarrow> coord \<Rightarrow> unit result \<times> coord" where
  "core_complete now wid tid res lease_id st =
     (if length (r_text res) > MAX_RESULT_BYTES then (Inl (ValueError ''task result exceeds maximum size''), st)
      else
        (case held_lease wid tid lease_id st of
           Inl e \<Rightarrow> (Inl e, st)
         | Inr r \<Rightarrow>
             (Inr (), coord_save (st\<lparr>c_running := ddel tid (c_running st),
                c_attempts := ddel tid (c_attempts st),
                c_completed := dset tid \<lparr>d_task = l_task r, d_worker = wid, d_completed_at = now, d_result = res\<rparr>
                  (c_completed st)\<rparr>))))"

definition release :: "rat \<Rightarrow> string \<Rightarrow> string \<Rightarrow> string \<Rightarrow> string option \<Rightarrow> coord \<Rightarrow> unit result \<times> coord" where
  "release now wid tid reason lease_id st =
     (case held_lease wid tid lease_id st of
        Inl e \<Rightarrow> (Inl e, st)
      | Inr r \<Rightarrow>
          (let t = (l_task r)\<lparr>t_metadata :=
                 ddel ''lease_id'' (dset ''last_release_reason'' (JStr reason) (t_metadata (l_task r)))\<rparr>;
               attempts = attempts_of tid r st;
               st1 = st\<lparr>c_running := ddel tid (c_running st)\<rparr>
           in (Inr (), coord_save
                (if attempts \<ge> c_max_attempts st
                 then st1\<lparr>c_failed := dset tid \<lparr>x_task = t, x_worker = wid, x_failed_at = now,
                            x_error = reason, x_attempts = attempts\<rparr> (c_failed st),
                          c_attempts := ddel tid (c_attempts st)\<rparr>
                 else st1\<lparr>c_queued := dset tid t (c_queued st)\<rparr>))))"

definition core_fail :: "rat \<Rightarrow> string \<Rightarrow> string \<Rightarrow> string \<Rightarrow> string option \<Rightarrow> coord \<Rightarrow> unit result \<times> coord" where
  "core_fail now wid tid err lease_id st =
     (case held_lease wid tid lease_id st of
        Inl e \<Rightarrow> (Inl e, st)
      | Inr r \<Rightarrow>
          (Inr (), coord_save (st\<lparr>c_running := ddel tid (c_running st),
             c_failed := dset tid \<lparr>x_task = l_task r, x_worker = wid, x_failed_at = now, x_error = err,
               x_attempts = attempts_of tid r st\<rparr> (c_failed st),
             c_attempts := ddel tid (c_attempts st)\<rparr>)))"

section \<open>Accounting\<close>

definition contribution_key :: "string \<Rightarrow> string \<Rightarrow> nat \<Rightarrow> string" where
  "contribution_key tid wid n = tid @ '':'' @ wid @ '':'' @ nat_str n"

text \<open>\<open>float(x)\<close>; an integer is rounded to 53 bits and must be below \<open>2 ^ 1024\<close> then.\<close>

definition py_float :: "(string \<Rightarrow> pyfloat option) \<Rightarrow> elapsed_value \<Rightarrow> pyfloat result" where
  "py_float num v =
     (case v of
        E_bool b \<Rightarrow> Inr (Finite (if b then 1 else 0))
      | E_int i \<Rightarrow>
          (let n = round53 (nat \<bar>i\<bar>)
           in if n \<ge> 2 ^ 1024 then Inl (OverflowError ''int too large to convert to float'')
              else Inr (Finite (of_int (sgn i) * of_nat n)))
      | E_float x \<Rightarrow> Inr x
      | E_text s \<Rightarrow> (case num s of None \<Rightarrow> Inl (ValueError ''could not convert string to float'') | Some x \<Rightarrow> Inr x)
      | _ \<Rightarrow> Inl (TypeError ''float() argument must be a string or a real number''))"

definition elapsed_seconds :: "(string \<Rightarrow> pyfloat option) \<Rightarrow> elapsed_value option \<Rightarrow> pyfloat result" where
  "elapsed_seconds num v = (case v of None \<Rightarrow> Inr (Finite 0) | Some x \<Rightarrow> py_float num x)"

text \<open>\<open>float(m) * x\<close> and \<open>max(0.0, x)\<close>\<close>

definition scale_float :: "int \<Rightarrow> pyfloat \<Rightarrow> pyfloat" where
  "scale_float m x =
     (case x of
        Finite q \<Rightarrow> Finite (of_int m * q)
      | Infinite b \<Rightarrow> if m = 0 then NaN else Infinite (b = (0 < m))
      | NaN \<Rightarrow> NaN)"

definition max0_float :: "pyfloat \<Rightarrow> pyfloat" where
  "max0_float x = (case x of Finite q \<Rightarrow> Finite (max 0 q) | Infinite True \<Rightarrow> Infinite True | _ \<Rightarrow> Finite 0)"

definition contribution_of ::
    "(json \<Rightarrow> string) \<Rightarrow> task \<Rightarrow> string \<Rightarrow> pyfloat \<Rightarrow> string \<Rightarrow> int \<Rightarrow> int \<Rightarrow> string \<Rightarrow> contribution" where
  "contribution_of repr t wid elapsed verification work karma err =
     (let md = t_metadata t;
          text = (\<lambda>k dflt. case dget md k of None \<Rightarrow> dflt | Some j \<Rightarrow> py_str repr j)
      in \<lparr>n_node_id = wid, n_workload_id = text ''workload_id'' (t_id t), n_task_id = t_id t,
          n_cpu_time_seconds = max0_float elapsed,
          n_ram_time_mb_seconds = max0_float (scale_float (t_memory_mb t) elapsed),
          n_task_class = text ''task_class'' ''pyxel_frame'',
          n_verification_result = verification, n_completed_work = work, n_karma_impact = karma,
          n_error = err\<rparr>)"

definition record_contribution ::
    "(json \<Rightarrow> string) \<Rightarrow> (string \<Rightarrow> pyfloat option) \<Rightarrow> task \<Rightarrow> string \<Rightarrow> elapsed_value option \<Rightarrow> string \<Rightarrow> int \<Rightarrow> int \<Rightarrow> string \<Rightarrow>
     coord \<Rightarrow> coord result" where
  "record_contribution repr num t wid value verification work karma err st =
     rbind (elapsed_seconds num value) (\<lambda>elapsed.
       Inr (st\<lparr>c_contributions := dset (contribution_key (t_id t) wid (length (c_contributions st)))
              (contribution_of repr t wid elapsed verification work karma err) (c_contributions st)\<rparr>))"

text \<open>When the elapsed time is no number, \<open>complete\<close> raises after the task was completed and saved.\<close>

definition complete ::
    "(json \<Rightarrow> string) \<Rightarrow> (string \<Rightarrow> pyfloat option) \<Rightarrow> rat \<Rightarrow> string \<Rightarrow> string \<Rightarrow> task_result \<Rightarrow> string option \<Rightarrow> coord \<Rightarrow>
     unit result \<times> coord" where
  "complete repr num now wid tid res lease_id st =
     (let was_running = dget (c_running st) tid in
      case core_complete now wid tid res lease_id st of
        (Inl e, st1) \<Rightarrow> (Inl e, st1)
      | (Inr _, st1) \<Rightarrow>
          (case was_running of
             None \<Rightarrow> (Inr (), st1)
           | Some r \<Rightarrow>
               (case record_contribution repr num (l_task r) wid (r_elapsed res) ''verified'' 1 8 [] st1 of
                  Inl e \<Rightarrow> (Inl e, st1)
                | Inr st2 \<Rightarrow> (Inr (), coord_save st2))))"

definition fail ::
    "(json \<Rightarrow> string) \<Rightarrow> (string \<Rightarrow> pyfloat option) \<Rightarrow> rat \<Rightarrow> string \<Rightarrow> string \<Rightarrow> string \<Rightarrow> string option \<Rightarrow> coord \<Rightarrow>
     unit result \<times> coord" where
  "fail repr num now wid tid err lease_id st =
     (let was_running = dget (c_running st) tid in
      case core_fail now wid tid err lease_id st of
        (Inl e, st1) \<Rightarrow> (Inl e, st1)
      | (Inr _, st1) \<Rightarrow>
          (case was_running of
             None \<Rightarrow> (Inr (), st1)
           | Some r \<Rightarrow>
               (case record_contribution repr num (l_task r) wid None ''failed'' 0 (- 2) err st1 of
                  Inl e \<Rightarrow> (Inl e, st1)
                | Inr st2 \<Rightarrow> (Inr (), coord_save st2))))"

section \<open>Histories\<close>

text \<open>One call of an operation, with the identifiers of the tasks it leased out.\<close>

definition grants_of :: "task option result \<Rightarrow> string list" where
  "grants_of r = (case r of Inr (Some t) \<Rightarrow> [t_id t] | _ \<Rightarrow> [])"

inductive cstep :: "(string \<Rightarrow> pyfloat option) \<Rightarrow> coord \<Rightarrow> string list \<Rightarrow> coord \<Rightarrow> bool" for num where
  submit: "cstep num st [] (snd (submit t st))"
| register: "cstep num st [] (snd (register_worker now wid caps st))"
| claim: "claim now lease_id wid available cpu_count st = (r, st') \<Longrightarrow> cstep num st (grants_of r) st'"
| complete: "cstep num st [] (snd (complete repr num now wid tid res lease st))"
| release: "cstep num st [] (snd (release now wid tid reason lease st))"
| fail: "cstep num st [] (snd (fail repr num now wid tid err lease st))"
| status: "cstep num st [] (snd (coord_status now st))"

inductive reachable :: "(string \<Rightarrow> pyfloat option) \<Rightarrow> int \<Rightarrow> int \<Rightarrow> string list \<Rightarrow> coord \<Rightarrow> bool" for num lease_seconds max_attempts where
  start: "reachable num lease_seconds max_attempts [] (coord_init lease_seconds max_attempts None)"
| step: "reachable num lease_seconds max_attempts gs st \<Longrightarrow> cstep num st g st' \<Longrightarrow>
    reachable num lease_seconds max_attempts (gs @ g) st'"

section \<open>The invariant of the tables\<close>

definition tables_ok :: "coord \<Rightarrow> bool" where
  "tables_ok st \<longleftrightarrow> dict_ok (c_queued st) \<and> dict_ok (c_running st) \<and> dict_ok (c_completed st) \<and>
     dict_ok (c_failed st) \<and> dkeys (c_queued st) \<inter> dkeys (c_running st) = {} \<and>
     (dkeys (c_queued st) \<union> dkeys (c_running st)) \<inter> (dkeys (c_completed st) \<union> dkeys (c_failed st)) = {} \<and>
     dkeys (c_completed st) \<inter> dkeys (c_failed st) = {}"

definition queued_ok :: "coord \<Rightarrow> bool" where
  "queued_ok st \<longleftrightarrow> (\<forall>k t. dget (c_queued st) k = Some t \<longrightarrow> task_valid t \<and> t_id t = k \<and>
     (\<exists>a. dget (c_attempts st) k = Some a \<and> 0 \<le> a \<and> a < c_max_attempts st))"

definition running_ok :: "coord \<Rightarrow> bool" where
  "running_ok st \<longleftrightarrow> (\<forall>k r. dget (c_running st) k = Some r \<longrightarrow> task_valid (l_task r) \<and> t_id (l_task r) = k \<and>
     dget (c_attempts st) k = Some (l_attempts r) \<and> 1 \<le> l_attempts r \<and> l_attempts r \<le> c_max_attempts st)"

definition coord_ok :: "coord \<Rightarrow> bool" where
  "coord_ok st \<longleftrightarrow> tables_ok st \<and> queued_ok st \<and> running_ok st \<and> 1 \<le> c_max_attempts st"

lemmas coord_defs = coord_ok_def tables_ok_def queued_ok_def running_ok_def

lemma coord_save_simps [simp]:
  "c_queued (coord_save st) = c_queued st" "c_running (coord_save st) = c_running st"
  "c_completed (coord_save st) = c_completed st" "c_failed (coord_save st) = c_failed st"
  "c_workers (coord_save st) = c_workers st" "c_attempts (coord_save st) = c_attempts st"
  "c_contributions (coord_save st) = c_contributions st" "c_max_attempts (coord_save st) = c_max_attempts st"
  "c_lease_seconds (coord_save st) = c_lease_seconds st"
  by (simp_all add: coord_save_def)

text \<open>States with the same tables and counters.\<close>

definition same_tables :: "coord \<Rightarrow> coord \<Rightarrow> bool" where
  "same_tables st st' \<longleftrightarrow> c_queued st' = c_queued st \<and> c_running st' = c_running st \<and>
     c_completed st' = c_completed st \<and> c_failed st' = c_failed st \<and> c_attempts st' = c_attempts st \<and>
     c_max_attempts st' = c_max_attempts st"

lemma coord_ok_same: "same_tables st st' \<Longrightarrow> coord_ok st' = coord_ok st"
  by (simp add: coord_defs same_tables_def)

lemma same_tables_simps [simp]:
  "same_tables st st" "same_tables st (coord_save st') = same_tables st st'"
  "same_tables st (st\<lparr>c_workers := w\<rparr>)" "same_tables st (st\<lparr>c_contributions := c\<rparr>)"
  by (simp_all add: same_tables_def)

lemma coord_ok_save [simp]: "coord_ok (coord_save st) = coord_ok st"
  by (rule coord_ok_same) simp

lemma coord_ok_workers [simp]: "coord_ok (st\<lparr>c_workers := w\<rparr>) = coord_ok st"
  by (rule coord_ok_same) simp

lemma queued_okD:
  assumes "coord_ok st" "dget (c_queued st) k = Some t"
  shows "task_valid t" "t_id t = k" "\<exists>a. dget (c_attempts st) k = Some a \<and> 0 \<le> a \<and> a < c_max_attempts st"
  using assms unfolding coord_ok_def queued_ok_def by blast+

lemma running_okD:
  assumes "coord_ok st" "dget (c_running st) k = Some r"
  shows "task_valid (l_task r)" "t_id (l_task r) = k" "dget (c_attempts st) k = Some (l_attempts r)"
    "1 \<le> l_attempts r" "l_attempts r \<le> c_max_attempts st"
  using assms unfolding coord_ok_def running_ok_def by blast+

lemma task_valid_drop_lease: "task_valid t \<Longrightarrow> task_valid (without_lease_id t)"
  unfolding without_lease_id_def by (rule task_valid_metadata) (auto simp: model_keys_def)

lemma submit_ok:
  assumes "coord_ok st"
  shows "coord_ok (snd (submit t st))"
proof (cases "task_validate t")
  case (Inr u)
  show ?thesis
  proof (cases "known_task (t_id u) st")
    case False
    then have n: "t_id u \<notin> dkeys (c_queued st)" "t_id u \<notin> dkeys (c_running st)"
      "t_id u \<notin> dkeys (c_completed st)" "t_id u \<notin> dkeys (c_failed st)" by (simp_all add: known_task_def)
    then have r: "dget (c_running st) (t_id u) = None" by (simp add: dget_None_iff)
    have "tables_ok (st\<lparr>c_queued := dset (t_id u) u (c_queued st), c_attempts := dset (t_id u) 0 (c_attempts st)\<rparr>)"
      using assms n by (auto simp: coord_ok_def tables_ok_def)
    with assms r task_validate_valid [OF Inr]
    have "coord_ok (st\<lparr>c_queued := dset (t_id u) u (c_queued st), c_attempts := dset (t_id u) 0 (c_attempts st)\<rparr>)"
      by (auto simp: coord_ok_def queued_ok_def running_ok_def)
    with False Inr show ?thesis by (simp add: submit_def)
  qed (use assms Inr in \<open>simp add: submit_def\<close>)
qed (use assms in \<open>simp add: submit_def\<close>)

text \<open>A lease that ends: the task leaves the running table for one of the other three.\<close>

lemma end_requeue_ok:
  assumes "coord_ok st" "dget (c_running st) tid = Some r" "attempts_of tid r st < c_max_attempts st"
    "task_valid t" "t_id t = tid"
  shows "coord_ok (st\<lparr>c_running := ddel tid (c_running st), c_queued := dset tid t (c_queued st)\<rparr>)"
proof -
  have k: "tid \<in> dkeys (c_running st)" using assms(2) dkeys_iff [of tid] by blast
  have a: "dget (c_attempts st) tid = Some (l_attempts r)" "1 \<le> l_attempts r"
    using assms(1,2) by (auto simp: coord_defs)
  have "tables_ok (st\<lparr>c_running := ddel tid (c_running st), c_queued := dset tid t (c_queued st)\<rparr>)"
    using assms(1) k by (auto simp: coord_ok_def tables_ok_def)
  moreover have "queued_ok (st\<lparr>c_running := ddel tid (c_running st), c_queued := dset tid t (c_queued st)\<rparr>)"
    using assms(1,3-) a unfolding coord_ok_def queued_ok_def attempts_of_def by auto
  ultimately show ?thesis using assms(1) by (auto simp: coord_ok_def running_ok_def)
qed

lemma end_failed_ok:
  assumes "coord_ok st" "dget (c_running st) tid = Some r"
  shows "coord_ok (st\<lparr>c_running := ddel tid (c_running st), c_failed := dset tid x (c_failed st),
    c_attempts := ddel tid (c_attempts st)\<rparr>)"
proof -
  have k: "tid \<in> dkeys (c_running st)" using assms(2) dkeys_iff [of tid] by blast
  then have q: "dget (c_queued st) tid = None" using assms(1) unfolding dget_None_iff by (auto simp: coord_ok_def tables_ok_def)
  have "tables_ok (st\<lparr>c_running := ddel tid (c_running st), c_failed := dset tid x (c_failed st),
      c_attempts := ddel tid (c_attempts st)\<rparr>)"
    using assms(1) k by (auto simp: coord_ok_def tables_ok_def)
  with assms q show ?thesis by (auto simp: coord_ok_def queued_ok_def running_ok_def)
qed

lemma end_completed_ok:
  assumes "coord_ok st" "dget (c_running st) tid = Some r"
  shows "coord_ok (st\<lparr>c_running := ddel tid (c_running st), c_attempts := ddel tid (c_attempts st),
    c_completed := dset tid x (c_completed st)\<rparr>)"
proof -
  have k: "tid \<in> dkeys (c_running st)" using assms(2) dkeys_iff [of tid] by blast
  then have q: "dget (c_queued st) tid = None" using assms(1) unfolding dget_None_iff by (auto simp: coord_ok_def tables_ok_def)
  have "tables_ok (st\<lparr>c_running := ddel tid (c_running st), c_attempts := ddel tid (c_attempts st),
      c_completed := dset tid x (c_completed st)\<rparr>)"
    using assms(1) k by (auto simp: coord_ok_def tables_ok_def)
  with assms q show ?thesis by (auto simp: coord_ok_def queued_ok_def running_ok_def)
qed

lemma requeue_one_ok:
  assumes "coord_ok st"
  shows "coord_ok (requeue_one now tid st)"
proof (cases "dget (c_running st) tid")
  case (Some r)
  have "task_valid (without_lease_id (l_task r))" "t_id (without_lease_id (l_task r)) = tid"
    using assms Some task_valid_drop_lease by (auto simp: coord_ok_def running_ok_def without_lease_id_def)
  with assms Some end_requeue_ok [OF assms Some] end_failed_ok [OF assms Some] show ?thesis
    by (simp add: requeue_one_def Let_def)
qed (use assms in \<open>simp add: requeue_one_def\<close>)

lemma requeue_expired_ok: "coord_ok st \<Longrightarrow> coord_ok (snd (requeue_expired now st))"
proof -
  have "coord_ok (fold (requeue_one now) ids st)" if "coord_ok st" for ids st
    using that by (induction ids arbitrary: st) (simp_all add: requeue_one_ok)
  then show "coord_ok st \<Longrightarrow> coord_ok (snd (requeue_expired now st))"
    by (simp add: requeue_expired_def)
qed

lemma held_lease_Inr:
  "held_lease wid tid lease st = Inr r \<longleftrightarrow> dget (c_running st) tid = Some r \<and> l_worker r = wid \<and>
     (\<forall>i. lease = Some i \<longrightarrow> l_lease_id r = i)"
  by (auto simp: held_lease_def validate_lease_def split: option.splits)

lemma release_ok:
  assumes "coord_ok st"
  shows "coord_ok (snd (release now wid tid reason lease st))"
proof (cases "held_lease wid tid lease st")
  case (Inr r)
  then have r: "dget (c_running st) tid = Some r" by (simp add: held_lease_Inr)
  let ?t = "(l_task r)\<lparr>t_metadata :=
      ddel ''lease_id'' (dset ''last_release_reason'' (JStr reason) (t_metadata (l_task r)))\<rparr>"
  have "task_valid (l_task r)" "t_id (l_task r) = tid"
    using assms r by (auto simp: coord_ok_def running_ok_def)
  then have "task_valid ?t" "t_id ?t = tid"
    by (auto intro: task_valid_metadata simp: model_keys_def)
  with Inr end_requeue_ok [OF assms r] end_failed_ok [OF assms r] show ?thesis
    by (simp add: release_def Let_def)
qed (use assms in \<open>simp add: release_def\<close>)

section \<open>What a claim does\<close>

lemma claim_scan_valid: "list_all task_valid ts \<Longrightarrow> claim_scan fits ts = Inr (List.find fits ts)"
  by (induction ts) (simp_all add: task_valid_def)

lemma candidates_iff:
  assumes "coord_ok st"
  shows "t \<in> set (candidates st) \<longleftrightarrow> dget (c_queued st) (t_id t) = Some t"
proof -
  have d: "dict_ok (c_queued st)" using assms by (simp add: coord_ok_def tables_ok_def)
  have "t \<in> set (candidates st) \<longleftrightarrow> (\<exists>k. dget (c_queued st) k = Some t)"
    unfolding dget_in_set [OF d] candidates_def by force
  also have "\<dots> \<longleftrightarrow> dget (c_queued st) (t_id t) = Some t"
    using assms by (auto simp: coord_ok_def queued_ok_def)
  finally show ?thesis .
qed

lemma candidates_valid: "coord_ok st \<Longrightarrow> list_all task_valid (candidates st)"
  using candidates_iff by (auto simp: list_all_iff coord_ok_def queued_ok_def)

lemma start_lease_ok:
  assumes "coord_ok st" "dget (c_queued st) (t_id t) = Some t"
  shows "coord_ok (snd (start_lease now lid wid t st))"
proof -
  let ?st = "snd (start_lease now lid wid t st)"
  have k: "t_id t \<in> dkeys (c_queued st)" using assms(2) dkeys_iff [of "t_id t"] by blast
  have "task_valid t" by (rule queued_okD(1) [OF assms])
  then have v: "task_valid (t\<lparr>t_metadata := dset ''lease_id'' (JStr lid) (t_metadata t)\<rparr>)"
    by (rule task_valid_metadata) (auto simp: model_keys_def)
  obtain a where a: "dget (c_attempts st) (t_id t) = Some a" "0 \<le> a" "a < c_max_attempts st"
    using queued_okD(3) [OF assms] by blast
  have "tables_ok ?st" using assms(1) k by (auto simp: coord_ok_def tables_ok_def start_lease_def Let_def)
  moreover have "running_ok ?st"
    using assms(1) a v by (auto simp: coord_ok_def running_ok_def start_lease_def Let_def)
  ultimately show ?thesis
    using assms(1) by (auto simp: coord_ok_def queued_ok_def start_lease_def Let_def)
qed

text \<open>The state a claim works on: expired leases are back in the queue or failed.\<close>

abbreviation after_requeue :: "rat \<Rightarrow> coord \<Rightarrow> coord" where
  "after_requeue now st \<equiv> snd (requeue_expired now st)"

definition worker_fits :: "string \<Rightarrow> int \<Rightarrow> int \<Rightarrow> worker \<Rightarrow> json set \<Rightarrow> coord \<Rightarrow> task \<Rightarrow> bool" where
  "worker_fits wid available cpu_count w features st t \<longleftrightarrow>
     task_fits (max 0 (memory_limit (w_capabilities w) available - reserved_memory wid st))
       (max 0 (cpu_limit (w_capabilities w) cpu_count - reserved_threads wid st)) features t"

lemma reserved_workers [simp]:
  "reserved_memory wid (st\<lparr>c_workers := w\<rparr>) = reserved_memory wid st"
  "reserved_threads wid (st\<lparr>c_workers := w\<rparr>) = reserved_threads wid st"
  "candidates (st\<lparr>c_workers := w\<rparr>) = candidates st"
  by (simp_all add: reserved_memory_def reserved_threads_def leases_of_def candidates_def)

lemma claim_eq:
  assumes "coord_ok st"
  shows "claim now lid wid available cpu_count st =
    (let st1 = after_requeue now st in
     case dget (c_workers st1) wid of
       None \<Rightarrow> (Inl (ValueError ''worker is not registered''), st1)
     | Some w \<Rightarrow>
         (let st2 = st1\<lparr>c_workers := dset wid (w\<lparr>w_last_seen := now\<rparr>) (c_workers st1)\<rparr> in
          case worker_features (w_capabilities w) of
            Inl e \<Rightarrow> (Inl e, st2)
          | Inr features \<Rightarrow>
              (case List.find (worker_fits wid available cpu_count w features st1) (candidates st1) of
                 None \<Rightarrow> (Inr None, coord_save st2)
               | Some t \<Rightarrow> (Inr (Some (fst (start_lease now lid wid t st2))),
                            coord_save (snd (start_lease now lid wid t st2))))))"
proof -
  have v: "list_all task_valid (candidates (after_requeue now st))"
    using candidates_valid requeue_expired_ok assms by blast
  show ?thesis
    by (auto simp: claim_def Let_def claim_scan_valid [OF v] worker_fits_def [abs_def]
        split: option.splits sum.splits prod.splits)
qed

lemma claim_cases [consumes 1, case_names unregistered features idle granted]:
  assumes "coord_ok st"
  obtains (unregistered) "claim now lid wid available cpu_count st = (Inl (ValueError ''worker is not registered''), after_requeue now st)"
      "dget (c_workers (after_requeue now st)) wid = None"
  | (features) w e ws where "claim now lid wid available cpu_count st = (Inl e, (after_requeue now st)\<lparr>c_workers := ws\<rparr>)"
      "dget (c_workers (after_requeue now st)) wid = Some w" "worker_features (w_capabilities w) = Inl e"
  | (idle) w ws features where "claim now lid wid available cpu_count st =
        (Inr None, coord_save ((after_requeue now st)\<lparr>c_workers := ws\<rparr>))"
      "dget (c_workers (after_requeue now st)) wid = Some w" "worker_features (w_capabilities w) = Inr features"
      "List.find (worker_fits wid available cpu_count w features (after_requeue now st)) (candidates (after_requeue now st)) = None"
  | (granted) w ws features t where "claim now lid wid available cpu_count st =
        (Inr (Some (fst (start_lease now lid wid t ((after_requeue now st)\<lparr>c_workers := ws\<rparr>)))),
         coord_save (snd (start_lease now lid wid t ((after_requeue now st)\<lparr>c_workers := ws\<rparr>))))"
      "dget (c_workers (after_requeue now st)) wid = Some w" "worker_features (w_capabilities w) = Inr features"
      "List.find (worker_fits wid available cpu_count w features (after_requeue now st)) (candidates (after_requeue now st)) = Some t"
      "dget (c_queued (after_requeue now st)) (t_id t) = Some t"
proof -
  let ?st1 = "after_requeue now st"
  have ok: "coord_ok ?st1" using requeue_expired_ok assms by blast
  note eq = claim_eq [OF assms, of now lid wid available cpu_count, unfolded Let_def]
  show thesis
  proof (cases "dget (c_workers ?st1) wid")
    case None
    show thesis by (rule unregistered [OF _ None]) (simp add: eq None)
  next
    case w: (Some w)
    let ?ws = "dset wid (w\<lparr>w_last_seen := now\<rparr>) (c_workers ?st1)"
    show thesis
    proof (cases "worker_features (w_capabilities w)")
      case (Inl e)
      show thesis by (rule features [of e ?ws, OF _ w Inl]) (simp add: eq w Inl)
    next
      case f: (Inr features)
      show thesis
      proof (cases "List.find (worker_fits wid available cpu_count w features ?st1) (candidates ?st1)")
        case None
        show thesis by (rule idle [of ?ws, OF _ w f None]) (simp add: eq w f None)
      next
        case (Some t)
        then have "t \<in> set (candidates ?st1)" by (auto simp: find_Some_iff)
        with candidates_iff [OF ok] have q: "dget (c_queued ?st1) (t_id t) = Some t" by blast
        show thesis by (rule granted [of t ?ws, OF _ w f Some q]) (simp add: eq w f Some)
      qed
    qed
  qed
qed

lemma claim_ok:
  assumes "coord_ok st"
  shows "coord_ok (snd (claim now lid wid available cpu_count st))"
proof -
  have ok: "coord_ok ((after_requeue now st)\<lparr>c_workers := ws\<rparr>)" for ws
    using requeue_expired_ok [OF assms, of now] by simp
  from assms show ?thesis
  proof (cases rule: claim_cases [of st now lid wid available cpu_count])
    case unregistered
    with requeue_expired_ok [OF assms] show ?thesis by simp
  next
    case (granted w ws features t)
    with start_lease_ok [OF ok [of ws], of t] show ?thesis by simp
  qed (use ok in simp_all)
qed

text \<open>A contribution is recorded exactly when the elapsed time is a number, and touches nothing else.\<close>

lemma record_Inr:
  "record_contribution repr num t wid el v work k err st = Inr st' \<Longrightarrow>
   \<exists>c x. elapsed_seconds num el = Inr x \<and> n_completed_work c = work \<and>
     st' = st\<lparr>c_contributions := dset (contribution_key (t_id t) wid (length (c_contributions st))) c (c_contributions st)\<rparr>"
proof -
  have "n_completed_work (contribution_of repr t wid x v work k err) = work" for x
    by (simp add: contribution_of_def Let_def)
  then show "record_contribution repr num t wid el v work k err st = Inr st' \<Longrightarrow> ?thesis"
    unfolding record_contribution_def rbind_eq_Inr by blast
qed


lemma record_same [simp]:
  "record_contribution repr num t wid el v work k err st' = Inr st'' \<Longrightarrow> same_tables st st'' = same_tables st st'"
  by (drule record_Inr, elim exE conjE) (simp add: same_tables_def)

lemma complete_ok:
  assumes "coord_ok st"
  shows "coord_ok (snd (complete repr num now wid tid res lease st))"
proof (cases "held_lease wid tid lease st")
  case (Inr r)
  then have r: "dget (c_running st) tid = Some r" by (simp add: held_lease_Inr)
  have "same_tables (snd (core_complete now wid tid res lease st)) (snd (complete repr num now wid tid res lease st))"
    by (simp add: complete_def Let_def r split: prod.splits sum.splits)
  moreover have "coord_ok (snd (core_complete now wid tid res lease st))"
    using assms end_completed_ok [OF assms r] Inr by (simp add: core_complete_def)
  ultimately show ?thesis using coord_ok_same by blast
qed (use assms in \<open>auto simp: complete_def core_complete_def Let_def split: if_splits\<close>)

lemma fail_ok:
  assumes "coord_ok st"
  shows "coord_ok (snd (fail repr num now wid tid err lease st))"
proof (cases "held_lease wid tid lease st")
  case (Inr r)
  then have r: "dget (c_running st) tid = Some r" by (simp add: held_lease_Inr)
  have "same_tables (snd (core_fail now wid tid err lease st)) (snd (fail repr num now wid tid err lease st))"
    by (simp add: fail_def Let_def r split: prod.splits sum.splits)
  moreover have "coord_ok (snd (core_fail now wid tid err lease st))"
    using assms end_failed_ok [OF assms r] Inr by (simp add: core_fail_def)
  ultimately show ?thesis using coord_ok_same by blast
qed (use assms in \<open>simp add: fail_def core_fail_def Let_def\<close>)

lemma status_ok: "coord_ok st \<Longrightarrow> coord_ok (snd (coord_status now st))"
  using requeue_expired_ok [of st now] by (auto simp: coord_status_def Let_def split: prod.splits)

lemma register_worker_ok: "coord_ok st \<Longrightarrow> coord_ok (snd (register_worker now wid caps st))"
  by (simp add: register_worker_def)

lemma cstep_ok: "cstep num st g st' \<Longrightarrow> coord_ok st \<Longrightarrow> coord_ok st'"
proof (induction rule: cstep.induct)
  case (claim now lid wid available cpu_count st r st')
  then show ?case using claim_ok [of st now lid wid available cpu_count] by simp
qed (simp_all add: submit_ok register_worker_ok complete_ok release_ok fail_ok status_ok)

lemma coord_init_ok: "coord_ok (coord_init ls ma None)"
  by (simp add: coord_init_def coord_defs Let_def empty_cstate_def cstate.extend_def)

lemma reachable_ok: "reachable num ls ma gs st \<Longrightarrow> coord_ok st"
  by (induction rule: reachable.induct) (auto simp: coord_init_ok dest: cstep_ok)

section \<open>How the tables evolve\<close>

text \<open>The attempts of a task that are used up.\<close>

definition spent :: "string \<Rightarrow> coord \<Rightarrow> int" where
  "spent k st = (if k \<in> dkeys (c_completed st) \<or> k \<in> dkeys (c_failed st) then c_max_attempts st
     else if k \<in> dkeys (c_queued st) \<or> k \<in> dkeys (c_running st)
     then (case dget (c_attempts st) k of None \<Rightarrow> 0 | Some a \<Rightarrow> a) else 0)"

definition evolves :: "string list \<Rightarrow> coord \<Rightarrow> coord \<Rightarrow> bool" where
  "evolves g st st' \<longleftrightarrow> (\<forall>k. known_task k st \<longrightarrow> known_task k st') \<and>
     (\<forall>k d. dget (c_completed st) k = Some d \<longrightarrow> dget (c_completed st') k = Some d) \<and>
     (\<forall>k x. dget (c_failed st) k = Some x \<longrightarrow> dget (c_failed st') k = Some x) \<and>
     c_max_attempts st' = c_max_attempts st \<and> c_lease_seconds st' = c_lease_seconds st \<and>
     (\<forall>k. spent k st + int (count_list g k) \<le> spent k st')"

lemma evolves_refl [simp]: "evolves [] st st"
  by (simp add: evolves_def)

lemma evolves_trans: "evolves g st st' \<Longrightarrow> evolves h st' st'' \<Longrightarrow> evolves (g @ h) st st''"
  unfolding evolves_def by (auto simp: count_list_append) (metis (no_types, opaque_lifting) add.assoc add_right_mono order_trans)

lemma evolves_same: "same_tables st st' \<Longrightarrow> c_lease_seconds st' = c_lease_seconds st \<Longrightarrow> evolves [] st st'"
  by (simp add: evolves_def same_tables_def known_task_def spent_def)

lemma evolves_save [simp]: "evolves g st (coord_save st') = evolves g st st'"
  by (simp add: evolves_def known_task_def spent_def)

lemma spent_bound:
  assumes "coord_ok st"
  shows "0 \<le> spent k st" "spent k st \<le> c_max_attempts st"
proof -
  have m: "1 \<le> c_max_attempts st" using assms by (simp add: coord_ok_def)
  have "0 \<le> spent k st \<and> spent k st \<le> c_max_attempts st"
  proof (cases "dget (c_queued st) k")
    case (Some t)
    with queued_okD(3) [OF assms Some] m show ?thesis by (auto simp: spent_def)
  next
    case q: None
    show ?thesis
    proof (cases "dget (c_running st) k")
      case (Some r)
      with running_okD(3-5) [OF assms Some] m show ?thesis by (auto simp: spent_def)
    next
      case None
      with q m show ?thesis by (simp add: spent_def dget_None_iff)
    qed
  qed
  then show "0 \<le> spent k st" "spent k st \<le> c_max_attempts st" by simp_all
qed

lemma running_keys:
  assumes "coord_ok st" "dget (c_running st) tid = Some r"
  shows "tid \<in> dkeys (c_running st)" "tid \<notin> dkeys (c_completed st)" "tid \<notin> dkeys (c_failed st)"
    "dget (c_completed st) tid = None" "dget (c_failed st) tid = None"
proof -
  show k: "tid \<in> dkeys (c_running st)" using assms(2) dkeys_iff [of tid] by blast
  with assms(1) show c: "tid \<notin> dkeys (c_completed st)" and f: "tid \<notin> dkeys (c_failed st)"
    by (auto simp: coord_ok_def tables_ok_def)
  then show "dget (c_completed st) tid = None" "dget (c_failed st) tid = None" by (simp_all add: dget_None_iff)
qed

lemma end_requeue_evolves:
  assumes "coord_ok st" "dget (c_running st) tid = Some r"
  shows "evolves [] st (st\<lparr>c_running := ddel tid (c_running st), c_queued := dset tid t (c_queued st)\<rparr>)"
  using running_keys [OF assms] by (auto simp: evolves_def known_task_def spent_def)

lemma end_final_evolves:
  assumes "coord_ok st" "dget (c_running st) tid = Some r"
  shows "evolves [] st (st\<lparr>c_running := ddel tid (c_running st), c_failed := dset tid x (c_failed st),
      c_attempts := ddel tid (c_attempts st)\<rparr>)"
    "evolves [] st (st\<lparr>c_running := ddel tid (c_running st), c_attempts := ddel tid (c_attempts st),
      c_completed := dset tid y (c_completed st)\<rparr>)"
  using running_keys [OF assms] spent_bound(2) [OF assms(1), of tid]
  by (auto simp: evolves_def known_task_def spent_def)

lemma requeue_one_evolves:
  assumes "coord_ok st"
  shows "evolves [] st (requeue_one now tid st)"
proof (cases "dget (c_running st) tid")
  case (Some r)
  with end_requeue_evolves [OF assms Some] end_final_evolves(1) [OF assms Some] show ?thesis
    by (simp add: requeue_one_def Let_def)
qed (simp add: requeue_one_def)

lemma requeue_expired_evolves:
  assumes "coord_ok st"
  shows "evolves [] st (after_requeue now st)"
proof -
  have "evolves [] st (fold (requeue_one now) ids st)" for ids
    using assms
  proof (induction ids arbitrary: st)
    case (Cons i ids)
    then show ?case
      using evolves_trans [OF requeue_one_evolves [OF Cons.prems, of now i] Cons.IH [OF requeue_one_ok [OF Cons.prems]]]
      by simp
  qed simp
  then show ?thesis by (simp add: requeue_expired_def)
qed

lemma queued_keys:
  assumes "coord_ok st" "dget (c_queued st) tid = Some t"
  shows "tid \<in> dkeys (c_queued st)" "tid \<notin> dkeys (c_running st)" "tid \<notin> dkeys (c_completed st)" "tid \<notin> dkeys (c_failed st)"
proof -
  show k: "tid \<in> dkeys (c_queued st)" using assms(2) dkeys_iff [of tid] by blast
  with assms(1) show "tid \<notin> dkeys (c_running st)" "tid \<notin> dkeys (c_completed st)" "tid \<notin> dkeys (c_failed st)"
    by (auto simp: coord_ok_def tables_ok_def)
qed

lemma start_lease_evolves:
  assumes "coord_ok st" "dget (c_queued st) (t_id t) = Some t"
  shows "evolves [t_id t] st (snd (start_lease now lid wid t st))"
proof -
  obtain a where "dget (c_attempts st) (t_id t) = Some a" using queued_okD(3) [OF assms] by blast
  with queued_keys [OF assms] show ?thesis
    by (auto simp: evolves_def known_task_def spent_def start_lease_def Let_def intro: rev_image_eqI)
qed

lemma start_lease_id [simp]: "t_id (fst (start_lease now lid wid t st)) = t_id t"
  by (simp add: start_lease_def Let_def)

lemma claim_evolves:
  assumes "coord_ok st" "claim now lid wid available cpu_count st = (r, st')"
  shows "evolves (grants_of r) st st'"
proof -
  let ?st1 = "after_requeue now st"
  have e: "evolves [] st (?st1\<lparr>c_workers := ws\<rparr>)" for ws
    using evolves_trans [OF requeue_expired_evolves [OF assms(1), of now] evolves_same [of ?st1 "?st1\<lparr>c_workers := ws\<rparr>"]]
    by simp
  from assms(1) show ?thesis
  proof (cases rule: claim_cases [of st now lid wid available cpu_count])
    case unregistered
    with assms(2) requeue_expired_evolves [OF assms(1), of now] show ?thesis by (auto simp: grants_of_def)
  next
    case (granted w ws features t)
    have "coord_ok (?st1\<lparr>c_workers := ws\<rparr>)" using requeue_expired_ok [OF assms(1)] by simp
    from start_lease_evolves [OF this, of t now lid wid] granted(5)
    have "evolves [t_id t] (?st1\<lparr>c_workers := ws\<rparr>) (snd (start_lease now lid wid t (?st1\<lparr>c_workers := ws\<rparr>)))" by simp
    from evolves_trans [OF e this] granted(1) assms(2) show ?thesis by (simp add: grants_of_def)
  qed (use assms e in \<open>auto simp: grants_of_def\<close>)
qed

lemma submit_evolves:
  assumes "coord_ok st"
  shows "evolves [] st (snd (submit t st))"
proof (cases "task_validate t")
  case (Inr u)
  then show ?thesis by (auto simp: submit_def evolves_def known_task_def spent_def)
qed (simp add: submit_def)

lemma release_evolves:
  assumes "coord_ok st"
  shows "evolves [] st (snd (release now wid tid reason lease st))"
proof (cases "held_lease wid tid lease st")
  case (Inr r)
  then have r: "dget (c_running st) tid = Some r" by (simp add: held_lease_Inr)
  with end_requeue_evolves [OF assms r] end_final_evolves(1) [OF assms r] Inr show ?thesis
    by (simp add: release_def Let_def)
qed (simp add: release_def)

lemma evolves_record [simp]:
  "record_contribution repr num t wid el v work k err st' = Inr st'' \<Longrightarrow> evolves g st st'' = evolves g st st'"
  by (drule record_Inr, elim exE conjE) (simp add: evolves_def known_task_def spent_def)

lemma complete_evolves:
  assumes "coord_ok st"
  shows "evolves [] st (snd (complete repr num now wid tid res lease st))"
proof (cases "held_lease wid tid lease st")
  case (Inr r)
  then have r: "dget (c_running st) tid = Some r" by (simp add: held_lease_Inr)
  with end_final_evolves(2) [OF assms r] Inr show ?thesis
    by (auto simp: complete_def core_complete_def Let_def split: sum.splits)
qed (simp add: complete_def core_complete_def Let_def)

lemma fail_evolves:
  assumes "coord_ok st"
  shows "evolves [] st (snd (fail repr num now wid tid err lease st))"
proof (cases "held_lease wid tid lease st")
  case (Inr r)
  then have r: "dget (c_running st) tid = Some r" by (simp add: held_lease_Inr)
  with end_final_evolves(1) [OF assms r] Inr show ?thesis by (auto simp: fail_def core_fail_def Let_def split: sum.splits)
qed (simp add: fail_def core_fail_def Let_def)

lemma cstep_evolves: "cstep num st g st' \<Longrightarrow> coord_ok st \<Longrightarrow> evolves g st st'"
proof (induction rule: cstep.induct)
  case (register st now wid caps)
  then show ?case by (simp add: register_worker_def evolves_same)
next
  case (status st now)
  then show ?case
    using requeue_expired_evolves [OF status, of now] by (auto simp: coord_status_def Let_def split: prod.splits)
qed (simp_all add: submit_evolves claim_evolves complete_evolves release_evolves fail_evolves)

lemma reachable_evolves: "reachable num ls ma gs st \<Longrightarrow> evolves gs (coord_init ls ma None) st"
  by (induction rule: reachable.induct) (auto dest: reachable_ok cstep_evolves intro: evolves_trans)

section \<open>Capacity\<close>

lemma fold_min_init: "fold min xs a \<le> (a :: int)"
proof (induction xs arbitrary: a)
  case (Cons y ys)
  then show ?case using order_trans [OF Cons.IH [of "min y a"]] by simp
qed simp

lemma fold_min_le: "x \<in> set xs \<Longrightarrow> fold min xs a \<le> (x :: int)"
proof (induction xs arbitrary: a)
  case (Cons y ys)
  then show ?case using order_trans [OF fold_min_init [of ys "min y a"], of y] by auto
qed simp

lemma sum_leases_dset:
  assumes "k \<notin> dkeys d"
  shows "sum_list (map f (filter P (map snd (dset k v d)))) = sum_list (map f (filter P (map snd d))) + (if P v then f v else (0 :: int))"
  using assms by (induction d) auto

lemma start_lease_reserved:
  assumes "coord_ok st" "dget (c_queued st) (t_id t) = Some t"
  shows "reserved_memory v (snd (start_lease now lid wid t st)) =
      reserved_memory v st + (if v = wid then t_memory_mb t else 0)"
    "reserved_threads v (snd (start_lease now lid wid t st)) =
      reserved_threads v st + (if v = wid then t_threads t else 0)"
  using sum_leases_dset [OF queued_keys(2) [OF assms]]
  by (simp_all add: reserved_memory_def reserved_threads_def leases_of_def start_lease_def Let_def)

lemma reserved_save [simp]:
  "reserved_memory wid (coord_save st) = reserved_memory wid st" "reserved_threads wid (coord_save st) = reserved_threads wid st"
  by (simp_all add: reserved_memory_def reserved_threads_def leases_of_def)

section \<open>Contributions\<close>

text \<open>The completed tasks whose stored result has a readable elapsed time.\<close>

definition countable :: "(string \<Rightarrow> pyfloat option) \<Rightarrow> string \<times> done_task \<Rightarrow> bool" where
  "countable num p = (case elapsed_seconds num (r_elapsed (d_result (snd p))) of Inl e \<Rightarrow> False | Inr x \<Rightarrow> True)"

definition accounted :: "(string \<Rightarrow> pyfloat option) \<Rightarrow> coord \<Rightarrow> bool" where
  "accounted num st \<longleftrightarrow>
     sum_list (map (\<lambda>p. n_completed_work (snd p)) (c_contributions st)) = int (length (filter (countable num) (c_completed st))) \<and>
     (\<forall>k \<in> dkeys (c_contributions st). \<exists>n < length (c_contributions st). \<exists>a. k = a @ '':'' @ nat_str n)"





lemma accounted_save [simp]: "accounted num (coord_save st) = accounted num st"
  by (simp add: accounted_def)


lemma requeue_tables:
  "c_contributions (after_requeue now st) = c_contributions st" "c_completed (after_requeue now st) = c_completed st"
  "c_workers (after_requeue now st) = c_workers st"
proof -
  have "c_contributions (fold (requeue_one now) ids st) = c_contributions st \<and>
      c_completed (fold (requeue_one now) ids st) = c_completed st \<and> c_workers (fold (requeue_one now) ids st) = c_workers st" for ids
  proof (induction ids arbitrary: st)
    case (Cons i ids)
    then show ?case by (auto simp: requeue_one_def Let_def split: option.splits)
  qed simp
  then show "c_contributions (after_requeue now st) = c_contributions st" "c_completed (after_requeue now st) = c_completed st"
    "c_workers (after_requeue now st) = c_workers st" by (simp_all add: requeue_expired_def)
qed






section \<open>Results of the operations that end a lease\<close>





section \<open>Properties\<close>

definition demo_task :: task where
  "demo_task = \<lparr>t_frame_path = ''f.png'', t_frame_sha256 = [], t_artifact_digest = None, t_memory_mb = 64,
     t_threads = 1, t_id = ''t1'', t_max_seconds = 60, t_created_at = 5, t_metadata = []\<rparr>"

definition demo_coord :: coord where
  "demo_coord = snd (register_worker 1 ''w'' [(''memory_mb'', JInt 100)]
     (snd (submit demo_task (coord_init 300 2 None))))"

definition demo_leased :: coord where
  "demo_leased = snd (claim 6 ''l1'' ''w'' 80 4 demo_coord)"

definition demo_result :: "elapsed_value \<Rightarrow> task_result" where
  "demo_result v = \<lparr>r_text = ''{}'', r_elapsed = Some v\<rparr>"

lemmas demo_coord_simps = demo_coord_def register_worker_def submit_def coord_init_def task_validate_def known_task_def
  validate_fields_def validate_metadata_def required_features_def demo_task_def py_lower_def empty_cstate_def
  cstate.extend_def Let_def requeue_expired_def expired_def

lemmas demo_claim_simps = claim_def candidates_def worker_features_def task_fits_def memory_limit_def memory_caps_def
  positive_int_def cpu_limit_def reserved_memory_def reserved_threads_def leases_of_def required_set_def start_lease_def

lemma demo_coord_ok: "coord_ok demo_coord"
  unfolding demo_coord_def by (intro register_worker_ok submit_ok coord_init_ok)

lemma demo_claimed: "map_sum id (map_option t_id) (fst (claim 6 ''l1'' ''w'' 80 4 demo_coord)) = Inr (Some ''t1'')"
  by (simp add: demo_claim_simps demo_coord_simps)

lemma demo_leased_tables:
  "\<exists>r. dget (c_running demo_leased) ''t1'' = Some r \<and> l_worker r = ''w'' \<and> l_lease_id r = ''l1''"
  "c_completed demo_leased = []" "c_contributions demo_leased = []"
  by (simp_all add: demo_leased_def demo_claim_simps demo_coord_simps)

lemma demo_reachable: "reachable num 300 2 [] demo_coord" "reachable num 300 2 [''t1''] demo_leased"
proof -
  have "reachable num 300 2 [] (snd (submit demo_task (coord_init 300 2 None)))"
    using reachable.step [OF reachable.start cstep.submit, of num 300 2 demo_task] by simp
  from reachable.step [OF this cstep.register, of 1 "''w''" "[(''memory_mb'', JInt 100)]"]
  show r: "reachable num 300 2 [] demo_coord" by (simp add: demo_coord_def)
  obtain t where "fst (claim 6 ''l1'' ''w'' 80 4 demo_coord) = Inr (Some t)" "t_id t = ''t1''"
    using demo_claimed by (cases "fst (claim 6 ''l1'' ''w'' 80 4 demo_coord)") auto
  then show "reachable num 300 2 [''t1''] demo_leased"
    using reachable.step [OF r cstep.claim, of 6 "''l1''" "''w''" 80 4] by (simp add: demo_leased_def grants_of_def prod_eq_iff)
qed


text \<open>C20. In every history of a coordinator: a task is in at most one of the queued, running, completed
  and failed tables; queued and running tasks are valid and filed under their own identifier; the
  attempt counter of a lease is between 1 and \<open>max_attempts\<close>, and a queued task has attempts left.
  The state only evolves: no submitted task disappears, and completed and failed records never change.\<close>

theorem coordinator_history_invariant:
  assumes "reachable num ls ma gs st"
  shows "coord_ok st \<and> (\<forall>g st'. cstep num st g st' \<longrightarrow>
    (\<forall>k. known_task k st \<longrightarrow> known_task k st') \<and>
    (\<forall>k d. dget (c_completed st) k = Some d \<longrightarrow> dget (c_completed st') k = Some d) \<and>
    (\<forall>k x. dget (c_failed st) k = Some x \<longrightarrow> dget (c_failed st') k = Some x))"
  using reachable_ok [OF assms] cstep_evolves unfolding evolves_def by blast

theorem coordinator_history_invariant_witness:
  "coord_ok demo_leased \<and> known_task ''t1'' demo_leased \<and> known_task ''t1'' (snd (coord_status 90 demo_leased))"
proof -
  have "known_task ''t1'' demo_leased"
    using demo_leased_tables(1) dkeys_iff [of "''t1''" "c_running demo_leased"] by (auto simp: known_task_def)
  with coordinator_history_invariant [OF demo_reachable(2)] show ?thesis using cstep.status [of Map.empty demo_leased 90] by blast
qed

text \<open>C21. Admission control: when a claim hands a task to a worker, the memory and threads of all tasks
  leased to that worker, the new one included, are within its registered limits and within what it
  reported as available (where a CPU count below 1 counts as 1); every feature the task requires is a feature of the worker; and the
  reservations of other workers are what they were after expired leases were taken back.\<close>

theorem claim_never_overcommits:
  assumes "coord_ok st" "claim now lid wid available cpu_count st = (Inr (Some t), st')"
  shows "\<exists>w features. dget (c_workers st) wid = Some w \<and> worker_features (w_capabilities w) = Inr features \<and>
    reserved_memory wid st' \<le> max 0 available \<and>
    (\<forall>cap \<in> set (memory_caps (w_capabilities w)). reserved_memory wid st' \<le> cap) \<and>
    reserved_threads wid st' \<le> max 1 cpu_count \<and>
    (\<forall>cap \<in> set (positive_int (dget (w_capabilities w) ''cpu_count'')). reserved_threads wid st' \<le> cap) \<and>
    required_set t \<subseteq> features \<and>
    (\<forall>v. v \<noteq> wid \<longrightarrow> reserved_memory v st' = reserved_memory v (after_requeue now st))"
  using assms(1)
proof (cases rule: claim_cases [of st now lid wid available cpu_count])
  case (granted w ws features u)
  let ?st1 = "after_requeue now st"
  have ok: "coord_ok (?st1\<lparr>c_workers := ws\<rparr>)" using requeue_expired_ok [OF assms(1)] by simp
  have fits: "worker_fits wid available cpu_count w features ?st1 u" using granted(4) by (auto simp: find_Some_iff)
  have valid: "1 \<le> t_memory_mb u" "1 \<le> t_threads u"
    using task_validate_facts(3,4) [of u u] queued_okD(1) [OF ok, of "t_id u" u] granted(5) by (simp_all add: task_valid_def)
  note res = start_lease_reserved [OF ok, of u _ now lid wid]
  have mem: "reserved_memory wid st' \<le> memory_limit (w_capabilities w) available"
    and cpu: "reserved_threads wid st' \<le> cpu_limit (w_capabilities w) cpu_count"
    and other: "\<forall>v. v \<noteq> wid \<longrightarrow> reserved_memory v st' = reserved_memory v ?st1"
    using granted(1,5) assms(2) fits valid res by (auto simp: worker_fits_def task_fits_def max_def split: if_splits)
  have "required_set t \<subseteq> features"
    using granted(1) assms(2) fits by (auto simp: worker_fits_def task_fits_def start_lease_def required_set_def Let_def)
  with mem cpu other granted(2,3) show ?thesis
    using order_trans [OF mem] order_trans [OF cpu] fold_min_init fold_min_le requeue_tables(3) [of now st]
    unfolding memory_limit_def cpu_limit_def by (intro exI [of _ w] exI [of _ features]) auto
qed (use assms(2) in simp_all)

theorem claim_never_overcommits_witness:
  "\<exists>t st'. claim 6 ''l1'' ''w'' 80 4 demo_coord = (Inr (Some t), st') \<and> t_id t = ''t1'' \<and> reserved_memory ''w'' st' \<le> 80"
proof -
  let ?c = "claim 6 ''l1'' ''w'' 80 4 demo_coord"
  obtain t st' where c: "?c = (Inr (Some t), st')" "t_id t = ''t1''"
    using demo_claimed by (cases ?c; cases "fst ?c") auto
  with claim_never_overcommits [OF demo_coord_ok c(1)] show ?thesis by auto
qed

text \<open>C22. Scheduling: for a registered worker with a well-formed feature list, a claim returns a task
  exactly when, after expired leases were taken back, some queued task fits the worker, and it
  returns the one that was created first (ties by identifier), with the lease identifier added to
  its metadata; no task is passed over forever in favour of a later one that fits as well.\<close>

theorem claim_returns_first_fitting:
  assumes "coord_ok st" "dget (c_workers st) wid = Some w" "worker_features (w_capabilities w) = Inr features"
  shows "case fst (claim now lid wid available cpu_count st) of
      Inl e \<Rightarrow> False
    | Inr None \<Rightarrow> \<forall>k t. dget (c_queued (after_requeue now st)) k = Some t \<longrightarrow>
        \<not> worker_fits wid available cpu_count w features (after_requeue now st) t
    | Inr (Some t') \<Rightarrow> \<exists>t. dget (c_queued (after_requeue now st)) (t_id t) = Some t \<and>
        t' = t\<lparr>t_metadata := dset ''lease_id'' (JStr lid) (t_metadata t)\<rparr> \<and>
        worker_fits wid available cpu_count w features (after_requeue now st) t \<and>
        (\<forall>k u. dget (c_queued (after_requeue now st)) k = Some u \<longrightarrow>
          worker_fits wid available cpu_count w features (after_requeue now st) u \<longrightarrow>
          (t_created_at t, t_id t) \<le> (t_created_at u, t_id u))"
  using assms(1)
proof (cases rule: claim_cases [of st now lid wid available cpu_count])
  case (idle w' ws fs)
  have "w' = w" "fs = features" using idle assms by (auto simp: requeue_tables)
  with idle candidates_iff [OF requeue_expired_ok [OF assms(1)], of _ now] queued_okD(2) [OF requeue_expired_ok [OF assms(1)], of now]
  show ?thesis by (auto simp: find_None_iff)
next
  case (granted w' ws fs t)
  let ?st1 = "after_requeue now st"
  have ok: "coord_ok ?st1" using requeue_expired_ok [OF assms(1)] .
  have eq: "w' = w" "fs = features" using granted assms by (auto simp: requeue_tables)
  obtain i where i: "i < length (candidates ?st1)" "candidates ?st1 ! i = t"
    "worker_fits wid available cpu_count w features ?st1 t"
    "\<forall>j<i. \<not> worker_fits wid available cpu_count w features ?st1 (candidates ?st1 ! j)"
    using granted(4) eq by (auto simp: find_Some_iff)
  have "(t_created_at t, t_id t) \<le> (t_created_at u, t_id u)"
    if u: "dget (c_queued ?st1) k = Some u" "worker_fits wid available cpu_count w features ?st1 u" for k u
  proof -
    have "u \<in> set (candidates ?st1)" using candidates_iff [OF ok] queued_okD(2) [OF ok u(1)] u(1) by simp
    then obtain j where j: "j < length (candidates ?st1)" "candidates ?st1 ! j = u" by (auto simp: in_set_conv_nth)
    with i(4) u(2) have "i \<le> j" using not_less by blast
    moreover have "sorted (map (\<lambda>t. (t_created_at t, t_id t)) (candidates ?st1))" by (simp add: candidates_def)
    ultimately show ?thesis using i(1,2) j sorted_nth_mono [of "map (\<lambda>t. (t_created_at t, t_id t)) (candidates ?st1)" i j] by simp
  qed
  with granted(1,5) i(3) show ?thesis
    by (auto simp: start_lease_def Let_def intro!: exI [of _ t])
qed (use assms in \<open>simp_all add: requeue_tables\<close>)

theorem claim_returns_first_fitting_witness:
  "case fst (claim 6 ''l1'' ''w'' 80 4 demo_coord) of
     Inl e \<Rightarrow> False
   | Inr None \<Rightarrow> \<not> worker_fits ''w'' 80 4 \<lparr>w_capabilities = [(''memory_mb'', JInt 100)], w_last_seen = 1\<rparr> {} demo_coord demo_task
   | Inr (Some t') \<Rightarrow> dget (t_metadata t') ''lease_id'' = Some (JStr ''l1'')"
proof -
  let ?w = "\<lparr>w_capabilities = [(''memory_mb'', JInt 100)], w_last_seen = 1\<rparr>"
  have ok: "coord_ok demo_coord"
    unfolding demo_coord_def by (intro register_worker_ok submit_ok coord_init_ok)
  have w: "dget (c_workers demo_coord) ''w'' = Some ?w"
    by (simp add: demo_coord_def register_worker_def)
  have f: "worker_features (w_capabilities ?w) = Inr {}" by (simp add: worker_features_def)
  have r: "after_requeue 6 demo_coord = demo_coord" "dget (c_queued demo_coord) ''t1'' = Some demo_task"
    by (simp_all add: demo_coord_def register_worker_def submit_def coord_init_def task_validate_def
        validate_fields_def validate_metadata_def required_features_def demo_task_def py_lower_def empty_cstate_def
        cstate.extend_def Let_def requeue_expired_def expired_def known_task_def)
  show ?thesis
    using claim_returns_first_fitting [OF ok w f, where now = 6 and lid = "''l1''" and available = 80 and cpu_count = 4] r by (auto split: sum.splits option.splits)
qed

text \<open>C23. Retries are bounded: over a whole history, however leases expire, are released or failed, no
  task is handed out more often than \<open>max_attempts\<close> (at least one) times, so a task cannot be
  retried forever.\<close>

theorem leases_bounded_by_max_attempts:
  assumes "reachable num ls ma gs st"
  shows "int (count_list gs k) \<le> max 1 ma"
proof -
  have e: "evolves gs (coord_init ls ma None) st" by (rule reachable_evolves [OF assms])
  have "0 \<le> spent k (coord_init ls ma None)" by (rule spent_bound(1) [OF coord_init_ok])
  moreover have "spent k (coord_init ls ma None) + int (count_list gs k) \<le> spent k st"
    and m: "c_max_attempts st = c_max_attempts (coord_init ls ma None)" using e by (simp_all add: evolves_def)
  moreover have "spent k st \<le> c_max_attempts st" by (rule spent_bound(2) [OF reachable_ok [OF assms]])
  moreover have "c_max_attempts (coord_init ls ma None) = max 1 ma"
    by (simp add: coord_init_def Let_def cstate.extend_def empty_cstate_def)
  ultimately show ?thesis by linarith
qed

theorem leases_bounded_by_max_attempts_witness:
  "reachable Map.empty 300 2 [''t1''] demo_leased \<and> count_list [''t1''] ''t1'' = 1 \<and> int (count_list [''t1''] ''t1'') \<le> max 1 2"
  using leases_bounded_by_max_attempts [OF demo_reachable(2) [of Map.empty], of "''t1''"] demo_reachable(2) [of Map.empty] by simp





text \<open>A worker that reports \<open>"elapsed_seconds": null\<close> gets an error for a task that is completed and saved, and
  the task is never accounted for.\<close>

lemma completion_unrecorded:
  "\<exists>e st'. complete repr num 7 ''w'' ''t1'' (demo_result E_null) (Some ''l1'') demo_leased = (Inl e, st') \<and>
     ''t1'' \<in> dkeys (c_completed st') \<and> c_contributions st' = [] \<and> c_disk st' = Some (cstate.truncate st')"
  using demo_leased_tables
  by (auto simp: complete_def core_complete_def Let_def demo_result_def MAX_RESULT_BYTES_def held_lease_def validate_lease_def
      record_contribution_def elapsed_seconds_def py_float_def coord_save_def cstate.truncate_def)

end
