(* ===== verification/Spatial_Codec.thy ===== *)
theory Spatial_Codec
  imports Utf8 "HOL-Library.List_Lexorder" "HOL-Library.Multiset"
begin

text \<open>
  The typed binary encoding of spatial memory, \<open>_encode_value\<close> and \<open>_decode_value\<close> of
  \<^verbatim>\<open>zdx_pixel_memory/spatial_store.py\<close>. A memory value is a tree of \<open>None\<close>, booleans, integers, floats,
  strings, bytes, lists and dictionaries with string keys. A float is its IEEE 754 bit pattern, which
  is what \<open>struct.pack(">d", \<dots>)\<close> writes; strings are lists of code points; a dictionary keeps insertion
  order, and its keys are distinct (\<^verbatim>\<open>sval_ok\<close>). Tuples and lists, and the three byte types, are one
  constructor each. The decoder works on a byte string and an offset as in the source, and its
  termination is proved: every nested value is decoded from a strictly shorter string.

  The lemmas show that decoding returns what was encoded, up to the order of dictionary keys.
\<close>

section \<open>Values\<close>

datatype sval =
    SNone
  | SBool bool
  | SInt int
  | SFloat "64 word"
  | SStr ustr
  | SBytes bytes
  | SList "sval list"
  | SDict "(ustr \<times> sval) list"

text \<open>\<open>math.isfinite\<close>: the exponent field is not all ones.\<close>

definition float_finite :: "64 word \<Rightarrow> bool" where
  "float_finite w \<longleftrightarrow> unat w div 2 ^ 52 mod 2048 \<noteq> 2047"

section \<open>Lengths and slices\<close>

definition u16 :: "nat \<Rightarrow> bytes result" where
  "u16 n = (if n \<le> 0xFFFF then Inr (be_bytes 2 n) else Inl (ValueError ''length exceeds uint16''))"

definition u32 :: "nat \<Rightarrow> bytes result" where
  "u32 n = (if n \<le> 0xFFFFFFFF then Inr (be_bytes 4 n) else Inl (ValueError ''length exceeds uint32''))"

definition read_u16 :: "bytes \<Rightarrow> nat \<Rightarrow> (nat \<times> nat) result" where
  "read_u16 data off =
     (if off + 2 > length data then Inl (ValueError ''truncated uint16'')
      else Inr (of_be (slice off 2 data), off + 2))"

definition read_u32 :: "bytes \<Rightarrow> nat \<Rightarrow> (nat \<times> nat) result" where
  "read_u32 data off =
     (if off + 4 > length data then Inl (ValueError ''truncated uint32'')
      else Inr (of_be (slice off 4 data), off + 4))"

definition take_bytes :: "bytes \<Rightarrow> nat \<Rightarrow> nat \<Rightarrow> (bytes \<times> nat) result" where
  "take_bytes data off n =
     (if off + n > length data then Inl (ValueError ''truncated spatial value'')
      else Inr (slice off n data, off + n))"

section \<open>Encoding\<close>

definition int_bytes :: "nat \<Rightarrow> bytes" where
  "int_bytes n = (if n = 0 then [] else be_bytes ((bit_length n + 7) div 8) n)"

definition encode_int :: "int \<Rightarrow> bytes result" where
  "encode_int i =
     (let raw = int_bytes (nat \<bar>i\<bar>)
      in rbind (u16 (length raw)) (\<lambda>l. Inr ([3, if i < 0 then 1 else 0] @ l @ raw)))"

text \<open>A length-prefixed block, as the items of lists and dictionaries are framed.\<close>

definition block32 :: "bytes \<Rightarrow> bytes result" where
  "block32 raw = rbind (u32 (length raw)) (\<lambda>l. Inr (l @ raw))"

fun blocks32 :: "bytes list \<Rightarrow> bytes result" where
  "blocks32 [] = Inr []"
| "blocks32 (e # es) = rbind (block32 e) (\<lambda>b. rbind (blocks32 es) (\<lambda>bs. Inr (b @ bs)))"

lemma size_sort_entries:
  "size_list (size_prod f g) (sort_key k xs) = size_list (size_prod f g) xs"
  unfolding size_list_conv_sum_list
  by (metis (no_types, lifting) length_sort mset_map mset_sort sum_mset_sum_list)

function (sequential)
  encode_value :: "sval \<Rightarrow> bytes result"
  and encode_list :: "sval list \<Rightarrow> bytes list result"
  and encode_entries :: "(ustr \<times> sval) list \<Rightarrow> bytes result" where
  "encode_value SNone = Inr [0]"
| "encode_value (SBool b) = Inr [if b then 2 else 1]"
| "encode_value (SInt i) = encode_int i"
| "encode_value (SFloat w) =
     (if \<not> float_finite w then Inl (ValueError ''non-finite floats are not supported'')
      else Inr (4 # be_bytes 8 (unat w)))"
| "encode_value (SStr s) = rbind (utf8_encode s) (\<lambda>raw. rbind (block32 raw) (\<lambda>b. Inr (5 # b)))"
| "encode_value (SBytes raw) = rbind (block32 raw) (\<lambda>b. Inr (6 # b))"
| "encode_value (SList xs) =
     rbind (encode_list xs) (\<lambda>encoded.
     rbind (u32 (length encoded)) (\<lambda>n.
     rbind (blocks32 encoded) (\<lambda>body. Inr (7 # n @ body))))"
| "encode_value (SDict kvs) =
     rbind (u32 (length kvs)) (\<lambda>n.
     rbind (encode_entries (sort_key fst kvs)) (\<lambda>body. Inr (8 # n @ body)))"
| "encode_list [] = Inr []"
| "encode_list (x # xs) = rbind (encode_value x) (\<lambda>e. rbind (encode_list xs) (\<lambda>es. Inr (e # es)))"
| "encode_entries [] = Inr []"
| "encode_entries ((k, v) # rest) =
     rbind (utf8_encode k) (\<lambda>key.
     rbind (encode_value v) (\<lambda>encoded.
     rbind (u16 (length key)) (\<lambda>kl.
     rbind (block32 encoded) (\<lambda>b.
     rbind (encode_entries rest) (\<lambda>body. Inr (kl @ key @ b @ body))))))"
  by pat_completeness auto
termination
  by (relation "measure (case_sum size (case_sum (size_list size) (size_list (size_prod (\<lambda>_. 0) size))))")
    (simp_all add: size_sort_entries)

section \<open>Decoding\<close>

lemma read_offsets:
  "read_u16 data off = Inr (n, off') \<Longrightarrow> off' = off + 2" "read_u32 data off = Inr (n, off') \<Longrightarrow> off' = off + 4"
  by (auto simp: read_u16_def read_u32_def split: if_splits)

lemma block_shorter:
  "read_u32 data off = Inr (n, off') \<Longrightarrow> take_bytes data off' m = Inr (raw, off2) \<Longrightarrow> length raw < length data"
  by (auto simp: take_bytes_def read_u32_def slice_def split: if_splits)

function (sequential)
  decode_value :: "bytes \<Rightarrow> nat \<Rightarrow> (sval \<times> nat) result"
  and decode_items :: "nat \<Rightarrow> bytes \<Rightarrow> nat \<Rightarrow> (sval list \<times> nat) result"
  and decode_pairs :: "nat \<Rightarrow> ustr option \<Rightarrow> bytes \<Rightarrow> nat \<Rightarrow> ((ustr \<times> sval) list \<times> nat) result" where
  "decode_value data off =
     (if off \<ge> length data then Inl (ValueError ''missing spatial value tag'')
      else
        (let tag = unat (data ! off); off1 = off + 1 in
         if tag = 0 then Inr (SNone, off1)
         else if tag = 1 then Inr (SBool False, off1)
         else if tag = 2 then Inr (SBool True, off1)
         else if tag = 3 then
           rbind (take_bytes data off1 1) (\<lambda>(s, off2).
           let sign = unat (s ! 0) in
           if sign \<notin> {0, 1} then Inl (ValueError ''invalid integer sign'')
           else
             rbind (read_u16 data off2) (\<lambda>(n, off3).
             rbind (take_bytes data off3 n) (\<lambda>(raw, off4).
             Inr (SInt (if sign = 1 then - int (of_be raw) else int (of_be raw)), off4))))
         else if tag = 4 then
           rbind (take_bytes data off1 8) (\<lambda>(raw, off2).
           let w = of_nat (of_be raw) in
           if \<not> float_finite w then Inl (ValueError ''non-finite float in spatial memory'')
           else Inr (SFloat w, off2))
         else if tag = 5 \<or> tag = 6 then
           rbind (read_u32 data off1) (\<lambda>(n, off2).
           rbind (take_bytes data off2 n) (\<lambda>(raw, off3).
           if tag = 6 then Inr (SBytes raw, off3)
           else (case utf8_decode raw of
                   None \<Rightarrow> Inl (ValueError ''invalid UTF-8 spatial string'')
                 | Some s \<Rightarrow> Inr (SStr s, off3))))
         else if tag = 7 then
           rbind (read_u32 data off1) (\<lambda>(n, off2).
           rbind (decode_items n data off2) (\<lambda>(xs, off3). Inr (SList xs, off3)))
         else if tag = 8 then
           rbind (read_u32 data off1) (\<lambda>(n, off2).
           rbind (decode_pairs n None data off2) (\<lambda>(kvs, off3). Inr (SDict kvs, off3)))
         else Inl (ValueError ''unknown spatial value tag'')))"
| "decode_items 0 data off = Inr ([], off)"
| "decode_items (Suc n) data off =
     rbind (read_u32 data off) (\<lambda>(len, off1).
     rbind (take_bytes data off1 len) (\<lambda>(raw, off2).
     rbind (decode_value raw 0) (\<lambda>(x, consumed).
     if consumed \<noteq> length raw then Inl (ValueError ''trailing bytes in list item'')
     else rbind (decode_items n data off2) (\<lambda>(xs, off3). Inr (x # xs, off3)))))"
| "decode_pairs 0 prev data off = Inr ([], off)"
| "decode_pairs (Suc n) prev data off =
     rbind (read_u16 data off) (\<lambda>(klen, off1).
     rbind (take_bytes data off1 klen) (\<lambda>(kraw, off2).
     (case utf8_decode kraw of
        None \<Rightarrow> Inl (ValueError ''invalid UTF-8 spatial key'')
      | Some key \<Rightarrow>
          if (case prev of None \<Rightarrow> False | Some p \<Rightarrow> key \<le> p)
          then Inl (ValueError ''spatial dictionary keys are not canonical'')
          else
            rbind (read_u32 data off2) (\<lambda>(len, off3).
            rbind (take_bytes data off3 len) (\<lambda>(raw, off4).
            rbind (decode_value raw 0) (\<lambda>(v, consumed).
            if consumed \<noteq> length raw then Inl (ValueError ''trailing bytes in dictionary value'')
            else rbind (decode_pairs n (Some key) data off4) (\<lambda>(kvs, off5). Inr ((key, v) # kvs, off5))))))))"
  by pat_completeness auto
termination
  by (relation "inv_image (less_than <*lex*> less_than <*lex*> less_than)
        (case_sum (\<lambda>(d, _). (length d, 1, 0)) (case_sum (\<lambda>(n, d, _). (length d, 0, n)) (\<lambda>(n, _, d, _). (length d, 0, n))))")
    (auto intro: block_shorter)

declare decode_value.simps [simp del]

section \<open>Canonical values\<close>

text \<open>Keys of every dictionary are distinct.\<close>

fun sval_ok :: "sval \<Rightarrow> bool" where
  "sval_ok (SList xs) = list_all sval_ok xs"
| "sval_ok (SDict kvs) = (distinct (map fst kvs) \<and> list_all (\<lambda>p. sval_ok (snd p)) kvs)"
| "sval_ok _ = True"

lemma sval_size_entry: "p \<in> set kvs \<Longrightarrow> size (snd p) < Suc (size_list (size_prod (\<lambda>_. 0) size) kvs)"
  by (induction kvs) auto

text \<open>The same value with the keys of all dictionaries in order; equal to it as a Python value.\<close>

function (sequential) canon :: "sval \<Rightarrow> sval" where
  "canon (SList xs) = SList (map canon xs)"
| "canon (SDict kvs) = SDict (map (\<lambda>p. (fst p, canon (snd p))) (sort_key fst kvs))"
| "canon v = v"
  by pat_completeness auto

termination
proof (relation "measure size", goal_cases)
  case (3 kvs p)
  then show ?case using sval_size_entry [of p kvs] by simp
qed (auto simp: less_Suc_eq_le size_list_estimation')

section \<open>Reading what was written\<close>

definition bytes_at :: "bytes \<Rightarrow> nat \<Rightarrow> bytes \<Rightarrow> bool" where
  "bytes_at data off xs \<longleftrightarrow> off + length xs \<le> length data \<and> slice off (length xs) data = xs"

lemma bytes_at_self [simp]: "bytes_at data 0 data"
  by (simp add: bytes_at_def slice_def)

lemma bytes_at_Nil [simp]: "bytes_at data off [] \<longleftrightarrow> off \<le> length data"
  by (simp add: bytes_at_def slice_def)

lemma bytes_at_append: "bytes_at data off (xs @ ys) \<longleftrightarrow> bytes_at data off xs \<and> bytes_at data (off + length xs) ys"
proof -
  have "take (m + n) (drop off data) = take m (drop off data) @ take n (drop (off + m) data)" for m n
    by (simp add: take_add add.commute)
  then show ?thesis
    by (auto simp: bytes_at_def slice_def append_eq_append_conv)
qed

lemma bytes_at_Cons: "bytes_at data off (x # ys) \<longleftrightarrow> off < length data \<and> data ! off = x \<and> bytes_at data (off + 1) ys"
proof -
  have "bytes_at data off [x] \<longleftrightarrow> off < length data \<and> data ! off = x"
    by (auto simp: bytes_at_def slice_def take_Suc hd_drop_conv_nth)
  with bytes_at_append [of data off "[x]" ys] show ?thesis by simp
qed

lemma length_u16: "u16 n = Inr l \<Longrightarrow> length l = 2" and length_u32: "u32 n = Inr l \<Longrightarrow> length l = 4"
  by (auto simp: u16_def u32_def split: if_splits)

lemma read_u16_at: "u16 n = Inr l \<Longrightarrow> bytes_at data off l \<Longrightarrow> read_u16 data off = Inr (n, off + 2)"
  by (auto simp: u16_def read_u16_def bytes_at_def split: if_splits)

lemma read_u32_at: "u32 n = Inr l \<Longrightarrow> bytes_at data off l \<Longrightarrow> read_u32 data off = Inr (n, off + 4)"
  by (auto simp: u32_def read_u32_def bytes_at_def split: if_splits)

lemma take_bytes_at: "bytes_at data off raw \<Longrightarrow> take_bytes data off (length raw) = Inr (raw, off + length raw)"
  by (simp add: bytes_at_def take_bytes_def)

lemma block32_at:
  assumes "block32 raw = Inr b" "bytes_at data off b"
  shows "read_u32 data off = Inr (length raw, off + 4)"
    "take_bytes data (off + 4) (length raw) = Inr (raw, off + length b)"
proof -
  obtain l where l: "u32 (length raw) = Inr l" "b = l @ raw" using assms(1) by (auto simp: block32_def)
  note len = length_u32 [OF l(1)]
  have "bytes_at data off l" "bytes_at data (off + 4) raw" using assms(2) by (simp_all add: l(2) bytes_at_append len)
  with read_u32_at [OF l(1)] take_bytes_at show "read_u32 data off = Inr (length raw, off + 4)"
    "take_bytes data (off + 4) (length raw) = Inr (raw, off + length b)" by (auto simp: l(2) len)
qed

lemma bit_length_bound: "n < 2 ^ bit_length n"
proof (induction n rule: bit_length.induct)
  case (1 n)
  then show ?case by (subst bit_length.simps) auto
qed

lemma of_be_int_bytes: "of_be (int_bytes n) = n"
proof -
  have "bit_length n \<le> 8 * ((bit_length n + 7) div 8)" by linarith
  then have "(2 :: nat) ^ bit_length n \<le> 2 ^ (8 * ((bit_length n + 7) div 8))" by (intro power_increasing) auto
  also have "\<dots> = 256 ^ ((bit_length n + 7) div 8)" by (simp add: power_mult)
  finally have "n < 256 ^ ((bit_length n + 7) div 8)" using bit_length_bound [of n] by linarith
  then show ?thesis by (simp add: int_bytes_def)
qed

lemma decode_int:
  assumes "encode_int i = Inr bs" "bytes_at data off bs"
  shows "decode_value data off = Inr (SInt i, off + length bs)"
proof -
  let ?raw = "int_bytes (nat \<bar>i\<bar>)"
  let ?s = "if i < 0 then 1 else 0 :: byte"
  obtain l where l: "u16 (length ?raw) = Inr l" "bs = [3, ?s] @ l @ ?raw" using assms(1) by (auto simp: encode_int_def Let_def)
  note len = length_u16 [OF l(1)]
  have at: "off < length data" "data ! off = 3" "bytes_at data (off + 1) [?s]" "bytes_at data (off + 2) l" "bytes_at data (off + 4) ?raw"
    using assms(2) unfolding l(2) by (simp_all add: bytes_at_append bytes_at_Cons len numeral_eq_Suc)
  have "take_bytes data (off + 1) 1 = Inr ([?s], off + 2)" using take_bytes_at [OF at(3)] by simp
  moreover have "read_u16 data (off + 2) = Inr (length ?raw, off + 4)" using read_u16_at [OF l(1) at(4)] by simp
  moreover have "take_bytes data (off + 4) (length ?raw) = Inr (?raw, off + length bs)"
    using take_bytes_at [OF at(5)] by (simp add: l(2) len)
  ultimately show ?thesis
    using at(1,2) by (simp add: decode_value.simps of_be_int_bytes Let_def)
qed

lemma decode_float:
  assumes "float_finite w" "bytes_at data off (4 # be_bytes 8 (unat w))"
  shows "decode_value data off = Inr (SFloat w, off + 9)"
proof -
  have at: "off < length data" "data ! off = 4" "bytes_at data (off + 1) (be_bytes 8 (unat w))"
    using assms(2) by (simp_all add: bytes_at_Cons)
  have "take_bytes data (off + 1) 8 = Inr (be_bytes 8 (unat w), off + 9)" using take_bytes_at [OF at(3)] by simp
  moreover have "unat w < 256 ^ 8" using unsigned_less [of w, where ?'a = nat] by simp
  then have "of_nat (of_be (be_bytes 8 (unat w))) = w" by (simp only: of_be_be_bytes) simp
  ultimately show ?thesis using at(1,2) assms(1) by (simp add: decode_value.simps Let_def)
qed

lemma decode_block:
  assumes "block32 raw = Inr b" "bytes_at data off (t # b)" "t = 5 \<or> t = 6"
  shows "decode_value data off =
    (if t = 6 then Inr (SBytes raw, off + Suc (length b))
     else case utf8_decode raw of None \<Rightarrow> Inl (ValueError ''invalid UTF-8 spatial string'')
          | Some s \<Rightarrow> Inr (SStr s, off + Suc (length b)))"
proof -
  have at: "off < length data" "data ! off = t" "bytes_at data (off + 1) b" using assms(2) by (simp_all add: bytes_at_Cons)
  note rd = block32_at [OF assms(1) at(3)]
  from assms(3) show ?thesis
  proof
    assume "t = 5"
    with at(1,2) rd show ?thesis by (simp add: decode_value.simps Let_def split: option.splits)
  next
    assume "t = 6"
    with at(1,2) rd show ?thesis by (simp add: decode_value.simps Let_def)
  qed
qed

lemma encode_list_length: "encode_list xs = Inr es \<Longrightarrow> length es = length xs"
  by (induction xs arbitrary: es) auto

abbreviation canon_entry :: "ustr \<times> sval \<Rightarrow> ustr \<times> sval" where
  "canon_entry p \<equiv> (fst p, canon (snd p))"

lemma decode_items_step:
  assumes "block32 e = Inr b" "bytes_at data off b" "decode_value e 0 = Inr (x, length e)"
  shows "decode_items (Suc n) data off =
    rbind (decode_items n data (off + length b)) (\<lambda>(xs, off3). Inr (x # xs, off3))"
  using block32_at [OF assms(1,2)] assms(3) by simp

lemma decode_pairs_step:
  assumes "u16 (length key) = Inr kl" "utf8_decode key = Some k" "block32 e = Inr b"
    "bytes_at data off (kl @ key @ b)" "decode_value e 0 = Inr (v, length e)" "\<forall>p. prev = Some p \<longrightarrow> p < k"
  shows "decode_pairs (Suc n) prev data off =
    rbind (decode_pairs n (Some k) data (off + length (kl @ key @ b))) (\<lambda>(kvs, off5). Inr ((k, v) # kvs, off5))"
proof -
  note len = length_u16 [OF assms(1)]
  have at: "bytes_at data off kl" "bytes_at data (off + 2) key" "bytes_at data (off + 2 + length key) b"
    using assms(4) by (simp_all add: bytes_at_append len add.assoc)
  have "\<not> (case prev of None \<Rightarrow> False | Some p \<Rightarrow> k \<le> p)" using assms(6) by (auto split: option.splits)
  then show ?thesis
    using read_u16_at [OF assms(1) at(1)] take_bytes_at [OF at(2)] block32_at [OF assms(3) at(3)] assms(2,5)
    by (simp add: len add.assoc)
qed

lemma strict_sorted_keys: "distinct (map fst kvs) \<Longrightarrow> sorted_wrt (<) (map fst (sort_key fst kvs))"
proof -
  assume "distinct (map fst kvs)"
  then have "distinct (map fst (sort_key fst kvs))" by (metis distinct_map distinct_sort set_sort)
  then show ?thesis by (simp add: strict_sorted_iff)
qed

lemma codec_roundtrip:
  "encode_value v = Inr bs \<Longrightarrow> sval_ok v \<Longrightarrow> bytes_at data off bs \<Longrightarrow> decode_value data off = Inr (canon v, off + length bs)"
  "encode_list xs = Inr es \<Longrightarrow> list_all sval_ok xs \<Longrightarrow> blocks32 es = Inr body \<Longrightarrow> bytes_at data off body \<Longrightarrow>
     decode_items (length xs) data off = Inr (map canon xs, off + length body)"
  "encode_entries kvs = Inr body' \<Longrightarrow> list_all (\<lambda>p. sval_ok (snd p)) kvs \<Longrightarrow> sorted_wrt (<) (map fst kvs) \<Longrightarrow>
     \<forall>p. prev = Some p \<longrightarrow> (\<forall>k \<in> fst ` set kvs. p < k) \<Longrightarrow> bytes_at data off body' \<Longrightarrow>
     decode_pairs (length kvs) prev data off = Inr (map canon_entry kvs, off + length body')"
proof (induction v and xs and kvs arbitrary: bs data off and es body data off and body' prev data off
    rule: encode_value_encode_list_encode_entries.induct)
  case 1
  then have "bs = [0]" by simp
  with 1 show ?case by (simp add: bytes_at_Cons decode_value.simps)
next
  case (2 b)
  then have "bs = [if b then 2 else 1]" by simp
  with 2 show ?case by (cases b) (simp_all add: bytes_at_Cons decode_value.simps)
next
  case (3 i)
  then show ?case using decode_int by simp
next
  case (4 w)
  then show ?case using decode_float by (auto split: if_splits)
next
  case (5 s)
  then show ?case by (auto simp: decode_block utf8_roundtrip)
next
  case (6 raw)
  then show ?case by (auto simp: decode_block)
next
  case (7 xs)
  then obtain es n body where e: "encode_list xs = Inr es" "u32 (length es) = Inr n" "blocks32 es = Inr body" "bs = 7 # n @ body"
    by auto
  note len = length_u32 [OF e(2)]
  have at: "off < length data" "data ! off = 7" "bytes_at data (off + 1) n" "bytes_at data (off + 5) body"
    using 7(4) unfolding e(4) by (simp_all add: bytes_at_append bytes_at_Cons len add.commute)
  have "decode_items (length xs) data (off + 5) = Inr (map canon xs, off + 5 + length body)"
    using 7(1) [OF e(1) _ e(3) at(4)] 7(3) by simp
  with at(1,2) read_u32_at [OF e(2) at(3)] show ?case
    by (simp add: decode_value.simps Let_def encode_list_length [OF e(1)] e(4) len add.commute [of 5] add.assoc)
next
  case (8 kvs)
  then obtain n body where e: "u32 (length kvs) = Inr n" "encode_entries (sort_key fst kvs) = Inr body" "bs = 8 # n @ body"
    by auto
  note len = length_u32 [OF e(1)]
  have at: "off < length data" "data ! off = 8" "bytes_at data (off + 1) n" "bytes_at data (off + 5) body"
    using 8(4) unfolding e(3) by (simp_all add: bytes_at_append bytes_at_Cons len add.commute)
  have "list_all (\<lambda>p. sval_ok (snd p)) (sort_key fst kvs)" using 8(3) by (simp add: list_all_iff)
  moreover have "sorted_wrt (<) (map fst (sort_key fst kvs))" using 8(3) by (intro strict_sorted_keys) simp
  ultimately have "decode_pairs (length kvs) None data (off + 5) = Inr (map canon_entry (sort_key fst kvs), off + 5 + length body)"
    using 8(1) [OF e(1) e(2) _ _ _ at(4), of None] by simp
  with at(1,2) read_u32_at [OF e(1) at(3)] show ?case
    by (simp add: decode_value.simps Let_def e(3) len add.commute [of 5] add.assoc)
next
  case 9
  then show ?case by simp
next
  case (10 x xs)
  then obtain e es' b body' where e: "encode_value x = Inr e" "encode_list xs = Inr es'" "es = e # es'"
    "block32 e = Inr b" "blocks32 es' = Inr body'" "body = b @ body'" by auto
  have at: "bytes_at data off b" "bytes_at data (off + length b) body'" using 10(6) by (simp_all add: e(6) bytes_at_append)
  have "decode_value e 0 = Inr (canon x, length e)" using 10(1) [OF e(1) _ bytes_at_self] 10(4) by simp
  moreover have "decode_items (length xs) data (off + length b) = Inr (map canon xs, off + length b + length body')"
    using 10(2) [OF e(1) e(2) _ e(5) at(2)] 10(4) by simp
  ultimately show ?case using decode_items_step [OF e(4) at(1)] by (simp add: e(6) del: decode_items.simps)
next
  case 11
  then show ?case by simp
next
  case (12 k v rest)
  then obtain key e kl b body where e: "utf8_encode k = Inr key" "encode_value v = Inr e" "u16 (length key) = Inr kl"
    "block32 e = Inr b" "encode_entries rest = Inr body" "body' = (kl @ key @ b) @ body" by auto
  have at: "bytes_at data off (kl @ key @ b)" "bytes_at data (off + length (kl @ key @ b)) body"
    using 12(7) unfolding e(6) bytes_at_append by simp_all
  have v: "decode_value e 0 = Inr (canon v, length e)" using 12(1) [OF e(1) e(2) _ bytes_at_self] 12(4) by simp
  have "\<forall>p. prev = Some p \<longrightarrow> p < k" using 12(6) by auto
  note step = decode_pairs_step [OF e(3) utf8_roundtrip [OF e(1)] e(4) at(1) v this]
  have "decode_pairs (length rest) (Some k) data (off + length (kl @ key @ b)) =
      Inr (map canon_entry rest, off + length (kl @ key @ b) + length body)"
    using 12(2) [OF e(1) e(2) e(3) e(4) e(5) _ _ _ at(2), of "Some k"] 12(4,5) by simp
  then show ?case using step by (simp add: e(6) del: decode_pairs.simps)
qed

end
