(* ===== verification/Spatial_Store.thy ===== *)
theory Spatial_Store
  imports Spatial_Codec Spatial_Frame
begin

text \<open>
  The spatial PNG memory, \<open>SpatialPixelStore\<close> of \<^verbatim>\<open>zdx_pixel_memory/spatial_store.py\<close>: one dictionary kept
  in a region of a frame file behind a checksummed header, with a generation number, a backup of the
  previous generation and quarantine of damaged files, on top of \<open>atomic_write_bytes\<close> of
  \<^verbatim>\<open>zdx_storage.py\<close>. A file is its bytes; PNG encoding and decoding (Pillow) and SHA-256 are the fields
  of \<^verbatim>\<open>png_env\<close>, and what is relied on is stated as \<^verbatim>\<open>png_lossless\<close>. The file lock makes each operation
  one step; crashes inside a commit are not modelled. Quarantined files are a list, the last one the newest
  (the code names them by the second, so a second one within the same second replaces the first).

  The lemmas show that reading returns what was written, that a write touches neither the execution
  rows nor other regions, the effect of every operation as a dictionary with a generation counter,
  and recovery from a damaged file.
\<close>

section \<open>Document header\<close>

definition MAGIC :: bytes where "MAGIC = [90, 68, 88, 83, 80, 77, 49, 0]"
definition VERSION :: byte where "VERSION = 1"
definition HEADER_SIZE :: nat where "HEADER_SIZE = 64"

record png_env =
  e_sha :: "bytes \<Rightarrow> bytes"
  e_encode :: "raster \<Rightarrow> bytes"
  e_decode :: "bytes \<Rightarrow> image option"

text \<open>\<open>struct.pack(">8sBBHQI32sII", \<dots>)\<close>; a field of type \<open>32s\<close> is cut or filled with zeros.\<close>

definition header_pack :: "nat \<Rightarrow> nat \<Rightarrow> bytes \<Rightarrow> nat \<Rightarrow> bytes result" where
  "header_pack generation plen digest cnt =
     (if generation \<ge> 2 ^ 64 \<or> plen \<ge> 2 ^ 32 \<or> cnt \<ge> 2 ^ 32 then Inl (StructError ''argument out of range'')
      else Inr (MAGIC @ [VERSION] @ [0] @ be_bytes 2 0 @ be_bytes 8 generation @ be_bytes 4 plen @
                take 32 (digest @ replicate 32 0) @ be_bytes 4 cnt @ be_bytes 4 0))"

record store =
  sp_layout :: layout
  sp_region :: "string option"
  sp_primary :: "bytes option"
  sp_backup :: "bytes option"
  sp_quarantine :: "bytes list"

type_synonym mem_values = "(ustr, sval) dict"

definition capacity_bytes :: "store \<Rightarrow> int result" where
  "capacity_bytes st = rbind (layout_region (sp_layout st) (sp_region st)) (\<lambda>r. Inr (region_capacity_bytes r))"

definition estimate_value_size :: "sval \<Rightarrow> nat result" where
  "estimate_value_size v = rbind (encode_value v) (\<lambda>bs. Inr (length bs))"

definition estimate_document_size :: "mem_values \<Rightarrow> nat result" where
  "estimate_document_size vs = rbind (encode_value (SDict vs)) (\<lambda>bs. Inr (HEADER_SIZE + length bs))"

definition can_fit_document :: "mem_values \<Rightarrow> store \<Rightarrow> bool result" where
  "can_fit_document vs st =
     rbind (estimate_document_size vs) (\<lambda>n. rbind (capacity_bytes st) (\<lambda>c. Inr (int n \<le> c)))"

definition encode_document :: "png_env \<Rightarrow> mem_values \<Rightarrow> nat \<Rightarrow> store \<Rightarrow> bytes result" where
  "encode_document env vs generation st =
     rbind (encode_value (SDict vs)) (\<lambda>payload.
     rbind (capacity_bytes st) (\<lambda>cap.
     if int (HEADER_SIZE + length payload) > cap
     then Inl (ValueError ''spatial memory payload exceeds region capacity'')
     else
       rbind (header_pack generation (length payload) (e_sha env payload) (length vs)) (\<lambda>header.
       Inr (header @ payload))))"

definition decode_document :: "png_env \<Rightarrow> store \<Rightarrow> frame \<Rightarrow> (mem_values \<times> nat) result" where
  "decode_document env st f =
     rbind (read_bytes (int HEADER_SIZE) (sp_region st) 0 f) (\<lambda>header.
     if header = replicate HEADER_SIZE 0 then Inr ([], 0)
     else
       (let generation = of_be (slice 12 8 header);
            plen = of_be (slice 20 4 header);
            digest = slice 24 32 header;
            cnt = of_be (slice 56 4 header)
        in
        if slice 0 8 header \<noteq> MAGIC \<or> slice 8 1 header \<noteq> [VERSION] \<or> slice 9 1 header \<noteq> [0] \<or>
           of_be (slice 10 2 header) \<noteq> 0 \<or> of_be (slice 60 4 header) \<noteq> 0
        then Inl (CorruptStateError ''unsupported or corrupt spatial memory header'')
        else
          rbind (capacity_bytes st) (\<lambda>cap.
          if int plen > cap - int HEADER_SIZE
          then Inl (CorruptStateError ''spatial memory payload length exceeds region'')
          else
            rbind (read_bytes (int plen) (sp_region st) (int HEADER_SIZE) f) (\<lambda>payload.
            if e_sha env payload \<noteq> digest then Inl (CorruptStateError ''spatial memory checksum mismatch'')
            else
              (case decode_value payload 0 of
                 Inl e \<Rightarrow> Inl (CorruptStateError ''spatial memory payload is malformed'')
               | Inr (v, consumed) \<Rightarrow>
                   (case v of
                      SDict vs \<Rightarrow>
                        if consumed \<noteq> length payload
                        then Inl (CorruptStateError ''spatial memory root must be one canonical dictionary'')
                        else if length vs \<noteq> cnt
                        then Inl (CorruptStateError ''spatial memory record count mismatch'')
                        else Inr (vs, generation)
                    | _ \<Rightarrow> Inl (CorruptStateError ''spatial memory root must be one canonical dictionary'')))))))"

section \<open>Files\<close>

definition open_frame :: "png_env \<Rightarrow> bytes option \<Rightarrow> store \<Rightarrow> frame result" where
  "open_frame env file st = frame_open (\<lambda>_. Option.bind file (e_decode env)) [] (sp_layout st)"

definition to_png_bytes :: "png_env \<Rightarrow> frame \<Rightarrow> bytes" where
  "to_png_bytes env f = e_encode env (f_image f)"

definition atomic_write_bytes :: "bool \<Rightarrow> bytes \<Rightarrow> store \<Rightarrow> store" where
  "atomic_write_bytes keep_backup payload st =
     st\<lparr>sp_backup := (if sp_primary st \<noteq> None \<and> keep_backup then sp_primary st else sp_backup st),
        sp_primary := Some payload\<rparr>"

definition execution_plane_matches :: "png_env \<Rightarrow> frame \<Rightarrow> frame \<Rightarrow> store \<Rightarrow> bool result" where
  "execution_plane_matches env primary backup st =
     (if execution_rows (sp_layout st) = 0 then Inr True
      else
        (let len = region_capacity_bytes (execution_region (sp_layout st)) in
         rbind (read_bytes len (Some ''execution'') 0 primary) (\<lambda>a.
         rbind (read_bytes len (Some ''execution'') 0 backup) (\<lambda>b.
         Inr (e_sha env a = e_sha env b)))))"

definition try_backup :: "png_env \<Rightarrow> frame option \<Rightarrow> store \<Rightarrow> (frame \<times> mem_values \<times> nat) option" where
  "try_backup env primary st =
     (case sp_backup st of
        None \<Rightarrow> None
      | Some raw \<Rightarrow>
          (case rbind (open_frame env (Some raw) st) (\<lambda>bf.
                rbind (decode_document env st bf) (\<lambda>(vs, g).
                rbind (case primary of None \<Rightarrow> Inr False | Some pf \<Rightarrow> execution_plane_matches env pf bf st) (\<lambda>same.
                if same \<or> execution_rows (sp_layout st) = 0 then Inr (Some (bf, vs, g)) else Inr None))) of
             Inl e \<Rightarrow> None
           | Inr r \<Rightarrow> r))"

definition read_frame :: "png_env \<Rightarrow> store \<Rightarrow> (frame \<times> mem_values \<times> nat) result \<times> store" where
  "read_frame env st =
     (let primary = open_frame env (sp_primary st) st in
      case rbind primary (\<lambda>f. rbind (decode_document env st f) (\<lambda>(vs, g). Inr (f, vs, g))) of
        Inr r \<Rightarrow> (Inr r, st)
      | Inl e \<Rightarrow>
          (let recovered = try_backup env (case primary of Inl e \<Rightarrow> None | Inr f \<Rightarrow> Some f) st;
               st1 = (case sp_primary st of
                        None \<Rightarrow> st
                      | Some raw \<Rightarrow> st\<lparr>sp_primary := None, sp_quarantine := sp_quarantine st @ [raw]\<rparr>)
           in case recovered of
                Some (bf, vs, g) \<Rightarrow> (Inr (bf, vs, g), atomic_write_bytes False (to_png_bytes env bf) st1)
              | None \<Rightarrow> (Inl (CorruptStateError ''corrupt spatial memory quarantined''), st1)))"

definition write_frame :: "png_env \<Rightarrow> mem_values \<Rightarrow> nat \<Rightarrow> store \<Rightarrow> frame \<Rightarrow> frame result" where
  "write_frame env vs generation st f =
     rbind (encode_document env vs (generation + 1) st) (\<lambda>document.
     rbind (capacity_bytes st) (\<lambda>cap.
     rbind (write_bytes (replicate (nat cap) 0) (sp_region st) 0 f) (\<lambda>f1.
     write_bytes document (sp_region st) 0 f1)))"

definition write_unlocked :: "png_env \<Rightarrow> mem_values \<Rightarrow> nat option \<Rightarrow> store \<Rightarrow> unit result \<times> store" where
  "write_unlocked env vs generation st =
     (let start =
        (if sp_primary st \<noteq> None
         then rbind (open_frame env (sp_primary st) st) (\<lambda>f.
              Inr (f, case generation of
                        Some g \<Rightarrow> g
                      | None \<Rightarrow> (case decode_document env st f of Inl e \<Rightarrow> 0 | Inr (_, g) \<Rightarrow> g)))
         else rbind (frame_blank (sp_layout st)) (\<lambda>f. Inr (f, case generation of None \<Rightarrow> 0 | Some g \<Rightarrow> g)))
      in case rbind start (\<lambda>(f, g). write_frame env vs g st f) of
           Inl e \<Rightarrow> (Inl e, st)
         | Inr f \<Rightarrow> (Inr (), atomic_write_bytes True (to_png_bytes env f) st))"

section \<open>Operations\<close>

definition store_init :: "png_env \<Rightarrow> layout \<Rightarrow> string option \<Rightarrow> bytes option \<Rightarrow> bytes option \<Rightarrow> store result" where
  "store_init env L region primary backup =
     (let st = \<lparr>sp_layout = L, sp_region = region, sp_primary = primary, sp_backup = backup, sp_quarantine = []\<rparr> in
      rbind (capacity_bytes st) (\<lambda>cap.
      if cap \<le> int HEADER_SIZE then Inl (ValueError ''spatial memory region is too small for its header'')
      else if primary \<noteq> None then Inr st
      else (case write_unlocked env [] None st of (Inl e, _) \<Rightarrow> Inl e | (Inr _, st') \<Rightarrow> Inr st')))"

text \<open>The operations that change values read them, change them and write the next generation.\<close>

definition modify :: "png_env \<Rightarrow> (mem_values \<Rightarrow> mem_values) \<Rightarrow> store \<Rightarrow> unit result \<times> store" where
  "modify env h st =
     (case read_frame env st of
        (Inl e, st1) \<Rightarrow> (Inl e, st1)
      | (Inr (f, vs, g), st1) \<Rightarrow> write_unlocked env (h vs) (Some g) st1)"

definition store_write :: "png_env \<Rightarrow> ustr \<Rightarrow> sval \<Rightarrow> store \<Rightarrow> unit result \<times> store" where
  "store_write env key v st =
     (if key = [] then (Inl (ValueError ''spatial memory key must be a non-empty string''), st)
      else modify env (\<lambda>vs. dset key v vs) st)"

definition store_update :: "png_env \<Rightarrow> mem_values \<Rightarrow> store \<Rightarrow> unit result \<times> store" where
  "store_update env d st =
     (if list_ex (\<lambda>p. fst p = []) d then (Inl (ValueError ''spatial memory key must be a non-empty string''), st)
      else modify env (\<lambda>vs. fold (\<lambda>(k, v) acc. dset k v acc) d vs) st)"

definition store_all :: "png_env \<Rightarrow> store \<Rightarrow> mem_values result \<times> store" where
  "store_all env st = (case read_frame env st of
     (Inl e, st1) \<Rightarrow> (Inl e, st1) | (Inr (f, vs, g), st1) \<Rightarrow> (Inr vs, st1))"

definition store_read :: "png_env \<Rightarrow> ustr \<Rightarrow> sval \<Rightarrow> store \<Rightarrow> sval result \<times> store" where
  "store_read env key dflt st = (case read_frame env st of
     (Inl e, st1) \<Rightarrow> (Inl e, st1)
   | (Inr (f, vs, g), st1) \<Rightarrow> (Inr (case dget vs key of None \<Rightarrow> dflt | Some v \<Rightarrow> v), st1))"

definition store_delete :: "png_env \<Rightarrow> ustr \<Rightarrow> store \<Rightarrow> bool result \<times> store" where
  "store_delete env key st =
     (case read_frame env st of
        (Inl e, st1) \<Rightarrow> (Inl e, st1)
      | (Inr (f, vs, g), st1) \<Rightarrow>
          if key \<notin> dkeys vs then (Inr False, st1)
          else (case write_unlocked env (ddel key vs) (Some g) st1 of
                  (Inl e, st2) \<Rightarrow> (Inl e, st2) | (Inr _, st2) \<Rightarrow> (Inr True, st2)))"

definition store_exists :: "png_env \<Rightarrow> ustr \<Rightarrow> store \<Rightarrow> bool result \<times> store" where
  "store_exists env key st = (case read_frame env st of
     (Inl e, st1) \<Rightarrow> (Inl e, st1) | (Inr (f, vs, g), st1) \<Rightarrow> (Inr (key \<in> dkeys vs), st1))"

definition store_keys :: "png_env \<Rightarrow> store \<Rightarrow> ustr list result \<times> store" where
  "store_keys env st = (case read_frame env st of
     (Inl e, st1) \<Rightarrow> (Inl e, st1) | (Inr (f, vs, g), st1) \<Rightarrow> (Inr (sort (map fst vs)), st1))"

definition store_clear :: "png_env \<Rightarrow> store \<Rightarrow> unit result \<times> store" where
  "store_clear env st = modify env (\<lambda>vs. []) st"

definition store_generation :: "png_env \<Rightarrow> store \<Rightarrow> nat result \<times> store" where
  "store_generation env st = (case read_frame env st of
     (Inl e, st1) \<Rightarrow> (Inl e, st1) | (Inr (f, vs, g), st1) \<Rightarrow> (Inr g, st1))"

definition load_resident_snapshot :: "png_env \<Rightarrow> store \<Rightarrow> (frame \<times> mem_values \<times> nat \<times> string) result \<times> store" where
  "load_resident_snapshot env st =
     (case read_frame env st of
        (Inl e, st1) \<Rightarrow> (Inl e, st1)
      | (Inr (f, vs, g), st1) \<Rightarrow>
          (case sp_primary st1 of
             None \<Rightarrow> (Inl (FileNotFoundError ''spatial memory file''), st1)
           | Some raw \<Rightarrow> (Inr (f, vs, g, hexdigest (e_sha env raw)), st1)))"

record commit_receipt =
  cr_vm_generation :: nat
  cr_vm_checkpoint_hash :: string
  cr_artifact_sha256 :: string

definition commit_snapshot ::
    "png_env \<Rightarrow> frame \<Rightarrow> mem_values \<Rightarrow> nat \<Rightarrow> string \<Rightarrow> string option \<Rightarrow> store \<Rightarrow> commit_receipt result \<times> store" where
  "commit_snapshot env f vs vm_generation vm_checkpoint expected st =
     (case (case expected of
              None \<Rightarrow> Inr ()
            | Some h \<Rightarrow>
                (case sp_primary st of
                   None \<Rightarrow> Inl (FileNotFoundError ''spatial memory file'')
                 | Some raw \<Rightarrow> raise_if (hexdigest (e_sha env raw) \<noteq> h)
                     (RuntimeError ''spatial checkpoint parent artifact changed concurrently''))) of
        Inl e \<Rightarrow> (Inl e, st)
      | Inr _ \<Rightarrow>
          (let current = (case rbind (open_frame env (sp_primary st) st) (decode_document env st) of
                            Inl e \<Rightarrow> 0 | Inr (_, g) \<Rightarrow> g)
           in case write_frame env vs current st f of
                Inl e \<Rightarrow> (Inl e, st)
              | Inr f' \<Rightarrow>
                  (let payload = to_png_bytes env f'
                   in (Inr \<lparr>cr_vm_generation = vm_generation, cr_vm_checkpoint_hash = vm_checkpoint,
                            cr_artifact_sha256 = hexdigest (e_sha env payload)\<rparr>,
                       atomic_write_bytes True payload st))))"

text \<open>\<open>mutator\<close> returns its result with the frame and values it leaves; an exception it raises commits nothing.\<close>

definition transaction_frame ::
    "png_env \<Rightarrow> (frame \<Rightarrow> mem_values \<Rightarrow> ('r \<times> frame \<times> mem_values) result) \<Rightarrow> store \<Rightarrow> 'r result \<times> store" where
  "transaction_frame env mutator st =
     (case read_frame env st of
        (Inl e, st1) \<Rightarrow> (Inl e, st1)
      | (Inr (f, vs, g), st1) \<Rightarrow>
          (case mutator f vs of
             Inl e \<Rightarrow> (Inl e, st1)
           | Inr (res, f', vs') \<Rightarrow>
               (case write_frame env vs' g st1 f' of
                  Inl e \<Rightarrow> (Inl e, st1)
                | Inr f'' \<Rightarrow> (Inr res, atomic_write_bytes True (to_png_bytes env f'') st1))))"

section \<open>Documents in a frame\<close>

text \<open>What is relied on of the PNG library for frames of the given layout: encoding an RGB raster and
  decoding it again gives that raster, as a PNG image in mode RGB.\<close>

definition png_lossless :: "png_env \<Rightarrow> layout \<Rightarrow> bool" where
  "png_lossless env L \<longleftrightarrow> (\<forall>r. raster_ok r \<and> size_matches r L \<longrightarrow>
     e_decode env (e_encode env r) = Some \<lparr>im_format = ''PNG'', im_mode = ''RGB'', im_raster = r\<rparr>)"

text \<open>SHA-256 digests have 32 bytes.\<close>

definition sha_ok :: "png_env \<Rightarrow> bool" where
  "sha_ok env \<longleftrightarrow> (\<forall>b. length (e_sha env b) = 32)"

lemma header_layout:
  assumes "header_pack g plen digest cnt = Inr h" "length digest = 32"
  shows "length h = 64" "slice 0 8 h = MAGIC" "slice 8 1 h = [VERSION]" "slice 9 1 h = [0]" "of_be (slice 10 2 h) = 0"
    "of_be (slice 12 8 h) = g" "of_be (slice 20 4 h) = plen" "slice 24 32 h = digest" "of_be (slice 56 4 h) = cnt"
    "of_be (slice 60 4 h) = 0"
proof -
  let ?z2 = "be_bytes 2 0" and ?g = "be_bytes 8 g" and ?p = "be_bytes 4 plen" and ?c = "be_bytes 4 cnt" and ?z4 = "be_bytes 4 0"
  have h: "h = MAGIC @ [VERSION] @ [0] @ ?z2 @ ?g @ ?p @ digest @ ?c @ ?z4"
    and b: "g < 2 ^ 64" "plen < 2 ^ 32" "cnt < 2 ^ 32"
    using assms by (auto simp: header_pack_def split: if_splits)
  have m: "length MAGIC = 8" by (simp add: MAGIC_def)
  show "length h = 64" using assms(2) by (simp add: h m)
  have at: "bytes_at h 0 h" by simp
  note at' = at [unfolded h bytes_at_append, folded h, simplified m length_be_bytes assms(2) list.size]
  show "slice 0 8 h = MAGIC" "slice 8 1 h = [VERSION]" "slice 9 1 h = [0]" "slice 24 32 h = digest"
    using at' by (simp_all add: bytes_at_def m assms(2))
  have "slice 12 8 h = ?g" "slice 20 4 h = ?p" "slice 56 4 h = ?c" "slice 60 4 h = ?z4" "slice 10 2 h = ?z2"
    using at' by (simp_all add: bytes_at_def m assms(2) del: be_bytes.simps)
  then show "of_be (slice 12 8 h) = g" "of_be (slice 20 4 h) = plen" "of_be (slice 56 4 h) = cnt" "of_be (slice 60 4 h) = 0"
    "of_be (slice 10 2 h) = 0"
    using b by (simp_all del: be_bytes.simps)
qed

lemma header_nonzero:
  assumes "header_pack g plen digest cnt = Inr h" "length digest = 32"
  shows "h \<noteq> replicate 64 0"
proof
  assume "h = replicate 64 0"
  then have "hd (slice 0 8 h) = 0" by (simp add: slice_def)
  moreover have "hd MAGIC = 90" by (simp add: MAGIC_def)
  ultimately show False using header_layout(2) [OF assms] by simp
qed

lemma read_bytes_split:
  assumes "read_bytes (int (length a + length b)) name 0 f = Inr (a @ b)"
  shows "read_bytes (int (length a)) name 0 f = Inr a" "read_bytes (int (length b)) name (int (length a)) f = Inr b"
proof -
  obtain r where r: "layout_region (f_layout f) name = Inr r" "int (length a + length b) \<le> region_capacity_bytes r"
    "slice 0 (length a + length b) (region_block (f_image f) r) = a @ b"
    using assms by (auto simp: read_bytes_def nat_int_add split: if_splits)
  have "length a + length b \<le> length (region_block (f_image f) r)" using r(2) by simp
  then have "bytes_at (region_block (f_image f) r) 0 (a @ b)" using r(3) by (simp add: bytes_at_def)
  then have "slice 0 (length a) (region_block (f_image f) r) = a" "slice (length a) (length b) (region_block (f_image f) r) = b"
    unfolding bytes_at_append by (simp_all add: bytes_at_def)
  with r(1,2) show "read_bytes (int (length a)) name 0 f = Inr a" "read_bytes (int (length b)) name (int (length a)) f = Inr b"
    by (simp_all add: read_bytes_def)
qed

definition canon_values :: "mem_values \<Rightarrow> mem_values" where
  "canon_values vs = map canon_entry (sort_key fst vs)"

lemma canon_dict: "canon (SDict vs) = SDict (canon_values vs)"
  by (simp add: canon_values_def)

lemma length_canon_values [simp]: "length (canon_values vs) = length vs"
  by (simp add: canon_values_def)

lemma capacity_bytes_Inr: "capacity_bytes st = Inr cap \<longleftrightarrow>
    (\<exists>r. layout_region (sp_layout st) (sp_region st) = Inr r \<and> cap = region_capacity_bytes r)"
  by (auto simp: capacity_bytes_def)

text \<open>A stored document decodes to what was stored.\<close>

lemma decode_stored:
  assumes sha: "sha_ok env" and ok: "sval_ok (SDict vs)" and doc: "encode_document env vs g st = Inr doc"
    and rd: "read_bytes (int (length doc)) (sp_region st) 0 f = Inr doc"
  shows "decode_document env st f = Inr (canon_values vs, g)"
proof -
  obtain payload header cap where p: "encode_value (SDict vs) = Inr payload" "capacity_bytes st = Inr cap"
    "int (64 + length payload) \<le> cap" "header_pack g (length payload) (e_sha env payload) (length vs) = Inr header"
    "doc = header @ payload"
    using doc by (auto simp: encode_document_def HEADER_SIZE_def simp del: encode_value.simps split: if_splits)
  have d: "length (e_sha env payload) = 32" using sha by (simp add: sha_ok_def)
  note h = header_layout [OF p(4) d]
  have r: "read_bytes (int HEADER_SIZE) (sp_region st) 0 f = Inr header"
    "read_bytes (int (length payload)) (sp_region st) (int HEADER_SIZE) f = Inr payload"
    using read_bytes_split [of header payload "sp_region st" f] rd h(1) by (simp_all add: p(5) HEADER_SIZE_def)
  have dec: "decode_value payload 0 = Inr (SDict (canon_values vs), length payload)"
    using codec_roundtrip(1) [OF p(1) ok bytes_at_self] unfolding canon_dict by simp
  have z: "header \<noteq> replicate HEADER_SIZE 0" using header_nonzero [OF p(4) d] by (simp add: HEADER_SIZE_def)
  show ?thesis
    unfolding decode_document_def r rbind_simps Let_def h using z p(2,3) r(2) dec by (simp add: HEADER_SIZE_def)
qed

lemma write_frame_spec:
  assumes sha: "sha_ok env" and ok: "sval_ok (SDict vs)" and f: "frame_ok f" "f_layout f = sp_layout st"
    and w: "write_frame env vs g st f = Inr f'"
  shows "decode_document env st f' = Inr (canon_values vs, Suc g)" "frame_ok f'" "f_layout f' = sp_layout st"
    "sp_region st \<noteq> Some ''execution'' \<Longrightarrow> int k \<le> execution_rows (sp_layout st) \<Longrightarrow> rows_agree k (f_image f) (f_image f')"
    "layout_region (sp_layout st) (sp_region st) = Inr r \<Longrightarrow> layout_region (sp_layout st) other = Inr r' \<Longrightarrow>
      \<forall>x y. region_contains r x y \<longrightarrow> \<not> region_contains r' x y \<Longrightarrow> read_bytes len other off f' = read_bytes len other off f"
proof -
  obtain doc cap f1 where w: "encode_document env vs (g + 1) st = Inr doc" "capacity_bytes st = Inr cap"
    "write_bytes (replicate (nat cap) 0) (sp_region st) 0 f = Inr f1" "write_bytes doc (sp_region st) 0 f1 = Inr f'"
    using w by (auto simp: write_frame_def)
  have t1: "tracked f f1" using write_bytes_spec [OF f(1), where raw = "replicate (nat cap) 0" and name = "sp_region st" and off = 0] w(3) by auto
  then have f1: "frame_ok f1" "f_layout f1 = sp_layout st" using f by (simp_all add: tracked_def)
  have t2: "tracked f1 f'" using write_bytes_spec [OF f1(1), where raw = doc and name = "sp_region st" and off = 0] w(4) by auto
  then show fok: "frame_ok f'" "f_layout f' = sp_layout st" using f1 by (simp_all add: tracked_def)
  show "decode_document env st f' = Inr (canon_values vs, Suc g)"
    using decode_stored [OF sha ok w(1) read_after_write(1) [OF f1(1) w(4)]] by simp
  show "rows_agree k (f_image f) (f_image f')" if "sp_region st \<noteq> Some ''execution''" "int k \<le> execution_rows (sp_layout st)"
    using data_write_rows [OF f(1) w(3) that(1)] data_write_rows [OF f1(1) w(4) that(1)] that(2) f(2) f1(2)
    by (auto simp: rows_agree_def)
  show "read_bytes len other off f' = read_bytes len other off f"
    if "layout_region (sp_layout st) (sp_region st) = Inr r" "layout_region (sp_layout st) other = Inr r'"
      "\<forall>x y. region_contains r x y \<longrightarrow> \<not> region_contains r' x y"
    using read_after_write(3) [OF f(1) w(3), of r other r'] read_after_write(3) [OF f1(1) w(4), of r other r'] that f(2) f1(2)
    by simp
qed

section \<open>The store as a dictionary with a generation\<close>

text \<open>The primary file is healthy and holds the values \<open>vs\<close> in generation \<open>g\<close>.\<close>

definition file_holds :: "png_env \<Rightarrow> store \<Rightarrow> bytes option \<Rightarrow> frame \<Rightarrow> mem_values \<Rightarrow> nat \<Rightarrow> bool" where
  "file_holds env st file f vs g \<longleftrightarrow> open_frame env file st = Inr f \<and> frame_ok f \<and>
     decode_document env st f = Inr (vs, g) \<and> sval_ok (SDict vs)"

definition holds :: "png_env \<Rightarrow> store \<Rightarrow> mem_values \<Rightarrow> nat \<Rightarrow> bool" where
  "holds env st vs g \<longleftrightarrow> (\<exists>f. file_holds env st (sp_primary st) f vs g)"

lemma open_frame_layout: "open_frame env file st = Inr f \<Longrightarrow> f_layout f = sp_layout st \<and> f_dirty f = []"
  by (auto simp: open_frame_def frame_open_def frame_init_def split: option.splits if_splits)

lemma open_written:
  assumes "png_lossless env (sp_layout st)" "frame_ok f" "f_layout f = sp_layout st"
  shows "open_frame env (Some (to_png_bytes env f)) st = Inr (f\<lparr>f_dirty := []\<rparr>)"
  using assms by (simp add: open_frame_def frame_open_def frame_init_def to_png_bytes_def png_lossless_def frame_ok_def)

lemma read_clean: "read_bytes len name off (f\<lparr>f_dirty := d\<rparr>) = read_bytes len name off f"
  by (simp add: read_bytes_def cong: if_cong)

lemma decode_clean [simp]: "decode_document env st (f\<lparr>f_dirty := d\<rparr>) = decode_document env st f"
  unfolding decode_document_def read_clean ..

lemma frame_ok_clean: "frame_ok f \<Longrightarrow> frame_ok (f\<lparr>f_dirty := []\<rparr>)"
  by (simp add: frame_ok_def rects_ok_def)

lemma open_decode_cong:
  "sp_layout st' = sp_layout st \<Longrightarrow> open_frame env file st' = open_frame env file st"
  "sp_layout st' = sp_layout st \<Longrightarrow> sp_region st' = sp_region st \<Longrightarrow> decode_document env st' f = decode_document env st f"
proof -
  show "sp_layout st' = sp_layout st \<Longrightarrow> open_frame env file st' = open_frame env file st" by (simp add: open_frame_def)
  assume "sp_layout st' = sp_layout st" "sp_region st' = sp_region st"
  moreover from this have "capacity_bytes st' = capacity_bytes st" by (simp add: capacity_bytes_def)
  ultimately show "decode_document env st' f = decode_document env st f" unfolding decode_document_def by (simp only:)
qed

lemma sval_ok_canon: "sval_ok v \<Longrightarrow> sval_ok (canon v)"
proof (induction v rule: canon.induct)
  case (2 kvs)
  have "distinct (map fst (sort_key fst kvs))"
    using strict_sorted_keys [of kvs] 2(2) by (simp add: strict_sorted_iff)
  moreover have "map fst (map canon_entry (sort_key fst kvs)) = map fst (sort_key fst kvs)" by simp
  ultimately have "distinct (map fst (map canon_entry (sort_key fst kvs)))" by (simp only:)
  moreover have "list_all (\<lambda>p. sval_ok (snd p)) (map canon_entry (sort_key fst kvs))"
    using 2 by (auto simp: list_all_iff)
  ultimately show ?case by (simp only: canon.simps sval_ok.simps simp_thms)
qed (auto simp: list_all_iff)

lemma dget_canon_values:
  assumes "distinct (map fst vs)"
  shows "dget (canon_values vs) k = map_option canon (dget vs k)"
proof -
  have "map_of (sort_key fst vs) = map_of vs"
    using assms by (intro map_of_inject_set [THEN iffD2]) (auto simp: distinct_map)
  moreover have "dget (map canon_entry xs) k = map_option canon (dget xs k)" for xs
    by (induction xs) auto
  ultimately show ?thesis by (simp add: canon_values_def)
qed

lemma read_frame_holds:
  assumes "file_holds env st (sp_primary st) f vs g"
  shows "read_frame env st = (Inr (f, vs, g), st)"
  using assms by (simp add: read_frame_def file_holds_def Let_def)

text \<open>A write is all or nothing and keeps the previous file as the backup.\<close>

lemma write_unlocked_holds:
  assumes env: "sha_ok env" "png_lossless env (sp_layout st)" and ok: "sval_ok (SDict vs')"
    and h: "file_holds env st (sp_primary st) f vs g"
  shows "case write_unlocked env vs' (Some g) st of
      (Inl e, st') \<Rightarrow> st' = st
    | (Inr _, st') \<Rightarrow> holds env st' (canon_values vs') (Suc g) \<and> sp_backup st' = sp_primary st \<and>
        sp_layout st' = sp_layout st \<and> sp_region st' = sp_region st \<and> sp_quarantine st' = sp_quarantine st \<and>
        (sp_region st \<noteq> Some ''execution'' \<longrightarrow> (\<exists>f'. open_frame env (sp_primary st') st' = Inr f' \<and>
           rows_agree (nat (execution_rows (sp_layout st))) (f_image f) (f_image f')))"
proof -
  have f: "frame_ok f" "f_layout f = sp_layout st" "open_frame env (sp_primary st) st = Inr f"
    using h open_frame_layout by (auto simp: file_holds_def)
  have p: "sp_primary st \<noteq> None"
    using f(3) by (cases "sp_primary st") (auto simp: open_frame_def frame_open_def)
  show ?thesis
  proof (cases "write_frame env vs' g st f")
    case (Inl e)
    with p f(3) show ?thesis by (simp add: write_unlocked_def)
  next
    case (Inr f')
    note w = write_frame_spec [OF env(1) ok f(1,2) Inr]
    let ?st = "atomic_write_bytes True (to_png_bytes env f') st"
    have st: "sp_layout ?st = sp_layout st" "sp_region ?st = sp_region st" "sp_primary ?st = Some (to_png_bytes env f')"
      "sp_backup ?st = sp_primary st" "sp_quarantine ?st = sp_quarantine st"
      using p by (simp_all add: atomic_write_bytes_def)
    have o: "open_frame env (sp_primary ?st) ?st = Inr (f'\<lparr>f_dirty := []\<rparr>)"
      unfolding open_decode_cong(1) [OF st(1)] st(3) by (rule open_written [OF env(2) w(2,3)])
    have "sval_ok (SDict (canon_values vs'))" using sval_ok_canon [OF ok] unfolding canon_dict .
    with o w(1) frame_ok_clean [OF w(2)] have "holds env ?st (canon_values vs') (Suc g)"
      by (auto simp: holds_def file_holds_def open_decode_cong(2) [OF st(1,2)])
    moreover have "0 \<le> execution_rows (sp_layout st)" using f(1,2) by (simp add: frame_ok_def layout_ok_def)
    then have "sp_region st \<noteq> Some ''execution'' \<longrightarrow>
        rows_agree (nat (execution_rows (sp_layout st))) (f_image f) (f_image f')" using w(4) by simp
    ultimately show ?thesis using p f(3) Inr st o by (simp add: write_unlocked_def)
  qed
qed

lemma modify_holds:
  assumes "sha_ok env" "png_lossless env (sp_layout st)" "sval_ok (SDict (h vs))" "holds env st vs g"
  shows "case modify env h st of
      (Inl e, st') \<Rightarrow> st' = st
    | (Inr _, st') \<Rightarrow> holds env st' (canon_values (h vs)) (Suc g) \<and> sp_backup st' = sp_primary st \<and>
        sp_layout st' = sp_layout st \<and> sp_region st' = sp_region st"
proof -
  obtain f where f: "file_holds env st (sp_primary st) f vs g" using assms(4) by (auto simp: holds_def)
  from write_unlocked_holds [OF assms(1-3) f] read_frame_holds [OF f] show ?thesis
    by (auto simp: modify_def split: prod.splits sum.splits)
qed

lemma sval_ok_dset: "sval_ok (SDict vs) \<Longrightarrow> sval_ok v \<Longrightarrow> sval_ok (SDict (dset k v vs))"
  using set_dset_subset [of k v vs] by (auto simp: list_all_iff distinct_update)

lemma sval_ok_ddel: "sval_ok (SDict vs) \<Longrightarrow> sval_ok (SDict (ddel k vs))"
  by (auto simp: list_all_iff distinct_delete set_ddel)

lemma plane_matches_no_rows: "execution_rows (sp_layout st) = 0 \<Longrightarrow> execution_plane_matches env a b st = Inr True"
  by (simp add: execution_plane_matches_def)

lemma try_backup_holds:
  assumes "file_holds env st (sp_backup st) bf vs g"
    "execution_rows (sp_layout st) = 0 \<or> (\<exists>pf. primary = Some pf \<and> execution_plane_matches env pf bf st = Inr True)"
  shows "try_backup env primary st = Some (bf, vs, g)"
proof -
  obtain raw where raw: "sp_backup st = Some raw"
    using assms(1) by (cases "sp_backup st") (auto simp: file_holds_def open_frame_def frame_open_def)
  have "\<exists>same. (case primary of None \<Rightarrow> Inr False | Some pf \<Rightarrow> execution_plane_matches env pf bf st) = Inr same \<and>
      (same \<or> execution_rows (sp_layout st) = 0)"
    using assms(2) plane_matches_no_rows by (cases primary) auto
  with assms(1) raw show ?thesis by (auto simp: try_backup_def file_holds_def)
qed

lemma try_backup_refused:
  assumes "file_holds env st (sp_backup st) bf vs g" "execution_rows (sp_layout st) \<noteq> 0"
    "\<And>pf. primary = Some pf \<Longrightarrow> execution_plane_matches env pf bf st \<noteq> Inr True"
  shows "try_backup env primary st = None"
proof (cases "case primary of None \<Rightarrow> Inr False | Some pf \<Rightarrow> execution_plane_matches env pf bf st")
  case (Inr same)
  with assms(3) have "\<not> same" by (cases primary) auto
  with Inr assms(1,2) show ?thesis by (auto simp: try_backup_def file_holds_def split: option.splits)
qed (use assms(1) in \<open>auto simp: try_backup_def file_holds_def split: option.splits\<close>)

section \<open>Properties\<close>

text \<open>A codec that lists the cells of a raster of the given size, as a concrete PNG library.\<close>

fun triples :: "bytes \<Rightarrow> pixel list" where
  "triples (r # g # b # rest) = (r, g, b) # triples rest"
| "triples _ = []"

definition flat_env :: "layout \<Rightarrow> png_env" where
  "flat_env L = \<lparr>e_sha = (\<lambda>b. take 32 (b @ replicate 32 0)),
     e_encode = (\<lambda>r. concat (map (\<lambda>(r, g, b). [r, g, b]) (rcells r))),
     e_decode = (\<lambda>b. Some \<lparr>im_format = ''PNG'', im_mode = ''RGB'',
       im_raster = \<lparr>rwidth = nat (lwidth L), rheight = nat (lheight L), rcells = triples b\<rparr>\<rparr>)\<rparr>"

lemma triples_flat: "triples (concat (map (\<lambda>(r, g, b). [r, g, b]) cs)) = cs"
  by (induction cs) auto

lemma flat_env_ok: "sha_ok (flat_env L)" "png_lossless (flat_env L) L"
proof -
  show "sha_ok (flat_env L)" by (simp add: sha_ok_def flat_env_def min_def)
  show "png_lossless (flat_env L) L"
    unfolding png_lossless_def
  proof (intro allI impI)
    fix r :: raster
    assume "raster_ok r \<and> size_matches r L"
    then have "nat (lwidth L) = rwidth r" "nat (lheight L) = rheight r" by (auto simp: size_matches_def)
    then show "e_decode (flat_env L) (e_encode (flat_env L) r) = Some \<lparr>im_format = ''PNG'', im_mode = ''RGB'', im_raster = r\<rparr>"
      by (simp add: flat_env_def triples_flat)
  qed
qed

lemma be_bytes_numeral:
  "be_bytes (numeral k) n = be_bytes (pred_numeral k) (n div 256) @ [of_nat (n mod 256)]"
  by (simp only: numeral_eq_Suc [of k] be_bytes.simps)

text \<open>C27. The typed binary encoding is lossless: whatever value the encoder accepts, decoding its bytes,
  wherever they stand in a byte string, consumes exactly these bytes and returns the value, with
  dictionaries in key order.\<close>

theorem spatial_value_roundtrip:
  assumes "encode_value v = Inr bs" "sval_ok v"
  shows "decode_value (pre @ bs @ post) (length pre) = Inr (canon v, length pre + length bs)"
proof -
  have "bytes_at (pre @ bs @ post) (length pre) bs" by (simp add: bytes_at_def slice_def)
  from codec_roundtrip(1) [OF assms this] show ?thesis .
qed

theorem spatial_value_roundtrip_witness:
  "decode_value [9, 3, 1, 0, 2, 1, 44, 7] 1 = Inr (SInt (- 300), 7)"
proof -
  have e: "encode_value (SInt (- 300)) = Inr [3, 1, 0, 2, 1, 44]"
    by (simp add: encode_int_def int_bytes_def bit_length.simps u16_def Let_def be_bytes_numeral)
  from spatial_value_roundtrip [OF e, of "[9]" "[7]"] show ?thesis by simp
qed

text \<open>A fresh store in the data rows of a frame whose one executable row sets register A to 7.\<close>

definition demo_store_layout :: layout where
  "demo_store_layout = \<lparr>lwidth = 8, lheight = 17, execution_rows = 1, lregions = []\<rparr>"

definition demo_row :: "pixel list" where
  "demo_row = (10, 0, 7) # replicate 7 (0, 0, 0)"

definition demo_file :: "byte \<Rightarrow> bytes" where
  "demo_file c = concat (map (\<lambda>(r, g, b). [r, g, b]) demo_row) @ replicate 384 c"

definition demo_store :: store where
  "demo_store = \<lparr>sp_layout = demo_store_layout, sp_region = None,
     sp_primary = Some (demo_file 0), sp_backup = None, sp_quarantine = []\<rparr>"

lemma triples_const: "triples (replicate (3 * n) c) = replicate n (c, c, c)"
  by (induction n) (simp_all add: numeral_3_eq_3)

lemma triples_append: "triples (concat (map (\<lambda>(r, g, b). [r, g, b]) cs) @ bs) = cs @ triples bs"
  by (induction cs) auto

definition demo_store_frame :: "byte \<Rightarrow> frame" where
  "demo_store_frame c = \<lparr>f_image = \<lparr>rwidth = 8, rheight = 17, rcells = demo_row @ replicate 128 (c, c, c)\<rparr>,
     f_layout = demo_store_layout, f_dirty = []\<rparr>"

lemma length_demo_row [simp]: "length demo_row = 8"
  by (simp add: demo_row_def)

lemma demo_store_region:
  "layout_region demo_store_layout None = Inr (storage_region demo_store_layout)"
  "region_capacity_bytes (storage_region demo_store_layout) = 384"
  by (simp_all add: layout_region_def Let_def storage_region_def demo_store_layout_def region_capacity_bytes_def region_cells_def)

lemma demo_store_open:
  "open_frame (flat_env demo_store_layout) (Some (demo_file c)) demo_store = Inr (demo_store_frame c)"
  using triples_const [of 128]
  by (simp add: open_frame_def frame_open_def frame_init_def flat_env_def demo_store_def demo_store_layout_def size_matches_def
      demo_store_frame_def demo_file_def triples_append)

lemma demo_store_frame_ok: "frame_ok (demo_store_frame c)"
  by (simp add: demo_store_frame_def frame_ok_def raster_ok_def size_matches_def rects_ok_def demo_store_layout_def layout_ok_def
      total_cells_def MAX_SPATIAL_CELLS_def)

lemma demo_store_header: "read_bytes 64 None 0 (demo_store_frame c) = Inr (replicate 64 c)"
proof -
  let ?reg = "storage_region demo_store_layout"
  have "region_block (f_image (demo_store_frame c)) ?reg = replicate 384 c"
  proof (rule nth_equalityI)
    fix i assume "i < length (region_block (f_image (demo_store_frame c)) ?reg)"
    then have i: "i < 384" by (simp add: demo_store_region)
    then have q: "i div 3 < 128" by simp
    have "Suc (i div 3 div 8) * 8 + i div 3 mod 8 = 8 + i div 3" by simp
    with i q show "region_block (f_image (demo_store_frame c)) ?reg ! i = replicate 384 c ! i"
      by (simp add: region_block_def Let_def pixel_at_def px_byte_def storage_region_def demo_store_layout_def
          region_capacity_bytes_def region_cells_def demo_store_frame_def nth_append nat_add_distrib)
  qed (simp add: demo_store_region)
  then show ?thesis
    using demo_store_region by (simp add: read_bytes_def slice_def demo_store_frame_def)
qed

lemma demo_store_holds:
  "file_holds (flat_env demo_store_layout) demo_store (sp_primary demo_store) (demo_store_frame 0) [] 0"
proof -
  have "decode_document (flat_env demo_store_layout) demo_store (demo_store_frame 0) = Inr ([], 0)"
    using demo_store_header [of 0] by (simp add: decode_document_def HEADER_SIZE_def demo_store_def)
  with demo_store_open [of 0] demo_store_frame_ok show ?thesis by (simp add: file_holds_def demo_store_def)
qed

lemma demo_store_env:
  "png_lossless (flat_env demo_store_layout) (sp_layout demo_store)" "holds (flat_env demo_store_layout) demo_store [] 0"
  using flat_env_ok(2) demo_store_holds by (auto simp: demo_store_def holds_def)

text \<open>C28. The store refines a dictionary with a generation counter. On a store that holds the values \<open>vs\<close> in
  generation \<open>g\<close>, reading returns the entry or the default and changes nothing; writing either fails
  and changes nothing at all, or leaves a store that holds \<open>vs\<close> with the key set, in generation
  \<open>g + 1\<close>, with the previous file kept as the backup; deleting a present key and clearing likewise.\<close>

theorem store_refines_dictionary:
  assumes "sha_ok env" "png_lossless env (sp_layout st)" "holds env st vs g" "sval_ok v" "key \<noteq> []"
  shows "store_read env key dflt st = (Inr (case dget vs key of None \<Rightarrow> dflt | Some x \<Rightarrow> x), st) \<and>
    (case store_write env key v st of
       (Inl e, st') \<Rightarrow> st' = st
     | (Inr _, st') \<Rightarrow> sp_backup st' = sp_primary st \<and> (\<exists>vs'. holds env st' vs' (Suc g) \<and>
         (\<forall>k. dget vs' k = map_option canon (dget (dset key v vs) k)))) \<and>
    (case store_delete env key st of
       (Inl e, st') \<Rightarrow> st' = st
     | (Inr found, st') \<Rightarrow> found = (key \<in> dkeys vs) \<and> (if found then sp_backup st' = sp_primary st \<and>
         (\<exists>vs'. holds env st' vs' (Suc g) \<and> (\<forall>k. dget vs' k = map_option canon (dget (ddel key vs) k))) else st' = st)) \<and>
    (case store_clear env st of
       (Inl e, st') \<Rightarrow> st' = st
     | (Inr _, st') \<Rightarrow> sp_backup st' = sp_primary st \<and> holds env st' [] (Suc g))"
proof -
  obtain f where f: "file_holds env st (sp_primary st) f vs g" using assms(3) by (auto simp: holds_def)
  note rd = read_frame_holds [OF f]
  have vs: "sval_ok (SDict vs)" using f by (simp add: file_holds_def)
  have dist: "distinct (map fst (dset key v vs))" "distinct (map fst (ddel key vs))"
    using vs by (simp_all add: distinct_update distinct_delete)
  have w: "case store_write env key v st of
       (Inl e, st') \<Rightarrow> st' = st
     | (Inr _, st') \<Rightarrow> sp_backup st' = sp_primary st \<and> (\<exists>vs'. holds env st' vs' (Suc g) \<and>
         (\<forall>k. dget vs' k = map_option canon (dget (dset key v vs) k)))"
    using modify_holds [where h = "dset key v", OF assms(1,2) sval_ok_dset [OF vs assms(4), of key] assms(3)]
      dget_canon_values [OF dist(1)] assms(5)
    by (simp add: store_write_def del: dict_simps split: prod.splits sum.splits) blast
  have d: "case store_delete env key st of
       (Inl e, st') \<Rightarrow> st' = st
     | (Inr found, st') \<Rightarrow> found = (key \<in> dkeys vs) \<and> (if found then sp_backup st' = sp_primary st \<and>
         (\<exists>vs'. holds env st' vs' (Suc g) \<and> (\<forall>k. dget vs' k = map_option canon (dget (ddel key vs) k))) else st' = st)"
    using write_unlocked_holds [OF assms(1,2) sval_ok_ddel [OF vs, of key] f] dget_canon_values [OF dist(2)]
    by (auto simp: store_delete_def rd simp del: dict_simps split: prod.splits sum.splits)
  have "canon_values [] = []" by (simp add: canon_values_def)
  then have c: "case store_clear env st of
       (Inl e, st') \<Rightarrow> st' = st
     | (Inr _, st') \<Rightarrow> sp_backup st' = sp_primary st \<and> holds env st' [] (Suc g)"
    using modify_holds [where h = "\<lambda>_. []", OF assms(1,2) _ assms(3)] by (auto simp: store_clear_def split: prod.splits sum.splits)
  show ?thesis using w d c by (simp add: store_read_def rd)
qed

lemma write_frame_fits:
  assumes "frame_ok f" "f_layout f = sp_layout st" "encode_document env vs (Suc g) st = Inr doc" "sha_ok env"
  shows "\<exists>f'. write_frame env vs g st f = Inr f'"
proof -
  obtain payload cap header r where p: "capacity_bytes st = Inr cap" "int (HEADER_SIZE + length payload) \<le> cap"
    "header_pack (Suc g) (length payload) (e_sha env payload) (length vs) = Inr header" "doc = header @ payload"
    "layout_region (sp_layout st) (sp_region st) = Inr r" "cap = region_capacity_bytes r"
    using assms(3) by (auto simp: encode_document_def capacity_bytes_Inr not_less simp del: encode_value.simps split: if_splits)
  have "length header = 64" using header_layout(1) [OF p(3)] assms(4) by (simp add: sha_ok_def)
  then have len: "int (length doc) \<le> region_capacity_bytes r" "0 \<le> cap" using p(2,4,6) by (simp_all add: HEADER_SIZE_def)
  obtain f1 where f1: "write_bytes (replicate (nat cap) 0) (sp_region st) 0 f = Inr f1"
    using write_bytes_fits [OF assms(1), of "sp_region st" r 0 "replicate (nat cap) 0"] p(5,6) len assms(2) by auto
  have t: "tracked f f1" using write_bytes_spec [OF assms(1), where raw = "replicate (nat cap) 0" and name = "sp_region st" and off = 0] f1 by auto
  then have "frame_ok f1" "f_layout f1 = sp_layout st" using assms(2) by (simp_all add: tracked_def)
  then obtain f' where "write_bytes doc (sp_region st) 0 f1 = Inr f'"
    using write_bytes_fits [of f1 "sp_region st" r 0 doc] p(5) len by auto
  with f1 assms(3) p(1) show ?thesis by (auto simp: write_frame_def)
qed

lemma demo_modify:
  "\<exists>st'. modify (flat_env demo_store_layout) (dset [97] SNone) demo_store = (Inr (), st') \<and> sp_layout st' = demo_store_layout"
proof -
  let ?env = "flat_env demo_store_layout"
  have e: "encode_value (SDict [([97], SNone)]) = Inr [8, 0, 0, 0, 1, 0, 1, 97, 0, 0, 0, 1, 0]"
    using utf8_encode_ascii [of "[97]"] by (simp add: u32_def u16_def block32_def be_bytes_numeral)
  have cap: "capacity_bytes demo_store = Inr 384" using demo_store_region by (simp add: capacity_bytes_def demo_store_def)
  have "\<exists>doc. encode_document ?env [([97], SNone)] (Suc 0) demo_store = Inr doc"
    unfolding encode_document_def e rbind_simps cap by (simp add: HEADER_SIZE_def header_pack_def)
  then obtain doc where doc: "encode_document ?env [([97], SNone)] (Suc 0) demo_store = Inr doc" by blast
  have "f_layout (demo_store_frame 0) = sp_layout demo_store" by (simp add: demo_store_frame_def demo_store_def)
  from write_frame_fits [OF demo_store_frame_ok this doc flat_env_ok(1)]
  obtain f' where "write_frame ?env [([97], SNone)] 0 demo_store (demo_store_frame 0) = Inr f'" by blast
  moreover have "sp_primary demo_store = Some (demo_file 0)" by (simp add: demo_store_def)
  ultimately show ?thesis
    using read_frame_holds [OF demo_store_holds] demo_store_open [of 0]
    by (simp add: modify_def write_unlocked_def atomic_write_bytes_def) (simp add: demo_store_def)
qed

theorem store_refines_dictionary_witness:
  "\<exists>st' vs'. store_write (flat_env demo_store_layout) [97] SNone demo_store = (Inr (), st') \<and> sp_backup st' = sp_primary demo_store \<and>
     holds (flat_env demo_store_layout) st' vs' 1 \<and> dget vs' [97] = Some SNone \<and> dget vs' [98] = None"
proof -
  obtain st' where w: "store_write (flat_env demo_store_layout) [97] SNone demo_store = (Inr (), st')"
    using demo_modify by (auto simp: store_write_def)
  show ?thesis
    using store_refines_dictionary [OF flat_env_ok(1) demo_store_env, where key = "[97]" and dflt = SNone and v = SNone] w by auto
qed

text \<open>C29. Storing memory never changes the program: after a successful write to a store that shares its
  frame with executable rows and keeps its memory in a region other than \<open>execution\<close> (a store in that
  region overwrites the program), the machine of that layout runs the stored frame exactly as before,
  with the same outcome and the same resulting state.\<close>

theorem store_write_keeps_program:
  assumes "sha_ok env" "png_lossless env (sp_layout st)" "sval_ok v" "sp_region st \<noteq> Some ''execution''"
    "file_holds env st (sp_primary st) f vs g" "store_write env key v st = (Inr u, st')"
    "int (threads m) = execution_rows (sp_layout st)"
  shows "\<exists>f'. open_frame env (sp_primary st') st' = Inr f' \<and> execute_array (f_image f') m = execute_array (f_image f) m"
proof -
  have ok: "sval_ok (SDict (dset key v vs))"
    using sval_ok_dset assms(3,5) by (simp add: file_holds_def)
  have "write_unlocked env (dset key v vs) (Some g) st = (Inr u, st')"
    using assms(6) read_frame_holds [OF assms(5)] by (simp add: store_write_def modify_def split: if_splits)
  with write_unlocked_holds [OF assms(1,2) ok assms(5)] assms(4)
  obtain f' where f': "open_frame env (sp_primary st') st' = Inr f'"
    "rows_agree (nat (execution_rows (sp_layout st))) (f_image f) (f_image f')" by auto
  have "threads m = nat (execution_rows (sp_layout st))" using assms(7) by linarith
  with f'(2) run_columns_rows [of "m\<lparr>next_frame := None\<rparr>" "f_image f" "f_image f'" "max_col_steps m" 0 fresh_ctx]
  have "execute_array (f_image f') m = execute_array (f_image f) m" by (simp add: execute_array_def)
  with f'(1) show ?thesis by blast
qed

lemma demo_program:
  "\<exists>v'. execute_array (f_image (demo_store_frame c)) ((demo_vm 1 True)\<lparr>max_col_steps := 8\<rparr>) = (Inr None, v') \<and>
     map reg_A (registers v') = [7]"
proof -
  have d: "rev_opmap MAP 10 = Some ''SET_REG''" "rev_opmap MAP 0 = None" by code_simp+
  have step: "run_columns (numeral k) arr x v c =
      (if x < rwidth arr then (case exec_column arr x v c of (Some e, v', c') \<Rightarrow> (Some e, v', c')
         | (None, v', c') \<Rightarrow> run_columns (pred_numeral k) arr (next_column x c') v' c') else (None, v, c))" for k arr x v c
    by (simp add: numeral_eq_Suc)
  have px: "x < 8 \<Longrightarrow> pixel_at (f_image (demo_store_frame c)) 0 x = (if x = 0 then (10, 0, 7) else (0, 0, 0))" for x
    by (cases x) (simp_all add: pixel_at_def demo_store_frame_def demo_row_def nth_append)
  have dim: "rwidth (f_image (demo_store_frame c)) = 8" "rheight (f_image (demo_store_frame c)) = 17" by (simp_all add: demo_store_frame_def)
  show ?thesis
    using d by (simp add: execute_array_def demo_vm_def fresh_ctx_def px dim exec_column_def exec_thread_def
        exec_instr_def upd_thread_def next_column_def zero_regs_def step Let_def)
qed

theorem store_write_keeps_program_witness:
  "\<exists>st' f' m'. store_write (flat_env demo_store_layout) [97] SNone demo_store = (Inr (), st') \<and>
     open_frame (flat_env demo_store_layout) (sp_primary st') st' = Inr f' \<and>
     execute_array (f_image f') ((demo_vm 1 True)\<lparr>max_col_steps := 8\<rparr>) = (Inr None, m') \<and> map reg_A (registers m') = [7]"
proof -
  let ?m = "(demo_vm 1 True)\<lparr>max_col_steps := 8\<rparr>"
  obtain st' where st': "store_write (flat_env demo_store_layout) [97] SNone demo_store = (Inr (), st')"
    using demo_modify by (auto simp: store_write_def)
  have "sval_ok SNone" "sp_region demo_store \<noteq> Some ''execution''" "int (threads ?m) = execution_rows (sp_layout demo_store)"
    by (simp_all add: demo_store_def demo_vm_def demo_store_layout_def)
  from store_write_keeps_program [OF flat_env_ok(1) demo_store_env(1) this(1,2) demo_store_holds st' this(3)] st' demo_program
  show ?thesis by metis
qed

text \<open>C30. Recovery: let the file written by a successful change be found damaged later, whatever its bytes are.
  If the layout has no executable rows, or the damaged file still opens and its executable rows have the
  digest of those of the previous file, the next read returns the frame, the values and the generation
  from before that change and the store is healthy again with them. Otherwise the read raises, the store
  is left without a primary file and its backup as it was, so that executable rows are never rolled back.
  In both cases the damaged file is kept in quarantine.\<close>

theorem recovery_restores_previous_generation:
  assumes "sha_ok env" "png_lossless env (sp_layout st)" "file_holds env st (sp_primary st) f vs g" "sval_ok (SDict (h vs))"
    "modify env h st = (Inr u, st')"
    "rbind (open_frame env (Some raw) st') (decode_document env st') = Inl e"
  shows "\<exists>res st''. read_frame env (st'\<lparr>sp_primary := Some raw\<rparr>) = (res, st'') \<and> sp_quarantine st'' = sp_quarantine st' @ [raw] \<and>
    (if execution_rows (sp_layout st) = 0 \<or>
        (\<exists>pf. open_frame env (Some raw) st' = Inr pf \<and> execution_plane_matches env pf f st' = Inr True)
     then res = Inr (f, vs, g) \<and> holds env st'' vs g
     else res = Inl (CorruptStateError ''corrupt spatial memory quarantined'') \<and> sp_primary st'' = None \<and> sp_backup st'' = sp_primary st)"
proof -
  let ?bad = "st'\<lparr>sp_primary := Some raw\<rparr>"
  have h: "holds env st vs g" using assms(3) by (auto simp: holds_def)
  have st': "sp_backup st' = sp_primary st" "sp_layout st' = sp_layout st" "sp_region st' = sp_region st"
    using modify_holds [where h = h, OF assms(1,2,4) h] assms(5) by simp_all
  have same: "open_frame env raw' ?bad = open_frame env raw' st" "decode_document env ?bad x = decode_document env st x"
      "open_frame env raw' st' = open_frame env raw' st" "decode_document env st' x = decode_document env st x"
      "execution_plane_matches env pf bf ?bad = execution_plane_matches env pf bf st'" for raw' x pf bf
    using open_decode_cong [of ?bad st] open_decode_cong [of st' st] st' by (simp_all add: execution_plane_matches_def)
  have bk: "file_holds env ?bad (sp_backup ?bad) f vs g" using assms(3) by (simp add: file_holds_def same st')
  let ?p = "case open_frame env (Some raw) ?bad of Inl e \<Rightarrow> None | Inr f \<Rightarrow> Some f"
  have fails: "\<exists>e. rbind (open_frame env (Some raw) ?bad) (\<lambda>f. rbind (decode_document env ?bad f) (\<lambda>(vs, g). Inr (f, vs, g))) = Inl e"
    using assms(6) unfolding same by (cases "open_frame env (Some raw) st") (auto simp: rbind_eq_Inl)
  show ?thesis
  proof (cases "execution_rows (sp_layout st) = 0 \<or>
        (\<exists>pf. open_frame env (Some raw) st' = Inr pf \<and> execution_plane_matches env pf f st' = Inr True)")
    case True
    have rec: "try_backup env ?p ?bad = Some (f, vs, g)"
      by (rule try_backup_holds [OF bk]) (use True st'(2) in \<open>auto simp: same\<close>)
    let ?st = "atomic_write_bytes False (to_png_bytes env f) (?bad\<lparr>sp_primary := None, sp_quarantine := sp_quarantine st' @ [raw]\<rparr>)"
    have rd: "read_frame env ?bad = (Inr (f, vs, g), ?st)"
      using fails rec by (auto simp: read_frame_def Let_def)
    have lay: "sp_layout ?st = sp_layout st" "sp_region ?st = sp_region st" "sp_primary ?st = Some (to_png_bytes env f)"
      using st' by (simp_all add: atomic_write_bytes_def)
    have ff: "frame_ok f" "f_layout f = sp_layout st" "decode_document env st f = Inr (vs, g)" "sval_ok (SDict vs)"
      using assms(3) open_frame_layout by (auto simp: file_holds_def)
    have "holds env ?st vs g"
      unfolding holds_def file_holds_def lay(3) open_decode_cong(1) [OF lay(1)] open_decode_cong(2) [OF lay(1,2)]
      using open_written [OF assms(2) ff(1,2)] ff frame_ok_clean [OF ff(1)] by simp
    with rd True show ?thesis by (auto simp: atomic_write_bytes_def)
  next
    case False
    have "try_backup env ?p ?bad = None"
      by (rule try_backup_refused [OF bk]) (use False st'(2) in \<open>auto simp: same split: sum.splits\<close>)
    with fails have "read_frame env ?bad =
        (Inl (CorruptStateError ''corrupt spatial memory quarantined''), ?bad\<lparr>sp_primary := None, sp_quarantine := sp_quarantine st' @ [raw]\<rparr>)"
      by (auto simp: read_frame_def Let_def)
    with False st'(1) show ?thesis by simp
  qed
qed

lemma demo_plane: "execution_plane_matches env (demo_store_frame c) (demo_store_frame 0) st = Inr True"
  if "sp_layout st = demo_store_layout"
proof -
  have "read_bytes 24 (Some ''execution'') 0 (demo_store_frame d) = read_bytes 24 (Some ''execution'') 0 (demo_store_frame 0)" for d
  proof -
    have "region_block (f_image (demo_store_frame d)) (execution_region demo_store_layout) =
        region_block (f_image (demo_store_frame 0)) (execution_region demo_store_layout)"
    proof (rule nth_equalityI)
      fix i assume "i < length (region_block (f_image (demo_store_frame d)) (execution_region demo_store_layout))"
      then have "i < 24" by (simp add: execution_region_def demo_store_layout_def region_capacity_bytes_def region_cells_def)
      then have "i div 3 < 8" by simp
      with \<open>i < 24\<close> show "region_block (f_image (demo_store_frame d)) (execution_region demo_store_layout) ! i =
          region_block (f_image (demo_store_frame 0)) (execution_region demo_store_layout) ! i"
        by (simp add: region_block_def Let_def pixel_at_def execution_region_def demo_store_layout_def region_capacity_bytes_def
            region_cells_def demo_store_frame_def nth_append)
    qed simp
    then show ?thesis by (simp add: read_bytes_def layout_region_def demo_store_frame_def)
  qed
  moreover have "\<exists>bs. read_bytes 24 (Some ''execution'') 0 (demo_store_frame 0) = Inr bs"
    by (simp add: read_bytes_def layout_region_def demo_store_frame_def execution_region_def demo_store_layout_def
        region_capacity_bytes_def region_cells_def)
  ultimately show ?thesis
    using that by (auto simp: execution_plane_matches_def execution_region_def demo_store_layout_def region_capacity_bytes_def
        region_cells_def Let_def)
qed

theorem recovery_restores_previous_generation_witness:
  "\<exists>st' st''. modify (flat_env demo_store_layout) (dset [97] SNone) demo_store = (Inr (), st') \<and>
     read_frame (flat_env demo_store_layout) (st'\<lparr>sp_primary := Some (demo_file 1)\<rparr>) = (Inr (demo_store_frame 0, [], 0), st'') \<and>
     sp_quarantine st'' = sp_quarantine st' @ [demo_file 1]"
proof -
  let ?env = "flat_env demo_store_layout"
  obtain st' where m: "modify ?env (dset [97] SNone) demo_store = (Inr (), st')" "sp_layout st' = sp_layout demo_store"
    using demo_modify by (auto simp: demo_store_def)
  have ok: "sval_ok (SDict (dset [97] SNone []))" by simp
  have "sp_region st' = None"
    using modify_holds [where h = "dset [97] SNone", OF flat_env_ok(1) demo_store_env(1) ok demo_store_env(2)] m(1)
    by (simp add: demo_store_def)
  then have r: "sp_region st' = sp_region demo_store" by (simp add: demo_store_def)
  have o: "open_frame ?env (Some (demo_file 1)) st' = Inr (demo_store_frame 1)"
    unfolding open_decode_cong(1) [OF m(2)] by (rule demo_store_open)
  have "slice 0 8 (replicate 64 (1 :: byte)) \<noteq> MAGIC" by (simp add: slice_def MAGIC_def numeral_eq_Suc)
  then have "\<exists>e. rbind (open_frame ?env (Some (demo_file 1)) st') (decode_document ?env st') = Inl e"
    unfolding o rbind_simps open_decode_cong(2) [OF m(2) r]
    using demo_store_header [of 1] by (simp add: decode_document_def HEADER_SIZE_def demo_store_def Let_def)
  then obtain e where e: "rbind (open_frame ?env (Some (demo_file 1)) st') (decode_document ?env st') = Inl e" by blast
  have "execution_plane_matches ?env (demo_store_frame 1) (demo_store_frame 0) st' = Inr True"
    by (rule demo_plane) (use m(2) in \<open>simp add: demo_store_def\<close>)
  with recovery_restores_previous_generation [where h = "dset [97] SNone", OF flat_env_ok(1) demo_store_env(1) demo_store_holds ok m(1) e] m(1) o
  show ?thesis by auto
qed

end
