(* ===== verification/Cluster.thy ===== *)
theory Cluster
  imports Karma "HOL-Library.Product_Lexorder" "HOL-Library.Multiset"
begin

text \<open>
  Replicated cluster state, from \<^verbatim>\<open>zdx_cluster.py\<close>: an operation log that replicas append to and
  merge, the task queue replayed from it, and the facade that joins it to the karma system.

  \<^item> \<^verbatim>\<open>jval\<close> is a parsed JSON value; peers send arbitrary ones, so the checks the code makes (and
    the exceptions it raises where it makes none) are written out on them. Floats are finite and
    exact rationals; \<open>fr\<close> is \<open>float.__repr__\<close> and \<open>fl\<close> the rounding of a float sum.
  \<^item> \<^verbatim>\<open>cluster_state\<close> is a \<open>ReplicatedClusterState\<close>: \<open>cs_rest\<close> are the members of \<open>_state\<close> other
    than \<open>operations\<close>, \<open>cs_ops\<close> the operations and \<open>cs_disk\<close> the document in the file. A failing
    merge leaves what it had already added in memory, as the code does.
  \<^item> The fresh \<open>uuid4\<close> strings and the readings of the clock are arguments of an operation, and
    \<open>sha\<close> is \<open>hashlib.sha256(\<dots>).digest()\<close>.
  \<^item> A dictionary key is \<^verbatim>\<open>dkey\<close>: numbers that are equal in Python are one key, integral ones
    in integer form. A \<open>task\<close> that is a non-empty list of pairs, which \<open>dict\<close> would accept, is an
    error here; and a sort raises when any two of its keys cannot be compared.
  \<^item> Failures of the file system are not modelled.
\<close>

section \<open>JSON values\<close>

datatype jval =
    VNull
  | VBool bool
  | VInt int
  | VNum rat
  | VStr string
  | VList "jval list"
  | VObj "(string \<times> jval) list"

type_synonym obj = "(string, jval) dict"

fun truthy :: "jval \<Rightarrow> bool" where
  "truthy VNull \<longleftrightarrow> False"
| "truthy (VBool b) \<longleftrightarrow> b"
| "truthy (VInt i) \<longleftrightarrow> i \<noteq> 0"
| "truthy (VNum r) \<longleftrightarrow> r \<noteq> 0"
| "truthy (VStr s) \<longleftrightarrow> s \<noteq> []"
| "truthy (VList xs) \<longleftrightarrow> xs \<noteq> []"
| "truthy (VObj d) \<longleftrightarrow> d \<noteq> []"

fun number_of :: "jval \<Rightarrow> rat option" where
  "number_of (VBool b) = Some (if b then 1 else 0)"
| "number_of (VInt i) = Some (of_int i)"
| "number_of (VNum r) = Some r"
| "number_of _ = None"

text \<open>Equality of values: \<open>True == 1 == 1.0\<close>, dictionaries without regard to order.\<close>

fun py_eq :: "jval \<Rightarrow> jval \<Rightarrow> bool"
  and py_eqs :: "jval list \<Rightarrow> jval list \<Rightarrow> bool"
  and py_eq_members :: "(string \<times> jval) list \<Rightarrow> (string \<times> jval) list \<Rightarrow> bool" where
  "py_eq VNull w \<longleftrightarrow> w = VNull"
| "py_eq (VStr s) w \<longleftrightarrow> w = VStr s"
| "py_eq (VList xs) w \<longleftrightarrow> (case w of VList ys \<Rightarrow> py_eqs xs ys | _ \<Rightarrow> False)"
| "py_eq (VObj d) w \<longleftrightarrow> (case w of VObj e \<Rightarrow> length d = length e \<and> py_eq_members d e | _ \<Rightarrow> False)"
| "py_eq (VBool b) w \<longleftrightarrow> number_of w = Some (if b then 1 else 0)"
| "py_eq (VInt i) w \<longleftrightarrow> number_of w = Some (of_int i)"
| "py_eq (VNum r) w \<longleftrightarrow> number_of w = Some r"
| "py_eqs [] ys \<longleftrightarrow> ys = []"
| "py_eqs (x # xs) ys \<longleftrightarrow> (case ys of [] \<Rightarrow> False | y # ys' \<Rightarrow> py_eq x y \<and> py_eqs xs ys')"
| "py_eq_members [] e \<longleftrightarrow> True"
| "py_eq_members (p # d) e \<longleftrightarrow>
     (case dget e (fst p) of None \<Rightarrow> False | Some w \<Rightarrow> py_eq (snd p) w) \<and> py_eq_members d e"

text \<open>\<open>v < w\<close>; \<open>None\<close> is the \<open>TypeError\<close>. Lists compare at the first place where they differ.\<close>

fun py_lt :: "jval \<Rightarrow> jval \<Rightarrow> bool option"
  and py_lts :: "jval list \<Rightarrow> jval list \<Rightarrow> bool option" where
  "py_lt (VList xs) w = (case w of VList ys \<Rightarrow> py_lts xs ys | _ \<Rightarrow> None)"
| "py_lt (VStr s) w = (case w of VStr t \<Rightarrow> Some (s < t) | _ \<Rightarrow> None)"
| "py_lt VNull w = None"
| "py_lt (VObj d) w = None"
| "py_lt (VBool b) w = map_option ((<) (if b then 1 else 0)) (number_of w)"
| "py_lt (VInt i) w = map_option ((<) (of_int i)) (number_of w)"
| "py_lt (VNum r) w = map_option ((<) r) (number_of w)"
| "py_lts [] ys = Some (ys \<noteq> [])"
| "py_lts (x # xs) ys = (case ys of [] \<Rightarrow> Some False
     | y # ys' \<Rightarrow> if py_eq x y then py_lts xs ys' else py_lt x y)"

text \<open>\<open><\<close> on the pairs that serve as sort keys, and \<open>sorted(xs, key=\<dots>)\<close>.\<close>

definition pair_lt :: "jval \<times> jval \<Rightarrow> jval \<times> jval \<Rightarrow> bool option" where
  "pair_lt a b =
     (if py_eq (fst a) (fst b)
      then (if py_eq (snd a) (snd b) then Some False else py_lt (snd a) (snd b))
      else py_lt (fst a) (fst b))"

fun all_comparable :: "(jval \<times> jval) list \<Rightarrow> bool" where
  "all_comparable [] \<longleftrightarrow> True"
| "all_comparable (k # ks) \<longleftrightarrow> list_all (\<lambda>l. pair_lt l k \<noteq> None) ks \<and> all_comparable ks"

fun insert_by :: "('a \<Rightarrow> jval \<times> jval) \<Rightarrow> 'a \<Rightarrow> 'a list \<Rightarrow> 'a list" where
  "insert_by key x [] = [x]"
| "insert_by key x (y # ys) =
     (if pair_lt (key y) (key x) = Some True then y # insert_by key x ys else x # y # ys)"

definition py_sorted :: "('a \<Rightarrow> jval \<times> jval) \<Rightarrow> 'a list \<Rightarrow> 'a list result" where
  "py_sorted key xs =
     (if all_comparable (map key xs) then Inr (foldr (insert_by key) xs [])
      else Inl (TypeError ''not supported between instances''))"

text \<open>\<open>v[name]\<close>, \<open>d.get(name)\<close>, \<open>d.get(name, default)\<close>, \<open>dict(v)\<close> and \<open>{**d, **e}\<close>\<close>

definition subscript :: "jval \<Rightarrow> string \<Rightarrow> jval result" where
  "subscript v name =
     (case v of
        VObj d \<Rightarrow> (case dget d name of None \<Rightarrow> Inl (KeyError name) | Some w \<Rightarrow> Inr w)
      | _ \<Rightarrow> Inl (TypeError ''indices must be integers or slices''))"

definition get_or :: "jval \<Rightarrow> obj \<Rightarrow> string \<Rightarrow> jval" where
  "get_or w d name = (case dget d name of None \<Rightarrow> w | Some v \<Rightarrow> v)"

definition py_dict :: "jval \<Rightarrow> obj result" where
  "py_dict v =
     (case v of
        VObj d \<Rightarrow> Inr d
      | VStr s \<Rightarrow> (if s = [] then Inr [] else Inl (ValueError ''dictionary update sequence''))
      | VList xs \<Rightarrow> (if xs = [] then Inr [] else Inl (ValueError ''dictionary update sequence''))
      | _ \<Rightarrow> Inl (TypeError ''object is not iterable''))"

definition dict_update :: "obj \<Rightarrow> obj \<Rightarrow> obj" where
  "dict_update d e = fold (\<lambda>p. dset (fst p) (snd p)) e d"

text \<open>\<open>int(v)\<close>\<close>

definition py_int_of :: "jval \<Rightarrow> int result" where
  "py_int_of v =
     (case v of
        VBool b \<Rightarrow> Inr (if b then 1 else 0)
      | VInt i \<Rightarrow> Inr i
      | VNum r \<Rightarrow> Inr (if 0 \<le> r then \<lfloor>r\<rfloor> else \<lceil>r\<rceil>)
      | VStr s \<Rightarrow> (case py_int s of None \<Rightarrow> Inl (ValueError ''invalid literal for int()'') | Some i \<Rightarrow> Inr i)
      | _ \<Rightarrow> Inl (TypeError ''int() argument''))"

text \<open>Keys of the materialised dictionaries.\<close>

datatype dkey = KNull | KInt int | KNum rat | KStr string

definition number_key :: "rat \<Rightarrow> dkey" where
  "number_key r = (if r = of_int \<lfloor>r\<rfloor> then KInt \<lfloor>r\<rfloor> else KNum r)"

fun hash_key :: "jval \<Rightarrow> dkey result" where
  "hash_key VNull = Inr KNull"
| "hash_key (VBool b) = Inr (KInt (if b then 1 else 0))"
| "hash_key (VInt i) = Inr (KInt i)"
| "hash_key (VNum r) = Inr (number_key r)"
| "hash_key (VStr s) = Inr (KStr s)"
| "hash_key _ = Inl (TypeError ''unhashable type'')"

fun key_value :: "dkey \<Rightarrow> jval" where
  "key_value KNull = VNull"
| "key_value (KInt i) = VInt i"
| "key_value (KNum r) = VNum r"
| "key_value (KStr s) = VStr s"

text \<open>\<open>_canonical\<close>\<close>

lemma jval_size_obj: "p \<in> set kvs \<Longrightarrow> size (snd p) < Suc (size_list (size_prod (\<lambda>x. 0) size) kvs)"
  by (induction kvs) auto

function canonical :: "(rat \<Rightarrow> string) \<Rightarrow> jval \<Rightarrow> string" where
  "canonical fr VNull = ''null''"
| "canonical fr (VBool b) = (if b then ''true'' else ''false'')"
| "canonical fr (VInt i) = int_str i"
| "canonical fr (VNum r) = fr r"
| "canonical fr (VStr s) = json_string s"
| "canonical fr (VList xs) = ''['' @ join '','' (map (canonical fr) xs) @ '']''"
| "canonical fr (VObj kvs) =
     ''{'' @ join '','' (map (\<lambda>p. json_string (fst p) @ '':'' @ canonical fr (snd p))
       (sort_key fst kvs)) @ ''}''"
  by pat_completeness auto
termination
proof (relation "measure (size \<circ> snd)", goal_cases)
  case (3 fr kvs p)
  then have "p \<in> set kvs" by simp
  then show ?case using jval_size_obj [of p kvs] by simp
qed (auto simp: less_Suc_eq_le size_list_estimation')

text \<open>The value in the file after \<open>json.dump(\<dots>, sort_keys=True)\<close>.\<close>

function sort_members :: "jval \<Rightarrow> jval" where
  "sort_members (VList xs) = VList (map sort_members xs)"
| "sort_members (VObj kvs) = VObj (map (\<lambda>p. (fst p, sort_members (snd p))) (sort_key fst kvs))"
| "sort_members VNull = VNull"
| "sort_members (VBool b) = VBool b"
| "sort_members (VInt i) = VInt i"
| "sort_members (VNum r) = VNum r"
| "sort_members (VStr s) = VStr s"
  by pat_completeness auto
termination
proof (relation "measure size", goal_cases)
  case (3 kvs p)
  then have "p \<in> set kvs" by simp
  then show ?case using jval_size_obj [of p kvs] by simp
qed (auto simp: less_Suc_eq_le size_list_estimation')

section \<open>The replicated log\<close>

definition MAX_OPERATIONS :: nat where "MAX_OPERATIONS = 200000"

record cluster_state =
  cs_cluster_id :: string
  cs_rest :: obj
  cs_ops :: "(string, jval) dict"
  cs_disk :: "jval option"

text \<open>The dictionary \<open>_state\<close>\<close>

definition cs_document :: "cluster_state \<Rightarrow> jval" where
  "cs_document st = VObj (cs_rest st @ [(''operations'', VObj (cs_ops st))])"

definition cluster_load :: "string \<Rightarrow> jval option \<Rightarrow> cluster_state result" where
  "cluster_load cid disk =
     (case disk of
        None \<Rightarrow> Inr \<lparr>cs_cluster_id = cid, cs_rest = [(''version'', VInt 1), (''cluster_id'', VStr cid)],
                     cs_ops = [], cs_disk = None\<rparr>
      | Some (VObj data) \<Rightarrow>
          if \<not> py_eq (get_or VNull data ''version'') (VInt 1) \<or>
             \<not> py_eq (get_or VNull data ''cluster_id'') (VStr cid)
          then Inl (ValueError ''invalid replicated cluster state'')
          else
            (case get_or VNull data ''operations'' of
               VObj ops \<Rightarrow>
                 if length ops > MAX_OPERATIONS then Inl (ValueError ''invalid replicated operation log'')
                 else Inr \<lparr>cs_cluster_id = cid, cs_rest = ddel ''operations'' data, cs_ops = ops, cs_disk = disk\<rparr>
             | _ \<Rightarrow> Inl (ValueError ''invalid replicated operation log''))
      | Some _ \<Rightarrow> Inl (AttributeError ''get''))"

definition cluster_save :: "cluster_state \<Rightarrow> cluster_state" where
  "cluster_save st = st\<lparr>cs_disk := Some (sort_members (cs_document st))\<rparr>"

definition sha_text :: "(bytes \<Rightarrow> bytes) \<Rightarrow> (rat \<Rightarrow> string) \<Rightarrow> obj \<Rightarrow> string" where
  "sha_text sha fr d = hexdigest (sha (encode_ascii (canonical fr (VObj d))))"

definition operation_hash :: "(bytes \<Rightarrow> bytes) \<Rightarrow> (rat \<Rightarrow> string) \<Rightarrow> obj \<Rightarrow> string" where
  "operation_hash sha fr op = sha_text sha fr (filter (\<lambda>p. fst p \<noteq> ''operation_hash'') op)"

definition new_operation ::
    "(bytes \<Rightarrow> bytes) \<Rightarrow> (rat \<Rightarrow> string) \<Rightarrow> string \<Rightarrow> rat \<Rightarrow> string \<Rightarrow> obj \<Rightarrow> string \<Rightarrow> obj" where
  "new_operation sha fr oid now kind payload origin =
     (let op = [(''operation_id'', VStr oid), (''kind'', VStr kind), (''payload'', VObj payload),
                (''origin'', VStr origin), (''timestamp'', VNum now)]
      in dset ''operation_hash'' (VStr (operation_hash sha fr op)) op)"

definition cluster_append ::
    "(bytes \<Rightarrow> bytes) \<Rightarrow> (rat \<Rightarrow> string) \<Rightarrow> string \<Rightarrow> rat \<Rightarrow> string \<Rightarrow> obj \<Rightarrow> string \<Rightarrow> cluster_state
      \<Rightarrow> string result \<times> cluster_state" where
  "cluster_append sha fr oid now kind payload origin st =
     (if kind = [] \<or> origin = [] then (Inl (ValueError ''operation kind, payload, and origin are required''), st)
      else if length (cs_ops st) \<ge> MAX_OPERATIONS
        then (Inl (RuntimeError ''replicated state operation limit reached''), st)
      else (Inr oid, cluster_save (st\<lparr>cs_ops :=
             dset oid (VObj (new_operation sha fr oid now kind payload origin)) (cs_ops st)\<rparr>)))"

text \<open>The checks \<open>merge\<close> makes on an operation it does not know yet.\<close>

definition check_operation :: "(bytes \<Rightarrow> bytes) \<Rightarrow> (rat \<Rightarrow> string) \<Rightarrow> string \<Rightarrow> jval \<Rightarrow> unit result" where
  "check_operation sha fr oid v =
     (case v of
        VObj op \<Rightarrow>
          if \<not> py_eq (get_or VNull op ''operation_id'') (VStr oid)
          then Inl (ValueError ''operation identity mismatch'')
          else if \<not> py_eq (get_or VNull op ''operation_hash'') (VStr (operation_hash sha fr op))
          then Inl (ValueError ''operation integrity check failed'')
          else (case get_or VNull op ''payload'' of
                  VObj _ \<Rightarrow> Inr ()
                | _ \<Rightarrow> Inl (ValueError ''operation payload must be an object''))
      | _ \<Rightarrow> Inl (ValueError ''operation identity mismatch''))"

text \<open>The loop of \<open>merge\<close>: the outcome and the operations added so far.\<close>

fun merge_operations ::
    "(bytes \<Rightarrow> bytes) \<Rightarrow> (rat \<Rightarrow> string) \<Rightarrow> (string \<times> jval) list \<Rightarrow> nat \<Rightarrow> (string, jval) dict
      \<Rightarrow> nat result \<times> (string, jval) dict" where
  "merge_operations sha fr [] added ops = (Inr added, ops)"
| "merge_operations sha fr ((oid, v) # rest) added ops =
     (if oid \<in> dkeys ops then merge_operations sha fr rest added ops
      else (case check_operation sha fr oid v of
              Inl e \<Rightarrow> (Inl e, ops)
            | Inr _ \<Rightarrow> merge_operations sha fr rest (Suc added) (dset oid v ops)))"

definition cluster_merge ::
    "(bytes \<Rightarrow> bytes) \<Rightarrow> (rat \<Rightarrow> string) \<Rightarrow> obj \<Rightarrow> cluster_state \<Rightarrow> nat result \<times> cluster_state" where
  "cluster_merge sha fr snap st =
     (if \<not> py_eq (get_or VNull snap ''version'') (VInt 1) \<or>
         \<not> py_eq (get_or VNull snap ''cluster_id'') (VStr (cs_cluster_id st))
      then (Inl (ValueError ''snapshot belongs to another cluster or version''), st)
      else
        (case get_or VNull snap ''operations'' of
           VObj others \<Rightarrow>
             if length others > MAX_OPERATIONS then (Inl (ValueError ''invalid cluster snapshot''), st)
             else
               (case merge_operations sha fr others 0 (cs_ops st) of
                  (Inl e, ops) \<Rightarrow> (Inl e, st\<lparr>cs_ops := ops\<rparr>)
                | (Inr n, ops) \<Rightarrow>
                    (Inr n, if n \<noteq> 0 then cluster_save (st\<lparr>cs_ops := ops\<rparr>) else st\<lparr>cs_ops := ops\<rparr>))
         | _ \<Rightarrow> (Inl (ValueError ''invalid cluster snapshot''), st)))"

definition cluster_snapshot :: "cluster_state \<Rightarrow> obj" where
  "cluster_snapshot st = cs_rest st @ [(''operations'', VObj (cs_ops st))]"

section \<open>Replaying the log\<close>

fun operation_keys :: "jval list \<Rightarrow> (jval \<times> jval) list result" where
  "operation_keys [] = Inr []"
| "operation_keys (v # vs) =
     rbind (subscript v ''timestamp'') (\<lambda>t.
     rbind (subscript v ''operation_id'') (\<lambda>i.
     rbind (operation_keys vs) (\<lambda>ks. Inr ((t, i) # ks))))"

definition ordered_operations :: "cluster_state \<Rightarrow> jval list result" where
  "ordered_operations st =
     (let vs = map snd (cs_ops st) in
      rbind (operation_keys vs) (\<lambda>ks.
      rbind (py_sorted fst (zip ks vs)) (\<lambda>ps. Inr (map snd ps))))"

record queue_view =
  q_queued :: "(dkey, obj) dict"
  q_running :: "(dkey, obj) dict"
  q_completed :: "(dkey, obj) dict"
  q_failed :: "(dkey, obj) dict"
  q_contributions :: "(dkey, obj) dict"

definition empty_view :: queue_view where
  "empty_view = \<lparr>q_queued = [], q_running = [], q_completed = [], q_failed = [], q_contributions = []\<rparr>"

definition lease_matches :: "obj \<Rightarrow> jval \<Rightarrow> bool" where
  "lease_matches rec lid =
     (let expected = get_or VNull rec ''lease_id'' in
      if truthy expected then py_eq lid expected else lid = VNull \<or> lid = VStr [])"

definition replay_submit :: "jval \<Rightarrow> obj \<Rightarrow> queue_view \<Rightarrow> queue_view result" where
  "replay_submit tid payload q =
     rbind (subscript (VObj payload) ''task'') (\<lambda>t.
     rbind (py_dict t) (\<lambda>d.
     rbind (hash_key tid) (\<lambda>k. Inr (q\<lparr>q_queued := dset k d (q_queued q)\<rparr>))))"

definition replay_claim :: "jval \<Rightarrow> obj \<Rightarrow> queue_view \<Rightarrow> queue_view result" where
  "replay_claim tid payload q =
     rbind (hash_key tid) (\<lambda>k.
       case dget (q_queued q) k of
         None \<Rightarrow> Inr q
       | Some t \<Rightarrow>
           rbind (subscript (VObj payload) ''worker_id'') (\<lambda>w.
           rbind (subscript (VObj payload) ''lease_id'') (\<lambda>l.
           rbind (subscript (VObj payload) ''lease_until'') (\<lambda>u.
             Inr (q\<lparr>q_queued := ddel k (q_queued q),
                    q_running := dset k [(''task'', VObj t), (''worker_id'', w), (''lease_id'', l),
                                         (''lease_until'', u)] (q_running q)\<rparr>)))))"

text \<open>The guard shared by the three ways a lease ends; \<open>f\<close> receives the key and the record.\<close>

definition replay_end :: "jval \<Rightarrow> obj \<Rightarrow> (dkey \<Rightarrow> obj \<Rightarrow> queue_view result) \<Rightarrow> queue_view \<Rightarrow> queue_view result" where
  "replay_end tid payload f q =
     rbind (hash_key tid) (\<lambda>k.
       case dget (q_running q) k of
         None \<Rightarrow> Inr q
       | Some rec \<Rightarrow> if lease_matches rec (get_or VNull payload ''lease_id'') then f k rec else Inr q)"

definition replay_release :: "jval \<Rightarrow> obj \<Rightarrow> queue_view \<Rightarrow> queue_view result" where
  "replay_release tid payload q = replay_end tid payload
     (\<lambda>k rec. rbind (subscript (VObj rec) ''task'') (\<lambda>t. rbind (py_dict t) (\<lambda>d.
        Inr (q\<lparr>q_running := ddel k (q_running q), q_queued := dset k d (q_queued q)\<rparr>)))) q"

definition replay_complete :: "jval \<Rightarrow> obj \<Rightarrow> queue_view \<Rightarrow> queue_view result" where
  "replay_complete tid payload q = replay_end tid payload
     (\<lambda>k rec. Inr (q\<lparr>q_running := ddel k (q_running q),
        q_completed := dset k (dict_update rec payload) (q_completed q),
        q_queued := ddel k (q_queued q)\<rparr>)) q"

definition replay_fail :: "jval \<Rightarrow> obj \<Rightarrow> queue_view \<Rightarrow> queue_view result" where
  "replay_fail tid payload q = replay_end tid payload
     (\<lambda>k rec. Inr (q\<lparr>q_running := ddel k (q_running q),
        q_failed := dset k (dict_update rec payload) (q_failed q),
        q_queued := ddel k (q_queued q)\<rparr>)) q"

definition replay_contribution :: "jval \<Rightarrow> obj \<Rightarrow> queue_view \<Rightarrow> queue_view result" where
  "replay_contribution op payload q =
     (let given = get_or VNull payload ''contribution_id'' in
      rbind (if truthy given then Inr given else subscript op ''operation_id'') (\<lambda>c.
      rbind (hash_key c) (\<lambda>k.
        Inr (q\<lparr>q_contributions := dset k payload (q_contributions q)\<rparr>))))"

text \<open>The body of the loop of \<open>materialized\<close>\<close>

definition apply_operation :: "jval \<Rightarrow> queue_view \<Rightarrow> queue_view result" where
  "apply_operation op q =
     rbind (subscript op ''kind'') (\<lambda>kind.
     rbind (subscript op ''payload'') (\<lambda>pv.
       case pv of
         VObj payload \<Rightarrow>
           (let tid = get_or VNull payload ''task_id'' in
            if kind = VStr ''task_submit'' \<and> truthy tid then replay_submit tid payload q
            else if kind = VStr ''lease_claim'' \<and> truthy tid then replay_claim tid payload q
            else if kind = VStr ''lease_release'' \<and> truthy tid then replay_release tid payload q
            else if kind = VStr ''task_complete'' \<and> truthy tid then replay_complete tid payload q
            else if kind = VStr ''task_fail'' \<and> truthy tid then replay_fail tid payload q
            else if kind = VStr ''contribution'' then replay_contribution op payload q
            else Inr q)
       | _ \<Rightarrow> Inl (AttributeError ''get'')))"

fun replay :: "jval list \<Rightarrow> queue_view \<Rightarrow> queue_view result" where
  "replay [] q = Inr q"
| "replay (op # ops) q = rbind (apply_operation op q) (replay ops)"

definition materialized :: "cluster_state \<Rightarrow> queue_view result" where
  "materialized st = rbind (ordered_operations st) (\<lambda>ops. replay ops empty_view)"

section \<open>Task operations\<close>

definition require_live_lease :: "string \<Rightarrow> string \<Rightarrow> cluster_state \<Rightarrow> unit result" where
  "require_live_lease tid lid st =
     rbind (materialized st) (\<lambda>q.
       case dget (q_running q) (KStr tid) of
         None \<Rightarrow> Inl (ValueError ''stale or invalid lease'')
       | Some rec \<Rightarrow> raise_if (\<not> lease_matches rec (VStr lid)) (ValueError ''stale or invalid lease''))"

definition queue_task ::
    "(bytes \<Rightarrow> bytes) \<Rightarrow> (rat \<Rightarrow> string) \<Rightarrow> string \<Rightarrow> rat \<Rightarrow> obj \<Rightarrow> string \<Rightarrow> cluster_state
      \<Rightarrow> string result \<times> cluster_state" where
  "queue_task sha fr oid now task origin st =
     (let tid = get_or VNull task ''task_id'' in
      if \<not> truthy tid then (Inl (ValueError ''task must contain task_id''), st)
      else cluster_append sha fr oid now ''task_submit'' [(''task_id'', tid), (''task'', VObj task)] origin st)"

fun first_fitting :: "int \<Rightarrow> int \<Rightarrow> (dkey \<times> obj) list \<Rightarrow> (dkey \<times> obj) option result" where
  "first_fitting avail cpus [] = Inr None"
| "first_fitting avail cpus ((k, task) # rest) =
     rbind (py_int_of (get_or (VInt 0) task ''memory_mb'')) (\<lambda>m.
       if m > avail then first_fitting avail cpus rest
       else rbind (py_int_of (get_or (VInt 1) task ''threads'')) (\<lambda>n.
         if n > max 1 cpus then first_fitting avail cpus rest else Inr (Some (k, task))))"

definition claim_payload :: "dkey \<Rightarrow> string \<Rightarrow> string \<Rightarrow> rat \<Rightarrow> obj" where
  "claim_payload k wid lid until =
     [(''task_id'', key_value k), (''worker_id'', VStr wid), (''lease_id'', VStr lid), (''lease_until'', VNum until)]"

definition claim_task ::
    "(bytes \<Rightarrow> bytes) \<Rightarrow> (rat \<Rightarrow> string) \<Rightarrow> (rat \<Rightarrow> rat) \<Rightarrow> string \<Rightarrow> string \<Rightarrow> rat \<Rightarrow> rat \<Rightarrow> string \<Rightarrow> string
      \<Rightarrow> int \<Rightarrow> int \<Rightarrow> int \<Rightarrow> cluster_state \<Rightarrow> obj option result \<times> cluster_state" where
  "claim_task sha fr fl lid oid now now' wid origin avail cpus lease_seconds st =
     (case rbind (materialized st) (\<lambda>q.
             rbind (py_sorted (\<lambda>p. (get_or (VInt 0) (snd p) ''created_at'', key_value (fst p))) (q_queued q))
               (first_fitting avail cpus)) of
        Inl e \<Rightarrow> (Inl e, st)
      | Inr None \<Rightarrow> (Inr None, st)
      | Inr (Some (k, task)) \<Rightarrow>
          (let lease = claim_payload k wid lid (fl (now + of_int (max 1 lease_seconds))) in
           (case cluster_append sha fr oid now' ''lease_claim'' lease origin st of
              (Inl e, st') \<Rightarrow> (Inl e, st')
            | (Inr _, st') \<Rightarrow> (Inr (Some ((''task'', VObj task) # lease)), st'))))"

definition release_task ::
    "(bytes \<Rightarrow> bytes) \<Rightarrow> (rat \<Rightarrow> string) \<Rightarrow> string \<Rightarrow> rat \<Rightarrow> string \<Rightarrow> string \<Rightarrow> string \<Rightarrow> string \<Rightarrow> cluster_state
      \<Rightarrow> string result \<times> cluster_state" where
  "release_task sha fr oid now tid lid reason origin st =
     (case require_live_lease tid lid st of
        Inl e \<Rightarrow> (Inl e, st)
      | Inr _ \<Rightarrow> cluster_append sha fr oid now ''lease_release''
          [(''task_id'', VStr tid), (''lease_id'', VStr lid), (''reason'', VStr reason)] origin st)"

definition completion_payload :: "string \<Rightarrow> string \<Rightarrow> obj \<Rightarrow> string \<Rightarrow> obj" where
  "completion_payload tid lid res verification =
     [(''task_id'', VStr tid), (''lease_id'', VStr lid), (''result'', VObj res), (''verification_result'', VStr verification)]"

definition complete_task ::
    "(bytes \<Rightarrow> bytes) \<Rightarrow> (rat \<Rightarrow> string) \<Rightarrow> string \<Rightarrow> rat \<Rightarrow> string \<Rightarrow> string \<Rightarrow> obj \<Rightarrow> string \<Rightarrow> string \<Rightarrow> cluster_state
      \<Rightarrow> string result \<times> cluster_state" where
  "complete_task sha fr oid now tid lid res verification origin st =
     (if length (encode_ascii (canonical fr (VObj res))) > 1024 * 1024
      then (Inl (ValueError ''task result exceeds maximum size''), st)
      else
        (case require_live_lease tid lid st of
           Inl e \<Rightarrow> (Inl e, st)
         | Inr _ \<Rightarrow> cluster_append sha fr oid now ''task_complete''
             (completion_payload tid lid res verification) origin st))"

definition fail_task ::
    "(bytes \<Rightarrow> bytes) \<Rightarrow> (rat \<Rightarrow> string) \<Rightarrow> string \<Rightarrow> rat \<Rightarrow> string \<Rightarrow> string \<Rightarrow> string \<Rightarrow> string \<Rightarrow> cluster_state
      \<Rightarrow> string result \<times> cluster_state" where
  "fail_task sha fr oid now tid lid err origin st =
     (case require_live_lease tid lid st of
        Inl e \<Rightarrow> (Inl e, st)
      | Inr _ \<Rightarrow> cluster_append sha fr oid now ''task_fail''
          [(''task_id'', VStr tid), (''lease_id'', VStr lid), (''error'', VStr err)] origin st)"

record contribution_entry =
  ce_node_id :: string
  ce_workload_id :: string
  ce_cpu_time_seconds :: rat
  ce_ram_time_mb_seconds :: rat
  ce_task_class :: string
  ce_verification_result :: string
  ce_completed_work :: int
  ce_karma_impact :: int
  ce_timestamp :: rat

definition contribution_dict :: "contribution_entry \<Rightarrow> obj" where
  "contribution_dict c =
     [(''node_id'', VStr (ce_node_id c)), (''workload_id'', VStr (ce_workload_id c)),
      (''cpu_time_seconds'', VNum (ce_cpu_time_seconds c)), (''ram_time_mb_seconds'', VNum (ce_ram_time_mb_seconds c)),
      (''task_class'', VStr (ce_task_class c)), (''verification_result'', VStr (ce_verification_result c)),
      (''completed_work'', VInt (ce_completed_work c)), (''karma_impact'', VInt (ce_karma_impact c)),
      (''timestamp'', VNum (ce_timestamp c))]"

definition cluster_record_contribution ::
    "(bytes \<Rightarrow> bytes) \<Rightarrow> (rat \<Rightarrow> string) \<Rightarrow> string \<Rightarrow> rat \<Rightarrow> contribution_entry \<Rightarrow> string \<Rightarrow> cluster_state
      \<Rightarrow> string result \<times> cluster_state" where
  "cluster_record_contribution sha fr oid now c origin st =
     (let payload = contribution_dict c in
      cluster_append sha fr oid now ''contribution''
        (dset ''contribution_id'' (VStr (sha_text sha fr payload)) payload) origin st)"

section \<open>The runtime\<close>

record cluster_runtime =
  rt_node_id :: string
  rt_cluster_id :: string
  rt_karma :: karma_system
  rt_state :: cluster_state

definition runtime_init ::
    "string \<Rightarrow> string \<Rightarrow> (karma_core \<times> rat) option \<Rightarrow> jval option \<Rightarrow> cluster_runtime result" where
  "runtime_init nid cid karma_disk state_disk =
     rbind (cluster_load cid state_disk) (\<lambda>st.
       Inr \<lparr>rt_node_id = nid, rt_cluster_id = cid, rt_karma = karma_load karma_disk, rt_state = st\<rparr>)"

definition runtime_join :: "rat \<Rightarrow> cluster_runtime \<Rightarrow> bool \<times> cluster_runtime" where
  "runtime_join now rt =
     (case join_cluster now (rt_node_id rt) (rt_cluster_id rt) (rt_karma rt) of
        (ok, k) \<Rightarrow> (ok, rt\<lparr>rt_karma := k\<rparr>))"

definition master_id ::
    "(rat \<Rightarrow> rat) \<Rightarrow> (string set \<Rightarrow> string list) \<Rightarrow> rat \<Rightarrow> cluster_runtime \<Rightarrow> string option \<times> cluster_runtime" where
  "master_id fl iter now rt =
     (case elect_master_node fl iter now (rt_cluster_id rt) (rt_karma rt) of
        (m, k) \<Rightarrow> (m, rt\<lparr>rt_karma := k\<rparr>))"

definition is_master ::
    "(rat \<Rightarrow> rat) \<Rightarrow> (string set \<Rightarrow> string list) \<Rightarrow> rat \<Rightarrow> cluster_runtime \<Rightarrow> bool \<times> cluster_runtime" where
  "is_master fl iter now rt = (case master_id fl iter now rt of (m, rt') \<Rightarrow> (m = Some (rt_node_id rt), rt'))"

definition runtime_cluster_info ::
    "(rat \<Rightarrow> rat) \<Rightarrow> (string set \<Rightarrow> string list) \<Rightarrow> rat \<Rightarrow> cluster_runtime
      \<Rightarrow> (cluster_info \<times> string option \<times> queue_view) result \<times> cluster_runtime" where
  "runtime_cluster_info fl iter now rt =
     (case get_cluster_info fl iter now (rt_cluster_id rt) (rt_karma rt) of
        (info, k) \<Rightarrow>
          (case master_id fl iter now (rt\<lparr>rt_karma := k\<rparr>) of
             (m, rt') \<Rightarrow> (rbind (materialized (rt_state rt')) (\<lambda>q. Inr (info, m, q)), rt')))"

definition merge_peer_state ::
    "(bytes \<Rightarrow> bytes) \<Rightarrow> (rat \<Rightarrow> string) \<Rightarrow> obj \<Rightarrow> cluster_runtime \<Rightarrow> nat result \<times> cluster_runtime" where
  "merge_peer_state sha fr snap rt =
     (case cluster_merge sha fr snap (rt_state rt) of (r, st) \<Rightarrow> (r, rt\<lparr>rt_state := st\<rparr>))"

section \<open>Stamped operations\<close>

text \<open>
  The operations the code itself creates carry a numeric timestamp; the log is then replayed in the
  order of the pairs (timestamp, operation id).
\<close>

definition op_stamp :: "jval \<Rightarrow> rat \<times> string" where
  "op_stamp v =
     (case v of
        VObj op \<Rightarrow> (case number_of (get_or VNull op ''timestamp'') of None \<Rightarrow> 0 | Some r \<Rightarrow> r,
                    case get_or VNull op ''operation_id'' of VStr s \<Rightarrow> s | _ \<Rightarrow> [])
      | _ \<Rightarrow> (0, []))"

definition stamped :: "string \<times> jval \<Rightarrow> bool" where
  "stamped p \<longleftrightarrow>
     (case snd p of
        VObj op \<Rightarrow> number_of (get_or VNull op ''timestamp'') \<noteq> None \<and>
                   get_or VNull op ''operation_id'' = VStr (fst p)
      | _ \<Rightarrow> False)"

definition all_stamped :: "cluster_state \<Rightarrow> bool" where
  "all_stamped st \<longleftrightarrow> list_all stamped (cs_ops st) \<and> dict_ok (cs_ops st)"

lemma get_or_subscript: "subscript (VObj d) name = Inr v \<longleftrightarrow> dget d name = Some v"
  by (simp add: subscript_def split: option.splits)

lemma number_of_get: "number_of (get_or VNull d name) = Some r \<Longrightarrow> dget d name = Some (get_or VNull d name)"
  by (simp add: get_or_def split: option.splits)

lemma string_get: "get_or VNull d name = VStr s \<Longrightarrow> dget d name = Some (VStr s)"
  by (simp add: get_or_def split: option.splits)

lemma py_eq_number: "number_of v = Some r \<Longrightarrow> py_eq v w \<longleftrightarrow> number_of w = Some r"
  by (cases v) auto

lemma py_lt_number: "number_of v = Some r \<Longrightarrow> py_lt v w = map_option ((<) r) (number_of w)"
  by (cases v) auto

lemma pair_lt_stamp:
  assumes "number_of t = Some a" "number_of u = Some b"
  shows "pair_lt (t, VStr x) (u, VStr y) = Some ((a, x) < (b, y))"
  using assms by (auto simp: pair_lt_def py_eq_number py_lt_number less_prod_def)

text \<open>On keys made of a number and a string the sort is the library's stable sort.\<close>

definition key_stamp :: "jval \<times> jval \<Rightarrow> rat \<times> string \<Rightarrow> bool" where
  "key_stamp k s \<longleftrightarrow> number_of (fst k) = Some (fst s) \<and> snd k = VStr (snd s)"

lemma pair_lt_key_stamp:
  assumes "key_stamp k s" "key_stamp l t"
  shows "pair_lt k l = Some (s < t)"
proof -
  have "k = (fst k, VStr (snd s))" "l = (fst l, VStr (snd t))"
    using assms by (auto simp: key_stamp_def prod_eq_iff)
  moreover have "pair_lt (fst k, VStr (snd s)) (fst l, VStr (snd t)) = Some ((fst s, snd s) < (fst t, snd t))"
    using assms by (intro pair_lt_stamp) (simp_all add: key_stamp_def)
  ultimately show ?thesis by (metis prod.collapse)
qed

lemma insert_by_insort:
  assumes "key_stamp (key x) (f x)" "\<And>y. y \<in> set ys \<Longrightarrow> key_stamp (key y) (f y)"
  shows "insert_by key x ys = insort_key f x ys"
  using assms
proof (induction ys)
  case (Cons y ys)
  then have "pair_lt (key y) (key x) = Some (f y < f x)"
    by (intro pair_lt_key_stamp) simp_all
  with Cons show ?case by (auto simp: not_le)
qed simp

lemma py_sorted_sort_key:
  assumes "\<And>x. x \<in> set xs \<Longrightarrow> key_stamp (key x) (f x)"
  shows "py_sorted key xs = Inr (sort_key f xs)"
proof -
  have "all_comparable (map key xs)"
    using assms
  proof (induction xs)
    case (Cons x xs)
    then have "pair_lt (key y) (key x) = Some (f y < f x)" if "y \<in> set xs" for y
      using that by (intro pair_lt_key_stamp) simp_all
    with Cons show ?case by (simp add: list_all_iff)
  qed simp
  moreover have "foldr (insert_by key) xs [] = sort_key f xs"
    using assms
  proof (induction xs)
    case (Cons x xs)
    then have "insert_by key x (sort_key f xs) = insort_key f x (sort_key f xs)"
      by (intro insert_by_insort) simp_all
    with Cons show ?case by simp
  qed simp
  ultimately show ?thesis by (simp add: py_sorted_def)
qed

definition op_key :: "jval \<Rightarrow> jval \<times> jval" where
  "op_key v = (case v of VObj op \<Rightarrow> (get_or VNull op ''timestamp'', get_or VNull op ''operation_id'') | _ \<Rightarrow> (VNull, VNull))"

lemma stampedE:
  assumes "stamped p"
  obtains op r where "snd p = VObj op" "number_of (get_or VNull op ''timestamp'') = Some r"
    "get_or VNull op ''operation_id'' = VStr (fst p)"
  using assms by (auto simp: stamped_def split: jval.splits)

lemma op_stamp_snd: "stamped p \<Longrightarrow> snd (op_stamp (snd p)) = fst p"
  by (erule stampedE) (simp add: op_stamp_def)

lemma op_key_stamp: "stamped p \<Longrightarrow> key_stamp (op_key (snd p)) (op_stamp (snd p))"
  by (erule stampedE) (simp add: op_key_def op_stamp_def key_stamp_def)

lemma operation_keys_stamped:
  "list_all stamped ps \<Longrightarrow> operation_keys (map snd ps) = Inr (map op_key (map snd ps))"
proof (induction ps)
  case (Cons p ps)
  then obtain op r where "snd p = VObj op" "number_of (get_or VNull op ''timestamp'') = Some r"
      "get_or VNull op ''operation_id'' = VStr (fst p)"
    by (auto elim: stampedE)
  with Cons show ?case
    by (auto simp: subscript_def op_key_def dest!: number_of_get string_get)
qed simp

theorem ordered_operations_stamped:
  assumes "all_stamped st"
  shows "ordered_operations st = Inr (sort_key op_stamp (map snd (cs_ops st)))"
proof -
  let ?vs = "map snd (cs_ops st)"
  let ?h = "\<lambda>v. (op_key v, v)"
  have z: "zip (map op_key ?vs) ?vs = map ?h ?vs"
    using zip_map1 [of op_key ?vs ?vs] by (simp add: zip_same_conv_map)
  have "key_stamp (fst x) ((op_stamp \<circ> snd) x)" if "x \<in> set (map ?h ?vs)" for x
    using that assms by (auto simp: all_stamped_def list_all_iff dest!: op_key_stamp)
  then have "py_sorted fst (map ?h ?vs) = Inr (sort_key (op_stamp \<circ> snd) (map ?h ?vs))"
    by (rule py_sorted_sort_key)
  also have "sort_key (op_stamp \<circ> snd) (map ?h ?vs) = map ?h (sort_key op_stamp ?vs)"
    by (rule sort_key_map) simp
  finally have s: "py_sorted fst (map ?h ?vs) = Inr (map ?h (sort_key op_stamp ?vs))" .
  have "operation_keys ?vs = Inr (map op_key ?vs)"
    using assms by (intro operation_keys_stamped) (simp add: all_stamped_def)
  then show ?thesis
    unfolding ordered_operations_def Let_def by (simp only: z s rbind_simps) (simp add: comp_def)
qed

lemma stamped_distinct:
  assumes "all_stamped st"
  shows "distinct (map snd (cs_ops st))" "inj_on op_stamp (set (map snd (cs_ops st)))"
proof -
  have st: "stamped p" if "p \<in> set (cs_ops st)" for p
    using that assms by (auto simp: all_stamped_def list_all_iff)
  have d: "distinct (map fst (cs_ops st))"
    using assms by (simp add: all_stamped_def dict_ok_def)
  have inj: "p = q" if "p \<in> set (cs_ops st)" "q \<in> set (cs_ops st)" "op_stamp (snd p) = op_stamp (snd q)" for p q
  proof -
    have "fst p = fst q"
      using op_stamp_snd [OF st [OF that(1)]] op_stamp_snd [OF st [OF that(2)]] that(3) by simp
    with d that(1,2) show ?thesis by (metis eq_key_imp_eq_value prod.collapse)
  qed
  show "inj_on op_stamp (set (map snd (cs_ops st)))"
    by (rule inj_onI) (use inj in auto)
  have "inj_on snd (set (cs_ops st))"
    by (rule inj_onI) (use inj in auto)
  moreover have "distinct (cs_ops st)"
    using d by (simp add: distinct_map)
  ultimately show "distinct (map snd (cs_ops st))"
    by (simp add: distinct_map)
qed

text \<open>The replayed view depends only on which operations the log holds.\<close>

lemma materialized_same_operations:
  assumes "all_stamped a" "all_stamped b" "set (cs_ops a) = set (cs_ops b)"
  shows "materialized a = materialized b"
proof -
  let ?va = "map snd (cs_ops a)" and ?vb = "map snd (cs_ops b)"
  have "set ?va = set ?vb"
    using assms(3) by simp
  then have "mset ?va = mset ?vb"
    using stamped_distinct(1) [OF assms(1)] stamped_distinct(1) [OF assms(2)] set_eq_iff_mset_eq_distinct by blast
  then have "mset ?va = mset (sort_key op_stamp ?vb)"
    by simp
  then have "sort_key op_stamp ?va = sort_key op_stamp ?vb"
    by (rule sort_key_inj_key_eq [OF _ stamped_distinct(2) [OF assms(1)]]) simp
  then show ?thesis
    by (simp add: materialized_def ordered_operations_stamped assms(1,2))
qed

section \<open>Merging\<close>

definition valid_operation :: "(bytes \<Rightarrow> bytes) \<Rightarrow> (rat \<Rightarrow> string) \<Rightarrow> string \<times> jval \<Rightarrow> bool" where
  "valid_operation sha fr p \<longleftrightarrow> check_operation sha fr (fst p) (snd p) = Inr () \<and> stamped p"

text \<open>A replica whose log holds only operations that pass the checks and carry timestamps.\<close>

definition replica_ok :: "(bytes \<Rightarrow> bytes) \<Rightarrow> (rat \<Rightarrow> string) \<Rightarrow> cluster_state \<Rightarrow> bool" where
  "replica_ok sha fr st \<longleftrightarrow>
     py_eq (get_or VNull (cs_rest st) ''version'') (VInt 1) \<and>
     get_or VNull (cs_rest st) ''cluster_id'' = VStr (cs_cluster_id st) \<and>
     ''operations'' \<notin> dkeys (cs_rest st) \<and>
     dict_ok (cs_ops st) \<and> length (cs_ops st) \<le> MAX_OPERATIONS \<and>
     list_all (valid_operation sha fr) (cs_ops st)"

text \<open>Replicas agree on the operations they share.\<close>

definition agree :: "cluster_state \<Rightarrow> cluster_state \<Rightarrow> bool" where
  "agree a b \<longleftrightarrow> list_all (\<lambda>p. case dget (cs_ops b) (fst p) of None \<Rightarrow> True | Some w \<Rightarrow> w = snd p) (cs_ops a)"

definition news :: "('k, 'v) dict \<Rightarrow> ('k, 'v) dict \<Rightarrow> ('k, 'v) dict" where
  "news known others = filter (\<lambda>p. fst p \<notin> dkeys known) others"

lemma dset_new: "k \<notin> dkeys d \<Longrightarrow> dset k v d = d @ [(k, v)]"
  by (induction d) auto

lemma merge_operations_valid:
  assumes "list_all (valid_operation sha fr) others" "dict_ok others"
  shows "merge_operations sha fr others n ops = (Inr (n + length (news ops others)), ops @ news ops others)"
  using assms
proof (induction others arbitrary: n ops)
  case (Cons p others)
  obtain oid v where p: "p = (oid, v)" by (cases p)
  have new: "filter (\<lambda>q. fst q \<notin> dkeys (ops @ [(oid, v)])) others = filter (\<lambda>q. fst q \<notin> dkeys ops) others"
    using Cons.prems(2) by (intro filter_cong) (auto simp: p dict_ok_def)
  show ?case
    using Cons.IH [of n ops] Cons.IH [of "Suc n" "ops @ [(oid, v)]"] Cons.prems
    by (simp add: p news_def new dset_new valid_operation_def dict_ok_def del: set_append)
qed (simp add: news_def)

lemma replica_ok_stamped: "replica_ok sha fr st \<Longrightarrow> all_stamped st"
  by (auto simp: replica_ok_def all_stamped_def valid_operation_def list_all_iff)

lemma get_or_snapshot:
  assumes "''operations'' \<notin> dkeys (cs_rest st)"
  shows "get_or w (cluster_snapshot st) ''operations'' = VObj (cs_ops st)"
proof -
  have "dget (cs_rest st) ''operations'' = None"
    using assms by (simp add: dget_None_iff)
  then show ?thesis by (simp add: get_or_def cluster_snapshot_def map_add_def)
qed

lemma get_or_snapshot_rest:
  "name \<noteq> ''operations'' \<Longrightarrow> get_or w (cluster_snapshot st) name = get_or w (cs_rest st) name"
  by (auto simp: get_or_def cluster_snapshot_def map_add_def split: option.splits)

text \<open>Merging the snapshot of another replica of the same cluster adds exactly the operations that were missing.\<close>

lemma cluster_merge_replica:
  assumes "replica_ok sha fr b" "cs_cluster_id a = cs_cluster_id b"
  shows "\<exists>a'. cluster_merge sha fr (cluster_snapshot b) a = (Inr (length (news (cs_ops a) (cs_ops b))), a') \<and>
     cs_ops a' = cs_ops a @ news (cs_ops a) (cs_ops b) \<and> cs_cluster_id a' = cs_cluster_id a \<and> cs_rest a' = cs_rest a"
  using assms
  by (auto simp: cluster_merge_def replica_ok_def get_or_snapshot get_or_snapshot_rest merge_operations_valid
      cluster_save_def)

lemma list_all_news: "list_all P others \<Longrightarrow> list_all P (news known others)"
  by (auto simp: news_def list_all_iff)

lemma dict_ok_news: "dict_ok known \<Longrightarrow> dict_ok others \<Longrightarrow> dict_ok (known @ news known others)"
  by (force simp: news_def dict_ok_def distinct_map inj_on_def)

lemma set_merged:
  assumes "agree a b" "dict_ok (cs_ops b)"
  shows "set (cs_ops a @ news (cs_ops a) (cs_ops b)) = set (cs_ops a) \<union> set (cs_ops b)"
proof -
  have "p \<in> set (cs_ops a)" if p: "p \<in> set (cs_ops b)" and known: "fst p \<in> dkeys (cs_ops a)" for p
  proof -
    from known obtain v where v: "(fst p, v) \<in> set (cs_ops a)" by auto
    have "dget (cs_ops b) (fst p) = Some (snd p)"
      using p assms(2) by (simp add: dget_in_set)
    then have "v = snd p"
      using v assms(1) by (auto simp: agree_def list_all_iff)
    with v show ?thesis by simp
  qed
  then show ?thesis by (auto simp: news_def)
qed

lemma news_none: "set others \<subseteq> set known \<Longrightarrow> news known others = []"
  by (force simp: news_def filter_empty_conv)

text \<open>Replicas of the cluster \<open>c\<close> whose operations come from \<open>U\<close>.\<close>

definition replica_of ::
  "(bytes \<Rightarrow> bytes) \<Rightarrow> (rat \<Rightarrow> string) \<Rightarrow> string \<Rightarrow> (string \<times> jval) set \<Rightarrow> cluster_state \<Rightarrow> bool" where
  "replica_of sha fr c U st \<longleftrightarrow> replica_ok sha fr st \<and> cs_cluster_id st = c \<and> set (cs_ops st) \<subseteq> U"

lemma inj_agree:
  assumes "inj_on fst U" "set (cs_ops a) \<subseteq> U" "set (cs_ops b) \<subseteq> U"
  shows "agree a b"
proof -
  have "w = snd p" if "p \<in> set (cs_ops a)" "dget (cs_ops b) (fst p) = Some w" for p w
  proof -
    have "(fst p, w) \<in> set (cs_ops b)"
      using that(2) by (rule map_of_SomeD)
    then have "(fst p, w) = p"
      using assms that(1) by (intro inj_onD [OF assms(1)]) auto
    then show ?thesis by (metis snd_conv)
  qed
  then show ?thesis
    by (auto simp: agree_def list_all_iff split: option.splits)
qed

lemma agree_inj:
  assumes "\<And>a b. a \<in> R \<Longrightarrow> b \<in> R \<Longrightarrow> agree a b" "\<And>a. a \<in> R \<Longrightarrow> dict_ok (cs_ops a)"
  shows "inj_on fst (\<Union>a\<in>R. set (cs_ops a))"
proof (rule inj_onI)
  fix p q assume "p \<in> (\<Union>a\<in>R. set (cs_ops a))" "q \<in> (\<Union>a\<in>R. set (cs_ops a))" and eq: "fst p = fst q"
  then obtain a b where ab: "a \<in> R" "p \<in> set (cs_ops a)" "b \<in> R" "q \<in> set (cs_ops b)" by auto
  have "dget (cs_ops b) (fst q) = Some (snd q)"
    using ab(3,4) assms(2) by (simp add: dget_in_set)
  then have "snd p = snd q"
    using assms(1) [OF ab(1,3)] ab(2) eq by (auto simp: agree_def list_all_iff)
  with eq show "p = q" by (simp add: prod_eq_iff)
qed

lemma merge_replica_of:
  assumes a: "replica_of sha fr c U a" and b: "replica_of sha fr c U b"
    and U: "inj_on fst U" "finite U" "card U \<le> MAX_OPERATIONS"
  shows "\<exists>n a'. cluster_merge sha fr (cluster_snapshot b) a = (Inr n, a') \<and>
     set (cs_ops a') = set (cs_ops a) \<union> set (cs_ops b) \<and> replica_of sha fr c U a'"
proof -
  have ok: "replica_ok sha fr a" "replica_ok sha fr b" "dict_ok (cs_ops a)" "dict_ok (cs_ops b)"
    and id: "cs_cluster_id a = cs_cluster_id b" and sub: "set (cs_ops a) \<subseteq> U" "set (cs_ops b) \<subseteq> U"
    using a b by (simp_all add: replica_of_def replica_ok_def)
  obtain a' where a': "cluster_merge sha fr (cluster_snapshot b) a = (Inr (length (news (cs_ops a) (cs_ops b))), a')"
      "cs_ops a' = cs_ops a @ news (cs_ops a) (cs_ops b)" "cs_cluster_id a' = cs_cluster_id a" "cs_rest a' = cs_rest a"
    using cluster_merge_replica [OF ok(2) id] by blast
  have set': "set (cs_ops a') = set (cs_ops a) \<union> set (cs_ops b)"
    using set_merged [OF inj_agree [OF U(1) sub] ok(4)] a'(2) by simp
  have dict: "dict_ok (cs_ops a')"
    using dict_ok_news ok(3,4) a'(2) by simp
  then have "length (cs_ops a') = card (set (cs_ops a'))"
    by (simp add: dict_ok_def distinct_map distinct_card)
  also have "\<dots> \<le> MAX_OPERATIONS"
    using card_mono [OF U(2), of "set (cs_ops a')"] sub set' U(3) by simp
  finally have "replica_ok sha fr a'"
    using ok dict a'(2-4) by (simp add: replica_ok_def list_all_news)
  then have "replica_of sha fr c U a'"
    using a sub set' a'(3) by (simp add: replica_of_def)
  with a'(1) set' show ?thesis by blast
qed

text \<open>
  A history of merges over the replicas of a cluster: in the step \<open>(i, j)\<close> replica \<open>i\<close> merges the
  snapshot replica \<open>j\<close> has at that moment. \<open>heard\<close> collects from which replicas an operation can have
  reached replica \<open>i\<close>, directly or through others.
\<close>

fun gossip ::
  "(bytes \<Rightarrow> bytes) \<Rightarrow> (rat \<Rightarrow> string) \<Rightarrow> (nat \<times> nat) list \<Rightarrow> cluster_state list \<Rightarrow> cluster_state list result" where
  "gossip sha fr [] sts = Inr sts"
| "gossip sha fr ((i, j) # es) sts = (case cluster_merge sha fr (cluster_snapshot (sts ! j)) (sts ! i) of
     (Inl e, _) \<Rightarrow> Inl e | (Inr _, st) \<Rightarrow> gossip sha fr es (sts[i := st]))"

fun heard :: "(nat \<times> nat) list \<Rightarrow> (nat \<Rightarrow> nat set) \<Rightarrow> nat \<Rightarrow> nat set" where
  "heard [] h = h"
| "heard ((i, j) # es) h = heard es (h(i := h i \<union> h j))"

lemma gossip_heard:
  assumes U: "inj_on fst U" "finite U" "card U \<le> MAX_OPERATIONS"
    and "list_all (replica_of sha fr c U) sts"
    and "list_all (\<lambda>(i, j). i < length sts \<and> j < length sts) es"
    and "\<And>i. i < length sts \<Longrightarrow> set (cs_ops (sts ! i)) = (\<Union>k\<in>h i. orig k)"
  shows "\<exists>sts'. gossip sha fr es sts = Inr sts' \<and> length sts' = length sts \<and> list_all (replica_of sha fr c U) sts' \<and>
     (\<forall>i<length sts. set (cs_ops (sts' ! i)) = (\<Union>k\<in>heard es h i. orig k))"
  using assms(4-6)
proof (induction es arbitrary: sts h)
  case (Cons e es)
  obtain i j where e: "e = (i, j)" by (cases e)
  then have lt: "i < length sts" "j < length sts" using Cons.prems(2) by simp_all
  then obtain n st where st: "cluster_merge sha fr (cluster_snapshot (sts ! j)) (sts ! i) = (Inr n, st)"
      "set (cs_ops st) = set (cs_ops (sts ! i)) \<union> set (cs_ops (sts ! j))" "replica_of sha fr c U st"
    using merge_replica_of [OF _ _ U] Cons.prems(1) by (metis list_all_length)
  have ok: "list_all (replica_of sha fr c U) (sts[i := st])"
    using Cons.prems(1) st(3) set_update_subset_insert [of sts i st] by (auto simp: list_all_iff)
  have es: "list_all (\<lambda>(k, l). k < length (sts[i := st]) \<and> l < length (sts[i := st])) es"
    using Cons.prems(2) by simp
  have ops: "set (cs_ops (sts[i := st] ! m)) = (\<Union>k\<in>(h(i := h i \<union> h j)) m. orig k)" if "m < length (sts[i := st])" for m
    using that lt Cons.prems(3) st(2) by (auto simp: nth_list_update)
  from Cons.IH [of "sts[i := st]" "h(i := h i \<union> h j)", OF ok es ops, unfolded length_list_update]
  obtain sts' where "gossip sha fr es (sts[i := st]) = Inr sts'" "length sts' = length sts"
      "list_all (replica_of sha fr c U) sts'"
      "\<forall>m<length sts. set (cs_ops (sts' ! m)) = (\<Union>k\<in>heard es (h(i := h i \<union> h j)) m. orig k)"
    by blast
  with st(1) show ?case by (auto simp: e)
qed simp

lemma merge_same_operations:
  assumes "replica_of sha fr c U a" "replica_of sha fr c U b" "set (cs_ops a) = set (cs_ops b)"
  shows "cluster_merge sha fr (cluster_snapshot b) a = (Inr 0, a)"
  using assms
  by (simp add: replica_of_def cluster_merge_def replica_ok_def get_or_snapshot get_or_snapshot_rest
      merge_operations_valid news_none)

text \<open>C31. Replicas converge. Take the replicas of one cluster, each with a log of at most
  \<open>MAX_OPERATIONS\<close> operations that carry a timestamp and pass the checks of \<open>merge\<close> (as what
  \<open>append\<close> writes does), such that any two agree on the content of the operation ids they share and
  all together hold at most \<open>MAX_OPERATIONS\<close> operations. Then in every sequence of merges, in
  whatever order the replicas merge each other's current snapshots, no merge fails, and each replica ends with exactly
  the operations of the replicas it has heard from, directly or through others. Two
  replicas that have heard from the same replicas hold the same operations and materialise the same queue,
  and merging once more adds nothing and changes nothing.\<close>

theorem replicas_converge:
  assumes "\<forall>a\<in>set sts. replica_ok sha fr a \<and> cs_cluster_id a = c"
    and "\<forall>a\<in>set sts. \<forall>b\<in>set sts. agree a b"
    and "card (\<Union>a\<in>set sts. set (cs_ops a)) \<le> MAX_OPERATIONS"
    and "\<forall>(i, j)\<in>set es. i < length sts \<and> j < length sts"
  shows "\<exists>sts'. gossip sha fr es sts = Inr sts' \<and> length sts' = length sts \<and>
      (\<forall>i<length sts. set (cs_ops (sts' ! i)) = (\<Union>k\<in>heard es (\<lambda>k. {k}) i. set (cs_ops (sts ! k)))) \<and>
      (\<forall>i<length sts. \<forall>j<length sts. heard es (\<lambda>k. {k}) i = heard es (\<lambda>k. {k}) j \<longrightarrow>
        set (cs_ops (sts' ! i)) = set (cs_ops (sts' ! j)) \<and> materialized (sts' ! i) = materialized (sts' ! j) \<and>
        cluster_merge sha fr (cluster_snapshot (sts' ! j)) (sts' ! i) = (Inr 0, sts' ! i))"
proof -
  let ?U = "\<Union>a\<in>set sts. set (cs_ops a)" and ?h = "heard es (\<lambda>k. {k})"
  have inj: "inj_on fst ?U"
    using assms(1,2) by (intro agree_inj) (auto simp: replica_ok_def)
  have "list_all (replica_of sha fr c ?U) sts" "list_all (\<lambda>(i, j). i < length sts \<and> j < length sts) es"
    using assms(1,4) by (auto simp: list_all_iff replica_of_def)
  from gossip_heard [OF inj _ assms(3) this, of "\<lambda>k. set (cs_ops (sts ! k))" "\<lambda>k. {k}"]
  obtain sts' where sts': "gossip sha fr es sts = Inr sts'" "length sts' = length sts"
      "list_all (replica_of sha fr c ?U) sts'"
      "\<forall>i<length sts. set (cs_ops (sts' ! i)) = (\<Union>k\<in>?h i. set (cs_ops (sts ! k)))"
    by auto
  have of: "replica_of sha fr c ?U (sts' ! i)" if "i < length sts" for i
    using that sts'(2,3) by (simp add: list_all_length)
  have "set (cs_ops (sts' ! i)) = set (cs_ops (sts' ! j)) \<and> materialized (sts' ! i) = materialized (sts' ! j) \<and>
      cluster_merge sha fr (cluster_snapshot (sts' ! j)) (sts' ! i) = (Inr 0, sts' ! i)"
    if ij: "i < length sts" "j < length sts" "?h i = ?h j" for i j
  proof -
    have eq: "set (cs_ops (sts' ! i)) = set (cs_ops (sts' ! j))"
      using sts'(4) ij by simp
    moreover have "all_stamped (sts' ! i)" "all_stamped (sts' ! j)"
      using of [OF ij(1)] of [OF ij(2)] by (auto simp: replica_of_def intro: replica_ok_stamped)
    ultimately show ?thesis
      using materialized_same_operations merge_same_operations [OF of [OF ij(1)] of [OF ij(2)] eq] by blast
  qed
  with sts' show ?thesis by blast
qed

section \<open>Appending the latest operation\<close>

text \<open>The clock of the replica is past every timestamp in its log.\<close>

definition latest :: "rat \<Rightarrow> cluster_state \<Rightarrow> bool" where
  "latest now st \<longleftrightarrow> list_all (\<lambda>p. fst (op_stamp (snd p)) < now) (cs_ops st)"

lemma replay_append: "replay (xs @ ys) q = rbind (replay xs q) (replay ys)"
  by (induction xs arbitrary: q) (auto simp: rbind_def split: sum.splits)

lemma sort_key_last:
  assumes "inj_on f (set xs)" "\<And>y. y \<in> set xs \<Longrightarrow> f y < f x"
  shows "sort_key f (xs @ [x]) = sort_key f xs @ [x]"
proof (rule sort_key_inj_key_eq)
  show "inj_on f (set (xs @ [x]))"
    using assms(1) by (auto dest: assms(2))
  show "sorted (map f (sort_key f xs @ [x]))"
    using assms(2) by (auto simp: sorted_append intro: less_imp_le)
qed simp

lemmas new_operation_get = new_operation_def Let_def get_or_def

lemma new_operation_stamp:
  "op_stamp (VObj (new_operation sha fr oid now kind payload origin)) = (now, oid)"
  by (simp add: op_stamp_def new_operation_get)

lemma new_operation_stamped: "stamped (oid, VObj (new_operation sha fr oid now kind payload origin))"
  by (simp add: stamped_def new_operation_get)

lemma new_operation_hash:
  "filter (\<lambda>p. fst p \<noteq> ''operation_hash'') (new_operation sha fr oid now kind payload origin) =
   [(''operation_id'', VStr oid), (''kind'', VStr kind), (''payload'', VObj payload),
    (''origin'', VStr origin), (''timestamp'', VNum now)]"
  by (simp add: new_operation_def Let_def)

text \<open>What a node appends passes the checks of its peers.\<close>

lemma new_operation_valid: "valid_operation sha fr (oid, VObj (new_operation sha fr oid now kind payload origin))"
  unfolding valid_operation_def check_operation_def operation_hash_def fst_conv snd_conv jval.case new_operation_hash
  using new_operation_stamped [of oid sha fr now kind payload origin]
  by (simp add: new_operation_get operation_hash_def)

lemma cluster_append_ok:
  assumes "kind \<noteq> []" "origin \<noteq> []" "length (cs_ops st) < MAX_OPERATIONS"
  shows "\<exists>st'. cluster_append sha fr oid now kind payload origin st = (Inr oid, st') \<and>
    cs_ops st' = dset oid (VObj (new_operation sha fr oid now kind payload origin)) (cs_ops st) \<and>
    cs_cluster_id st' = cs_cluster_id st \<and> cs_rest st' = cs_rest st"
  using assms by (simp add: cluster_append_def cluster_save_def)

text \<open>Appending at a time past every timestamp is one more step of the replay.\<close>

lemma append_latest:
  assumes "all_stamped st" "latest now st" "oid \<notin> dkeys (cs_ops st)" "length (cs_ops st) < MAX_OPERATIONS"
    and "kind \<noteq> []" "origin \<noteq> []"
  shows "\<exists>st'. cluster_append sha fr oid now kind payload origin st = (Inr oid, st') \<and> all_stamped st' \<and>
    cs_ops st' = cs_ops st @ [(oid, VObj (new_operation sha fr oid now kind payload origin))] \<and>
    materialized st' = rbind (materialized st) (apply_operation (VObj (new_operation sha fr oid now kind payload origin)))"
proof -
  let ?v = "VObj (new_operation sha fr oid now kind payload origin)"
  obtain st' where st': "cluster_append sha fr oid now kind payload origin st = (Inr oid, st')"
      "cs_ops st' = dset oid ?v (cs_ops st)"
    using cluster_append_ok [OF assms(5,6,4)] by blast
  have ops: "cs_ops st' = cs_ops st @ [(oid, ?v)]"
    using st'(2) assms(3) by (simp add: dset_new)
  have stamped': "all_stamped st'"
    using assms(1,3) by (auto simp: all_stamped_def ops dict_ok_def new_operation_stamped)
  have "sort_key op_stamp (map snd (cs_ops st) @ [?v]) = sort_key op_stamp (map snd (cs_ops st)) @ [?v]"
    using stamped_distinct(2) [OF assms(1)] assms(2)
    by (intro sort_key_last) (auto simp: latest_def list_all_iff new_operation_stamp less_prod_def)
  then have "ordered_operations st' = Inr (sort_key op_stamp (map snd (cs_ops st)) @ [?v])"
    using ordered_operations_stamped [OF stamped'] by (simp add: ops)
  then have "materialized st' = rbind (materialized st) (apply_operation ?v)"
    by (simp add: materialized_def ordered_operations_stamped [OF assms(1)] replay_append)
      (simp add: rbind_def split: sum.splits)
  with st'(1) stamped' ops show ?thesis by blast
qed

lemma apply_new_operation:
  "apply_operation (VObj (new_operation sha fr oid now kind payload origin)) q =
     (let tid = get_or VNull payload ''task_id'' in
      if kind = ''task_submit'' \<and> truthy tid then replay_submit tid payload q
      else if kind = ''lease_claim'' \<and> truthy tid then replay_claim tid payload q
      else if kind = ''lease_release'' \<and> truthy tid then replay_release tid payload q
      else if kind = ''task_complete'' \<and> truthy tid then replay_complete tid payload q
      else if kind = ''task_fail'' \<and> truthy tid then replay_fail tid payload q
      else if kind = ''contribution'' then
        replay_contribution (VObj (new_operation sha fr oid now kind payload origin)) payload q
      else Inr q)"
proof -
  have "dget (new_operation sha fr oid now kind payload origin) ''kind'' = Some (VStr kind)"
    "dget (new_operation sha fr oid now kind payload origin) ''payload'' = Some (VObj payload)"
    by (simp_all add: new_operation_def Let_def)
  then show ?thesis
    unfolding apply_operation_def subscript_def jval.case by (simp only: option.case rbind_simps jval.case jval.inject)
qed

section \<open>Leases\<close>

text \<open>The keys of the queue come from truthy task ids.\<close>

definition key_ok :: "dkey \<Rightarrow> bool" where
  "key_ok k \<longleftrightarrow> truthy (key_value k) \<and> hash_key (key_value k) = Inr k"

definition view_ok :: "queue_view \<Rightarrow> bool" where
  "view_ok q \<longleftrightarrow> dict_ok (q_queued q) \<and> dkeys (q_queued q) \<subseteq> Collect key_ok \<and> dkeys (q_running q) \<subseteq> Collect key_ok"

lemma hash_key_ok:
  assumes "hash_key v = Inr k" "truthy v"
  shows "key_ok k"
proof (cases v)
  case (VNum r)
  then have r: "r \<noteq> 0" and k: "k = number_key r" using assms by auto
  show ?thesis
  proof (cases "r = of_int \<lfloor>r\<rfloor>")
    case True
    then have "\<lfloor>r\<rfloor> \<noteq> 0" using r by auto
    with True k show ?thesis by (simp add: key_ok_def number_key_def)
  qed (use k r in \<open>auto simp: key_ok_def number_key_def\<close>)
qed (use assms in \<open>auto simp: key_ok_def split: if_splits\<close>)

lemma dkeys_ddel_keys_ok: "dkeys d \<subseteq> Collect key_ok \<Longrightarrow> dkeys (ddel k d) \<subseteq> Collect key_ok"
  unfolding dkeys_ddel by blast

lemma replay_end_cases:
  assumes "replay_end tid p f q = Inr q'"
  obtains "q' = q" | k rec where "hash_key tid = Inr k" "dget (q_running q) k = Some rec"
    "lease_matches rec (get_or VNull p ''lease_id'')" "f k rec = Inr q'"
proof -
  obtain k where k: "hash_key tid = Inr k"
    using assms by (auto simp: replay_end_def)
  show thesis
  proof (cases "dget (q_running q) k")
    case (Some rec)
    with assms k show thesis
      by (cases "lease_matches rec (get_or VNull p ''lease_id'')") (auto simp: replay_end_def intro: that)
  qed (use assms k that(1) in \<open>simp add: replay_end_def\<close>)
qed

lemma replay_cases_view_ok:
  assumes "view_ok q" "truthy tid"
  shows "replay_submit tid p q = Inr q' \<Longrightarrow> view_ok q'" "replay_claim tid p q = Inr q' \<Longrightarrow> view_ok q'"
    "replay_release tid p q = Inr q' \<Longrightarrow> view_ok q'" "replay_complete tid p q = Inr q' \<Longrightarrow> view_ok q'"
    "replay_fail tid p q = Inr q' \<Longrightarrow> view_ok q'"
proof -
  note keys = hash_key_ok [OF _ assms(2)]
  note defs = replay_submit_def replay_claim_def
  note ok = view_ok_def dkeys_ddel_keys_ok
  show "view_ok q'" if "replay_submit tid p q = Inr q'"
    using that assms(1) by (clarsimp simp: defs ok keys simp del: dkeys_ddel)
  show "view_ok q'" if claim: "replay_claim tid p q = Inr q'"
  proof -
    obtain k where "hash_key tid = Inr k"
      using claim by (auto simp: defs)
    with claim assms(1) show ?thesis
      by (cases "dget (q_queued q) k") (clarsimp simp: defs ok keys simp del: dkeys_ddel)+
  qed
  show "view_ok q'" if "replay_release tid p q = Inr q'"
    using that assms(1) unfolding replay_release_def
    by (elim replay_end_cases) (clarsimp simp: ok keys simp del: dkeys_ddel)+
  show "view_ok q'" if "replay_complete tid p q = Inr q'"
    using that assms(1) unfolding replay_complete_def
    by (elim replay_end_cases) (clarsimp simp: ok keys simp del: dkeys_ddel)+
  show "view_ok q'" if "replay_fail tid p q = Inr q'"
    using that assms(1) unfolding replay_fail_def
    by (elim replay_end_cases) (clarsimp simp: ok keys simp del: dkeys_ddel)+
qed

lemma replay_contribution_view_ok:
  "view_ok q \<Longrightarrow> replay_contribution op p q = Inr q' \<Longrightarrow> view_ok q'"
  by (clarsimp simp: replay_contribution_def Let_def view_ok_def)

lemma apply_operation_view_ok:
  assumes "apply_operation op q = Inr q'" "view_ok q"
  shows "view_ok q'"
proof -
  obtain kind pv where k: "subscript op ''kind'' = Inr kind" "subscript op ''payload'' = Inr pv"
    using assms(1) by (auto simp: apply_operation_def)
  then obtain payload where p: "pv = VObj payload"
    using assms(1) by (cases pv) (auto simp: apply_operation_def)
  note cases = replay_cases_view_ok [OF assms(2)] replay_contribution_view_ok [OF assms(2)]
  show ?thesis
    using assms unfolding apply_operation_def k p rbind_simps jval.case Let_def by (auto split: if_split_asm intro: cases)
qed

lemma replay_view_ok: "replay ops q = Inr q' \<Longrightarrow> view_ok q \<Longrightarrow> view_ok q'"
  by (induction ops arbitrary: q) (auto dest: apply_operation_view_ok)

lemma materialized_view_ok: "materialized st = Inr q \<Longrightarrow> view_ok q"
  by (auto simp: materialized_def elim!: replay_view_ok) (simp add: empty_view_def view_ok_def)

lemma set_insert_by: "set (insert_by key x ys) = insert x (set ys)"
  by (induction ys) auto

lemma py_sorted_set:
  assumes "py_sorted key xs = Inr ys"
  shows "set ys = set xs"
proof -
  have "set (foldr (insert_by key) xs []) = set xs"
    by (induction xs) (simp_all add: set_insert_by)
  with assms show ?thesis by (auto simp: py_sorted_def split: if_splits)
qed

text \<open>A task fits a worker.\<close>

definition entry_fits :: "int \<Rightarrow> int \<Rightarrow> obj \<Rightarrow> bool" where
  "entry_fits avail cpus task \<longleftrightarrow>
     (case (py_int_of (get_or (VInt 0) task ''memory_mb''), py_int_of (get_or (VInt 1) task ''threads'')) of
        (Inr m, Inr n) \<Rightarrow> m \<le> avail \<and> n \<le> max 1 cpus
      | _ \<Rightarrow> False)"

lemma first_fitting_some:
  "first_fitting avail cpus ps = Inr (Some (k, task)) \<Longrightarrow> (k, task) \<in> set ps \<and> entry_fits avail cpus task"
proof (induction ps)
  case (Cons p ps)
  obtain k' t' where p: "p = (k', t')" by (cases p)
  with Cons.prems obtain m where m: "py_int_of (get_or (VInt 0) t' ''memory_mb'') = Inr m" by auto
  show ?case
  proof (cases "m > avail")
    case False
    with Cons.prems p m obtain n where n: "py_int_of (get_or (VInt 1) t' ''threads'') = Inr n" by auto
    with False Cons p m show ?thesis
      by (cases "n > max 1 cpus") (auto simp: entry_fits_def not_less max_def)
  qed (use Cons p m in simp)
qed simp

text \<open>Claiming a task at a time past every timestamp of the log takes a queued task that fits the
  worker out of the queue and leases it to the worker: the replay after the claim shows exactly that
  change, and the lease handed to the worker is the live one.\<close>

theorem claim_task_leases:
  assumes "all_stamped st" "latest now' st" "oid \<notin> dkeys (cs_ops st)" "materialized st = Inr q"
    and "claim_task sha fr fl lid oid now now' wid origin avail cpus secs st = (Inr (Some granted), st')" "lid \<noteq> []"
  shows "\<exists>k task. dget (q_queued q) k = Some task \<and> entry_fits avail cpus task \<and>
    granted = (''task'', VObj task) # claim_payload k wid lid (fl (now + of_int (max 1 secs))) \<and>
    materialized st' = Inr (q\<lparr>q_queued := ddel k (q_queued q),
      q_running := dset k [(''task'', VObj task), (''worker_id'', VStr wid), (''lease_id'', VStr lid),
        (''lease_until'', VNum (fl (now + of_int (max 1 secs))))] (q_running q)\<rparr>) \<and>
    (\<forall>tid. k = KStr tid \<longrightarrow> require_live_lease tid lid st' = Inr ())"
proof -
  let ?until = "fl (now + of_int (max 1 secs))"
  obtain k task ps where ps: "py_sorted (\<lambda>p. (get_or (VInt 0) (snd p) ''created_at'', key_value (fst p))) (q_queued q) = Inr ps"
      "first_fitting avail cpus ps = Inr (Some (k, task))"
    and granted: "granted = (''task'', VObj task) # claim_payload k wid lid ?until"
    and app: "cluster_append sha fr oid now' ''lease_claim'' (claim_payload k wid lid ?until) origin st = (Inr oid, st')"
    using assms(5) by (auto simp: claim_task_def assms(4) Let_def cluster_append_def split: sum.splits option.splits if_splits)
  have view: "view_ok q" by (rule materialized_view_ok [OF assms(4)])
  have "(k, task) \<in> set (q_queued q)" and fits: "entry_fits avail cpus task"
    using first_fitting_some [OF ps(2)] py_sorted_set [OF ps(1)] by auto
  then have get: "dget (q_queued q) k = Some task" and key: "key_ok k"
    using view by (auto simp: view_ok_def dget_in_set)
  have "length (cs_ops st) < MAX_OPERATIONS" "origin \<noteq> []"
    using app by (auto simp: cluster_append_def split: if_splits)
  then have mat: "materialized st' = apply_operation
      (VObj (new_operation sha fr oid now' ''lease_claim'' (claim_payload k wid lid ?until) origin)) q"
    using append_latest [OF assms(1-3), of "''lease_claim''" origin sha fr "claim_payload k wid lid ?until"] app assms(4)
    by auto
  have view': "materialized st' = Inr (q\<lparr>q_queued := ddel k (q_queued q),
      q_running := dset k [(''task'', VObj task), (''worker_id'', VStr wid), (''lease_id'', VStr lid),
        (''lease_until'', VNum ?until)] (q_running q)\<rparr>)"
    using key get unfolding mat apply_new_operation
    by (simp add: claim_payload_def get_or_def key_ok_def replay_claim_def subscript_def)
  have "\<forall>tid. k = KStr tid \<longrightarrow> require_live_lease tid lid st' = Inr ()"
    using assms(6) by (auto simp: require_live_lease_def view' lease_matches_def get_or_def)
  with get fits granted view' show ?thesis by blast
qed

text \<open>C32. A worker whose lease is live in the replayed queue completes its task: a result within the size limit
  is accepted, and the replay moves the task from the running to the completed tasks, with the lease and the
  result in its record, and changes nothing else. This is under the hypotheses that the clock is past
  every timestamp of the log (\<open>completion_lost_to_clock_skew\<close> shows the completion lost without it), that the
  operation id is new and that the log is below its limit.\<close>

theorem live_lease_completes:
  assumes "all_stamped st" "materialized st = Inr q"
    and live: "dget (q_running q) (KStr tid) = Some rec" "lease_matches rec (VStr lid)" "tid \<noteq> []" "origin \<noteq> []"
    and small: "length (encode_ascii (canonical fr (VObj res))) \<le> 1024 * 1024"
    and fresh: "latest now st" "oid \<notin> dkeys (cs_ops st)" "length (cs_ops st) < MAX_OPERATIONS"
  shows "\<exists>st'. complete_task sha fr oid now tid lid res ver origin st = (Inr oid, st') \<and>
        materialized st' = Inr (q\<lparr>q_running := ddel (KStr tid) (q_running q),
          q_completed := dset (KStr tid) (dict_update rec (completion_payload tid lid res ver)) (q_completed q),
          q_queued := ddel (KStr tid) (q_queued q)\<rparr>)"
proof -
  let ?p = "completion_payload tid lid res ver"
  have "require_live_lease tid lid st = Inr ()"
    using live by (simp add: require_live_lease_def assms(2))
  then have "complete_task sha fr oid now tid lid res ver origin st =
      cluster_append sha fr oid now ''task_complete'' ?p origin st"
    using small by (simp add: complete_task_def)
  moreover obtain st' where "cluster_append sha fr oid now ''task_complete'' ?p origin st = (Inr oid, st')"
      "materialized st' = apply_operation (VObj (new_operation sha fr oid now ''task_complete'' ?p origin)) q"
    using append_latest [OF assms(1) fresh(1,2,3), of "''task_complete''" origin sha fr ?p] live(4) assms(2) by auto
  moreover have "get_or VNull ?p ''task_id'' = VStr tid" "get_or VNull ?p ''lease_id'' = VStr lid"
    by (simp_all add: completion_payload_def get_or_def)
  ultimately show ?thesis
    using live(1-3) by (simp add: apply_new_operation replay_complete_def replay_end_def)
qed

text \<open>A worker whose lease is not live in the replayed queue gets an error from completing, failing
  and releasing the task, and the replica does not change; the same holds when the replay itself fails.\<close>

theorem stale_lease_rejected:
  assumes "\<not> (\<exists>q rec. materialized st = Inr q \<and> dget (q_running q) (KStr tid) = Some rec \<and> lease_matches rec (VStr lid))"
  shows "\<exists>e1 e2 e3. complete_task sha fr oid now tid lid res ver origin st = (Inl e1, st) \<and>
      fail_task sha fr oid now tid lid err origin st = (Inl e2, st) \<and>
      release_task sha fr oid now tid lid reason origin st = (Inl e3, st)"
proof -
  have "\<exists>e. require_live_lease tid lid st = Inl e"
  proof (cases "materialized st")
    case (Inr q)
    with assms show ?thesis
      by (cases "dget (q_running q) (KStr tid)") (auto simp: require_live_lease_def)
  qed (simp add: require_live_lease_def)
  then show ?thesis
    by (auto simp: complete_task_def fail_task_def release_task_def)
qed

section \<open>Examples\<close>

definition cluster_task :: obj where
  "cluster_task = [(''task_id'', VStr ''t''), (''memory_mb'', VInt 64)]"

definition demo_rest :: obj where
  "demo_rest = [(''version'', VInt 1), (''cluster_id'', VStr ''c'')]"

definition demo_replica :: "(string, jval) dict \<Rightarrow> cluster_state" where
  "demo_replica ops = \<lparr>cs_cluster_id = ''c'', cs_rest = demo_rest, cs_ops = ops, cs_disk = None\<rparr>"

definition demo_op :: "string \<Rightarrow> rat \<Rightarrow> string \<Rightarrow> obj \<Rightarrow> string \<times> jval" where
  "demo_op oid now kind payload = (oid, VObj (new_operation (\<lambda>_. []) (\<lambda>_. ''0.0'') oid now kind payload ''n''))"

abbreviation demo_submit :: "string \<times> jval" where
  "demo_submit \<equiv> demo_op ''a'' 1 ''task_submit'' [(''task_id'', VStr ''t''), (''task'', VObj cluster_task)]"

abbreviation demo_claim :: "string \<times> jval" where
  "demo_claim \<equiv> demo_op ''b'' 2 ''lease_claim'' (claim_payload (KStr ''t'') ''w'' ''l'' 302)"

abbreviation demo_queued :: queue_view where
  "demo_queued \<equiv> empty_view\<lparr>q_queued := [(KStr ''t'', cluster_task)]\<rparr>"

abbreviation demo_record :: obj where
  "demo_record \<equiv> [(''task'', VObj cluster_task), (''worker_id'', VStr ''w''), (''lease_id'', VStr ''l''), (''lease_until'', VNum 302)]"

abbreviation demo_running :: queue_view where
  "demo_running \<equiv> empty_view\<lparr>q_running := [(KStr ''t'', demo_record)]\<rparr>"

lemma demo_op_valid:
  "valid_operation (\<lambda>_. []) (\<lambda>_. ''0.0'') (demo_op oid now kind payload)"
  "fst (demo_op oid now kind payload) = oid" "op_stamp (snd (demo_op oid now kind payload)) = (now, oid)"
  by (simp_all add: demo_op_def new_operation_valid new_operation_stamp)

lemma demo_ok:
  "replica_ok (\<lambda>_. []) (\<lambda>_. ''0.0'') (demo_replica [demo_submit])"
  "replica_ok (\<lambda>_. []) (\<lambda>_. ''0.0'') (demo_replica [demo_claim])"
  "replica_ok (\<lambda>_. []) (\<lambda>_. ''0.0'') (demo_replica [demo_submit, demo_claim])"
  "replica_ok (\<lambda>_. []) (\<lambda>_. ''0.0'') (demo_replica [])"
  by (simp_all add: replica_ok_def demo_replica_def demo_rest_def get_or_def demo_op_valid dict_ok_def MAX_OPERATIONS_def)

lemma demo_apply:
  "apply_operation (snd demo_submit) empty_view = Inr demo_queued"
  "apply_operation (snd demo_claim) demo_queued = Inr demo_running"
  by (simp_all add: demo_op_def apply_new_operation claim_payload_def get_or_def replay_submit_def replay_claim_def
      subscript_def py_dict_def empty_view_def)

lemma demo_materialized:
  "materialized (demo_replica [demo_submit]) = Inr demo_queued"
  "materialized (demo_replica [demo_submit, demo_claim]) = Inr demo_running"
  using demo_ok [THEN replica_ok_stamped]
  by (simp_all add: materialized_def ordered_operations_stamped)
    (simp_all add: demo_replica_def demo_op_valid demo_apply less_eq_prod_def)

theorem replicas_converge_witness:
  "\<exists>sts'. gossip (\<lambda>_. []) (\<lambda>_. ''0.0'') [(0, 1), (0, 2), (1, 2), (2, 1), (2, 0), (1, 0)]
       [demo_replica [demo_submit], demo_replica [demo_claim], demo_replica []] = Inr sts' \<and>
     set (cs_ops (sts' ! 2)) = {demo_submit, demo_claim} \<and>
     materialized (sts' ! 0) = materialized (sts' ! 1) \<and> materialized (sts' ! 1) = materialized (sts' ! 2) \<and>
     cluster_merge (\<lambda>_. []) (\<lambda>_. ''0.0'') (cluster_snapshot (sts' ! 2)) (sts' ! 0) = (Inr 0, sts' ! 0)"
proof -
  let ?sts = "[demo_replica [demo_submit], demo_replica [demo_claim], demo_replica []]"
  let ?es = "[(0, 1), (0, 2), (1, 2), (2, 1), (2, 0), (1, 0)] :: (nat \<times> nat) list"
  have agree: "\<forall>a\<in>set ?sts. \<forall>b\<in>set ?sts. agree a b"
    by (simp add: agree_def demo_replica_def demo_op_def)
  have ok: "\<forall>a\<in>set ?sts. replica_ok (\<lambda>_. []) (\<lambda>_. ''0.0'') a \<and> cs_cluster_id a = ''c''"
    using demo_ok by (auto simp: demo_replica_def)
  have ops: "(\<Union>a\<in>set ?sts. set (cs_ops a)) = {demo_submit, demo_claim}"
    by (auto simp: demo_replica_def)
  have "card {demo_submit, demo_claim} \<le> MAX_OPERATIONS"
    by (simp add: MAX_OPERATIONS_def demo_op_def)
  then have c: "card (\<Union>a\<in>set ?sts. set (cs_ops a)) \<le> MAX_OPERATIONS"
    by (simp only: ops)
  have h: "heard ?es (\<lambda>k. {k}) 0 = {0, 1, 2}" "heard ?es (\<lambda>k. {k}) 1 = {0, 1, 2}" "heard ?es (\<lambda>k. {k}) 2 = {0, 1, 2}"
    by auto
  have "\<forall>(i, j)\<in>set ?es. i < length ?sts \<and> j < length ?sts" by simp
  from replicas_converge [OF ok agree c this]
  obtain sts' where g: "gossip (\<lambda>_. []) (\<lambda>_. ''0.0'') ?es ?sts = Inr sts'"
      and all: "\<forall>i<length ?sts. set (cs_ops (sts' ! i)) = (\<Union>k\<in>heard ?es (\<lambda>k. {k}) i. set (cs_ops (?sts ! k)))"
      and eq: "\<forall>i<length ?sts. \<forall>j<length ?sts. heard ?es (\<lambda>k. {k}) i = heard ?es (\<lambda>k. {k}) j \<longrightarrow>
        set (cs_ops (sts' ! i)) = set (cs_ops (sts' ! j)) \<and> materialized (sts' ! i) = materialized (sts' ! j) \<and>
        cluster_merge (\<lambda>_. []) (\<lambda>_. ''0.0'') (cluster_snapshot (sts' ! j)) (sts' ! i) = (Inr 0, sts' ! i)"
    by blast
  have "set (cs_ops (sts' ! 2)) = {demo_submit, demo_claim}"
    using all [rule_format, of 2, unfolded h] by (auto simp: demo_replica_def)
  with g show ?thesis
    using eq [rule_format, of 0 1] eq [rule_format, of 1 2] eq [rule_format, of 0 2] h
    by (simp del: heard.simps gossip.simps)
qed

lemma demo_latest:
  "latest 2 (demo_replica [demo_submit])" "latest 3 (demo_replica [demo_submit, demo_claim])"
  by (simp_all add: latest_def demo_op_valid demo_replica_def)

lemma demo_fresh:
  "x \<noteq> ''a'' \<Longrightarrow> x \<notin> dkeys (cs_ops (demo_replica [demo_submit]))"
  "x \<noteq> ''a'' \<Longrightarrow> x \<noteq> ''b'' \<Longrightarrow> x \<notin> dkeys (cs_ops (demo_replica [demo_submit, demo_claim]))"
  by (auto simp: demo_replica_def demo_op_def)

lemma demo_claim_granted:
  "\<exists>st'. claim_task (\<lambda>_. []) (\<lambda>_. ''0.0'') (\<lambda>r. r) ''l'' ''b'' 2 2 ''w'' ''n'' 128 4 300 (demo_replica [demo_submit]) =
     (Inr (Some ((''task'', VObj cluster_task) # claim_payload (KStr ''t'') ''w'' ''l'' 302)), st')"
proof -
  have "py_int_of (get_or (VInt 0) cluster_task ''memory_mb'') = Inr 64"
    "py_int_of (get_or (VInt 1) cluster_task ''threads'') = Inr 1"
    by (simp_all add: cluster_task_def get_or_def py_int_of_def)
  moreover have "length (cs_ops (demo_replica [demo_submit])) < MAX_OPERATIONS"
    by (simp add: demo_replica_def MAX_OPERATIONS_def)
  ultimately show ?thesis
    unfolding claim_task_def demo_materialized(1) by (simp add: py_sorted_def cluster_append_def Let_def)
qed

theorem claim_task_leases_witness:
  "\<exists>st'. claim_task (\<lambda>_. []) (\<lambda>_. ''0.0'') (\<lambda>r. r) ''l'' ''b'' 2 2 ''w'' ''n'' 128 4 300 (demo_replica [demo_submit]) =
      (Inr (Some ((''task'', VObj cluster_task) # claim_payload (KStr ''t'') ''w'' ''l'' 302)), st') \<and>
     materialized st' = Inr demo_running \<and> require_live_lease ''t'' ''l'' st' = Inr ()"
proof -
  obtain st' where st': "claim_task (\<lambda>_. []) (\<lambda>_. ''0.0'') (\<lambda>r. r) ''l'' ''b'' 2 2 ''w'' ''n'' 128 4 300 (demo_replica [demo_submit]) =
      (Inr (Some ((''task'', VObj cluster_task) # claim_payload (KStr ''t'') ''w'' ''l'' 302)), st')"
    using demo_claim_granted by blast
  have "''b'' \<notin> dkeys (cs_ops (demo_replica [demo_submit]))"
    by (rule demo_fresh) simp
  from claim_task_leases [OF demo_ok(1) [THEN replica_ok_stamped] demo_latest(1) this demo_materialized(1) st']
  show ?thesis using st'
    by (auto simp: claim_payload_def empty_view_def split: if_splits)
qed

theorem live_lease_completes_witness:
  "\<exists>st'. complete_task (\<lambda>_. []) (\<lambda>_. ''0.0'') ''d'' 3 ''t'' ''l'' [] ''ok'' ''n'' (demo_replica [demo_submit, demo_claim]) = (Inr ''d'', st') \<and>
     materialized st' = Inr (empty_view\<lparr>q_completed :=
       [(KStr ''t'', demo_record @ [(''task_id'', VStr ''t''), (''result'', VObj []), (''verification_result'', VStr ''ok'')])]\<rparr>)"
proof -
  have "''d'' \<notin> dkeys (cs_ops (demo_replica [demo_submit, demo_claim]))"
    by (rule demo_fresh) simp_all
  from live_lease_completes [OF demo_ok(3) [THEN replica_ok_stamped] demo_materialized(2) _ _ _ _ _ demo_latest(2) this,
      of "''t''" demo_record "''l''" "''n''" "\<lambda>_. ''0.0''" "[]" "\<lambda>_. []" "''ok''"]
  show ?thesis
    by (auto simp: lease_matches_def get_or_def join_def demo_replica_def MAX_OPERATIONS_def dict_update_def completion_payload_def
        empty_view_def)
qed

theorem stale_lease_rejected_witness:
  "\<exists>e1 e2 e3. complete_task (\<lambda>_. []) (\<lambda>_. ''0.0'') ''d'' 3 ''t'' ''m'' [] ''ok'' ''n'' (demo_replica [demo_submit, demo_claim]) =
       (Inl e1, demo_replica [demo_submit, demo_claim]) \<and>
     fail_task (\<lambda>_. []) (\<lambda>_. ''0.0'') ''d'' 3 ''t'' ''m'' ''x'' ''n'' (demo_replica [demo_submit, demo_claim]) =
       (Inl e2, demo_replica [demo_submit, demo_claim]) \<and>
     release_task (\<lambda>_. []) (\<lambda>_. ''0.0'') ''d'' 3 ''t'' ''m'' ''x'' ''n'' (demo_replica [demo_submit, demo_claim]) =
       (Inl e3, demo_replica [demo_submit, demo_claim])"
  by (rule stale_lease_rejected) (simp add: demo_materialized lease_matches_def get_or_def)

section \<open>Limits of the code\<close>

text \<open>
  A completion is ordered by the clock of the node that writes it. When the claim carries the later
  timestamp of a node whose clock is ahead, the completion is accepted and returns an operation id,
  but the replay meets it before the claim and ignores it: the task stays running.
\<close>

lemma completion_lost_to_clock_skew:
  "\<exists>st'. complete_task (\<lambda>_. []) (\<lambda>_. ''0.0'') ''d'' (3/2) ''t'' ''l'' [] ''ok'' ''n'' (demo_replica [demo_submit, demo_claim]) = (Inr ''d'', st') \<and>
     materialized st' = Inr demo_running"
proof -
  let ?st = "demo_replica [demo_submit, demo_claim]"
  let ?d = "demo_op ''d'' (3/2) ''task_complete'' (completion_payload ''t'' ''l'' [] ''ok'')"
  have len: "length (cs_ops ?st) < MAX_OPERATIONS"
    by (simp add: demo_replica_def MAX_OPERATIONS_def)
  have live: "require_live_lease ''t'' ''l'' ?st = Inr ()"
    by (simp add: require_live_lease_def demo_materialized lease_matches_def get_or_def)
  obtain st' where st': "complete_task (\<lambda>_. []) (\<lambda>_. ''0.0'') ''d'' (3/2) ''t'' ''l'' [] ''ok'' ''n'' ?st = (Inr ''d'', st')"
      "cs_ops st' = dset ''d'' (snd ?d) (cs_ops ?st)"
    using cluster_append_ok [OF _ _ len, of "''task_complete''" "''n''" "\<lambda>_. []" "\<lambda>_. ''0.0''" "''d''" "3/2"
        "completion_payload ''t'' ''l'' [] ''ok''"] live
    by (auto simp: complete_task_def demo_op_def join_def)
  have ops: "cs_ops st' = [demo_submit, demo_claim, ?d]"
    using st'(2) by (simp add: demo_replica_def demo_op_def)
  have "stamped ?d" "stamped demo_submit" "stamped demo_claim"
    using demo_op_valid(1) by (simp_all add: valid_operation_def)
  then have "all_stamped st'"
    by (simp add: all_stamped_def ops dict_ok_def demo_op_valid)
  then have "materialized st' = replay [snd demo_submit, snd ?d, snd demo_claim] empty_view"
    by (simp add: materialized_def ordered_operations_stamped ops demo_op_valid less_eq_prod_def)
  moreover have "apply_operation (snd ?d) demo_queued = Inr demo_queued"
    by (simp add: demo_op_def apply_new_operation completion_payload_def get_or_def replay_complete_def replay_end_def empty_view_def)
  ultimately have "materialized st' = Inr demo_running"
    by (simp add: demo_apply)
  with st'(1) show ?thesis by blast
qed

text \<open>
  The checks of \<open>merge\<close> do not ask for a timestamp: a peer's operation that has none is accepted and
  saved, and from then on the replay of this replica fails.
\<close>

lemma merged_operation_without_timestamp:
  assumes "(oid, VObj op) \<in> set (cs_ops st)" "dget op ''timestamp'' = None"
  shows "\<exists>e. materialized st = Inl e"
proof -
  have "\<exists>e. operation_keys vs = Inl e" if "VObj op \<in> set vs" for vs
    using that
  proof (induction vs)
    case (Cons v vs)
    show ?case
    proof (cases "v = VObj op")
      case True
      then show ?thesis by (simp add: subscript_def assms(2))
    next
      case False
      then obtain e where "operation_keys vs = Inl e" using Cons by auto
      then show ?thesis by (auto simp: rbind_def split: sum.splits)
    qed
  qed simp
  moreover have "VObj op \<in> set (map snd (cs_ops st))"
    using assms(1) by force
  ultimately obtain e where "operation_keys (map snd (cs_ops st)) = Inl e" by blast
  then show ?thesis
    unfolding materialized_def ordered_operations_def Let_def by simp
qed

lemma unstamped_operation_accepted:
  "check_operation (\<lambda>_. []) fr ''x'' (VObj [(''operation_id'', VStr ''x''), (''operation_hash'', VStr []), (''payload'', VObj [])]) = Inr ()"
  by (simp add: check_operation_def get_or_def operation_hash_def sha_text_def hexdigest_def)

text \<open>
  \<open>merge\<close> bounds the snapshot but not the merged log: a replica and a snapshot that are each within
  the limit can leave a log above it, which is saved and which the next start refuses to load.
\<close>

lemma sort_members_document:
  assumes "dict_ok (cs_rest st)" "''operations'' \<notin> dkeys (cs_rest st)"
  shows "\<exists>data ops. sort_members (cs_document st) = VObj data \<and> dget data ''operations'' = Some (VObj ops) \<and>
    length ops = length (cs_ops st)"
proof -
  let ?d = "cs_rest st @ [(''operations'', VObj (cs_ops st))]"
  let ?s = "map (\<lambda>p. (fst p, sort_members (snd p))) (sort_key fst ?d)"
  have "distinct (map fst (sort_key fst ?d))"
    using assms by (force simp: dict_ok_def distinct_map)
  then have "distinct (map fst ?s)"
    by (simp add: comp_def)
  moreover have "(''operations'', sort_members (VObj (cs_ops st))) \<in> set ?s"
    by force
  ultimately have "dget ?s ''operations'' = Some (sort_members (VObj (cs_ops st)))"
    by (rule map_of_is_SomeI)
  then show ?thesis
    by (intro exI [of _ ?s] exI [of _ "map (\<lambda>p. (fst p, sort_members (snd p))) (sort_key fst (cs_ops st))"])
      (simp add: cs_document_def)
qed

lemma merge_can_exceed_limit:
  assumes "replica_ok sha fr b" "cs_cluster_id a = cs_cluster_id b" "dict_ok (cs_rest a)" "''operations'' \<notin> dkeys (cs_rest a)"
    and "length (cs_ops a) + length (news (cs_ops a) (cs_ops b)) > MAX_OPERATIONS" "length (cs_ops a) \<le> MAX_OPERATIONS"
  shows "\<exists>n a' e. cluster_merge sha fr (cluster_snapshot b) a = (Inr n, a') \<and> cluster_load (cs_cluster_id a) (cs_disk a') = Inl e"
proof -
  have some: "news (cs_ops a) (cs_ops b) \<noteq> []"
    using assms(5,6) by auto
  let ?a = "a\<lparr>cs_ops := cs_ops a @ news (cs_ops a) (cs_ops b)\<rparr>"
  have m: "cluster_merge sha fr (cluster_snapshot b) a = (Inr (length (news (cs_ops a) (cs_ops b))), cluster_save ?a)"
    using assms(1,2) some by (simp add: cluster_merge_def replica_ok_def get_or_snapshot get_or_snapshot_rest merge_operations_valid)
  obtain data ops where d: "sort_members (cs_document ?a) = VObj data" "dget data ''operations'' = Some (VObj ops)"
      "length ops = length (cs_ops ?a)"
    using sort_members_document [of ?a] assms(3,4) by auto
  have "get_or VNull data ''operations'' = VObj ops"
    using d(2) by (simp add: get_or_def)
  moreover have "length ops > MAX_OPERATIONS"
    using d(3) assms(5) by simp
  ultimately have "\<exists>e. cluster_load (cs_cluster_id a) (cs_disk (cluster_save ?a)) = Inl e"
    using d(1) by (auto simp: cluster_load_def cluster_save_def)
  with m show ?thesis by blast
qed

end
