(* ===== verification/Agent_Memory.thy ===== *)
theory Agent_Memory
  imports Spatial_Store Py_Text "HOL-Library.Product_Lexorder"
begin

text \<open>
  Namespaced agent memory, from \<^verbatim>\<open>zdx_agent_memory_manager.py\<close>: named namespaces with quotas on
  entries and encoded bytes inside one document of the spatial store, with first-in first-out
  eviction or rejection when a quota is reached.

  \<^item> \<^verbatim>\<open>agent_memory\<close> is a manager together with the part of its session it uses: \<open>am_rest\<close> are the
    values of the session outside \<open>agent_memory_namespaces\<close>, the next four fields the value under
    that key, which only the manager writes (so its \<open>_policies\<close> and the persisted ones are one field).
    \<^verbatim>\<open>root_value\<close> is that value as stored, and \<^verbatim>\<open>validate_root\<close> the check the code makes on it.
  \<^item> The two eviction loops are recursive functions; each turn removes one entry.
  \<^item> Sizes are the sizes of the encoding of \<^verbatim>\<open>Spatial_Codec\<close>. \<open>MemoryQuotaExceeded\<close> is a \<open>ValueError\<close>.
    \<open>int(capacity * 0.60)\<close> is computed in double precision, 0.60 being \<open>5404319552844595 / 2^53\<close>.
\<close>

section \<open>Policies\<close>

definition ascii :: "string \<Rightarrow> ustr" where
  "ascii s = map of_char s"

definition MEMORY_ROOT_KEY :: ustr where "MEMORY_ROOT_KEY = ascii ''agent_memory_namespaces''"
definition APPEND_KEY_PREFIX :: ustr where "APPEND_KEY_PREFIX = ascii ''_append/''"

definition lower_code :: "nat \<Rightarrow> bool" where "lower_code c \<longleftrightarrow> 97 \<le> c \<and> c \<le> 122"
definition upper_code :: "nat \<Rightarrow> bool" where "upper_code c \<longleftrightarrow> 65 \<le> c \<and> c \<le> 90"
definition digit_code :: "nat \<Rightarrow> bool" where "digit_code c \<longleftrightarrow> 48 \<le> c \<and> c \<le> 57"

text \<open>\<open>^[a-z][a-z0-9_.-]{0,63}$\<close> and \<open>^[A-Za-z0-9_.:/-]{1,160}$\<close>\<close>

definition namespace_name :: "ustr \<Rightarrow> bool" where
  "namespace_name s \<longleftrightarrow>
     (case s of [] \<Rightarrow> False
      | c # cs \<Rightarrow> lower_code c \<and> length cs \<le> 63 \<and>
          list_all (\<lambda>c. lower_code c \<or> digit_code c \<or> c = 95 \<or> c = 46 \<or> c = 45) cs)"

definition memory_key :: "ustr \<Rightarrow> bool" where
  "memory_key s \<longleftrightarrow> 1 \<le> length s \<and> length s \<le> 160 \<and>
     list_all (\<lambda>c. upper_code c \<or> lower_code c \<or> digit_code c \<or> c = 95 \<or> c = 46 \<or> c = 58 \<or> c = 47 \<or> c = 45) s"

record ns_policy =
  np_name :: ustr
  np_max_bytes :: int
  np_max_entries :: int
  np_eviction :: ustr

definition mk_policy :: "ustr \<Rightarrow> sval \<Rightarrow> sval \<Rightarrow> ustr \<Rightarrow> ns_policy result" where
  "mk_policy name mb me ev =
     (if \<not> namespace_name name then Inl (ValueError ''memory namespace name is invalid'')
      else case mb of
        SInt b \<Rightarrow>
          if b < 64 then Inl (ValueError ''memory namespace max_bytes must be an integer >= 64'')
          else (case me of
            SInt n \<Rightarrow>
              if n < 1 then Inl (ValueError ''memory namespace max_entries must be a positive integer'')
              else if ev \<noteq> ascii ''reject'' \<and> ev \<noteq> ascii ''fifo''
                then Inl (ValueError ''unsupported memory eviction policy'')
              else Inr \<lparr>np_name = name, np_max_bytes = b, np_max_entries = n, np_eviction = ev\<rparr>
          | _ \<Rightarrow> Inl (ValueError ''memory namespace max_entries must be a positive integer''))
      | _ \<Rightarrow> Inl (ValueError ''memory namespace max_bytes must be an integer >= 64''))"

definition policy_value :: "ns_policy \<Rightarrow> sval" where
  "policy_value p = SDict [(ascii ''max_bytes'', SInt (np_max_bytes p)), (ascii ''max_entries'', SInt (np_max_entries p)),
     (ascii ''eviction'', SStr (np_eviction p))]"

definition sget :: "(ustr \<times> sval) list \<Rightarrow> string \<Rightarrow> sval" where
  "sget d name = (case dget d (ascii name) of None \<Rightarrow> SNone | Some v \<Rightarrow> v)"

text \<open>Plain data as a memory value\<close>

fun json_sval :: "json \<Rightarrow> sval" where
  "json_sval JNull = SNone"
| "json_sval (JBool b) = SBool b"
| "json_sval (JInt i) = SInt i"
| "json_sval (JStr s) = SStr (ascii s)"
| "json_sval (JList xs) = SList (map json_sval xs)"
| "json_sval (JObj kvs) = SDict (map (\<lambda>p. (ascii (fst p), json_sval (snd p))) kvs)"

text \<open>The text \<open>str\<close> makes of a value that is not a string is the name of no eviction policy.\<close>

definition policy_from_dict :: "ustr \<Rightarrow> sval \<Rightarrow> ns_policy result" where
  "policy_from_dict name payload =
     (case payload of
        SDict d \<Rightarrow>
          if \<not> dkeys d \<subseteq> set (map ascii [''max_bytes'', ''max_entries'', ''eviction''])
          then Inl (ValueError ''unknown memory namespace policy fields'')
          else mk_policy name (sget d ''max_bytes'') (sget d ''max_entries'')
                 (case dget d (ascii ''eviction'') of
                    None \<Rightarrow> ascii ''reject'' | Some (SStr s) \<Rightarrow> s | Some _ \<Rightarrow> [])
      | _ \<Rightarrow> Inl (ValueError ''memory namespace policy must be an object''))"

definition policy_weights :: "(string \<times> int \<times> int \<times> string) list" where
  "policy_weights =
     [(''working'', 20, 128, ''fifo''), (''episodic'', 25, 256, ''fifo''), (''facts'', 25, 256, ''reject''),
      (''tool_results'', 20, 128, ''reject''), (''system'', 10, 64, ''reject'')]"

definition memory_budget :: "int \<Rightarrow> int" where
  "memory_budget cap = max 320 (int (round53 (round53 (nat cap) * 5404319552844595) div 2 ^ 53))"

definition default_memory_policies :: "int \<Rightarrow> (ustr, ns_policy) dict result" where
  "default_memory_policies cap =
     (if cap < 512 then Inl (ValueError ''persistent memory region is too small for namespaced memory'')
      else Inr (map (\<lambda>(name, weight, entries, eviction).
        (ascii name, \<lparr>np_name = ascii name, np_max_bytes = max 64 (memory_budget cap * weight div 100),
           np_max_entries = entries, np_eviction = ascii eviction\<rparr>)) policy_weights))"

text \<open>A requested policy is a policy object (\<open>Inl\<close>) or a mapping (\<open>Inr\<close>).\<close>

fun normalize_policies :: "(ustr \<times> (ns_policy + sval)) list \<Rightarrow> (ustr, ns_policy) dict \<Rightarrow> (ustr, ns_policy) dict result" where
  "normalize_policies [] acc = Inr acc"
| "normalize_policies ((name, raw) # rest) acc =
     rbind (case raw of
              Inl p \<Rightarrow> if np_name p \<noteq> name then Inl (ValueError ''memory namespace policy name does not match mapping key'') else Inr p
            | Inr d \<Rightarrow> policy_from_dict name d) (\<lambda>p.
     if np_name p \<in> dkeys acc then Inl (ValueError ''duplicate memory namespace'')
     else normalize_policies rest (dset (np_name p) p acc))"

definition requested_policies :: "(ustr \<times> (ns_policy + sval)) list \<Rightarrow> (ustr, ns_policy) dict result" where
  "requested_policies ps =
     (if ps = [] then Inl (ValueError ''memory policies must be a non-empty mapping'') else normalize_policies ps [])"

section \<open>The stored value\<close>

record mem_entry =
  me_sequence :: int
  me_value :: sval

type_synonym bucket = "(ustr, mem_entry) dict"

definition entry_value :: "mem_entry \<Rightarrow> sval" where
  "entry_value e = SDict [(ascii ''sequence'', SInt (me_sequence e)), (ascii ''value'', me_value e)]"

definition bucket_value :: "bucket \<Rightarrow> sval" where
  "bucket_value b = SDict [(ascii ''entries'', SDict (map (\<lambda>p. (fst p, entry_value (snd p))) b))]"

record agent_memory =
  am_store :: store
  am_closed :: bool
  am_dirty :: bool
  am_rest :: mem_values
  am_version :: sval
  am_next :: int
  am_policies :: "(ustr, ns_policy) dict"
  am_spaces :: "(ustr, bucket) dict"

definition root_value :: "agent_memory \<Rightarrow> sval" where
  "root_value m = SDict
     [(ascii ''version'', am_version m), (ascii ''next_sequence'', SInt (am_next m)),
      (ascii ''policies'', SDict (map (\<lambda>p. (fst p, policy_value (snd p))) (am_policies m))),
      (ascii ''namespaces'', SDict (map (\<lambda>p. (fst p, bucket_value (snd p))) (am_spaces m)))]"

definition session_values :: "agent_memory \<Rightarrow> mem_values" where
  "session_values m = am_rest m @ [(MEMORY_ROOT_KEY, root_value m)]"

text \<open>\<open>v == 1\<close>\<close>

definition is_one :: "sval \<Rightarrow> bool" where
  "is_one v \<longleftrightarrow> v = SInt 1 \<or> v = SBool True \<or> v = SFloat 0x3FF0000000000000"

fun check_entries :: "(ustr \<times> sval) list \<Rightarrow> int list \<Rightarrow> (bucket \<times> int list) result" where
  "check_entries [] seen = Inr ([], seen)"
| "check_entries ((key, record) # rest) seen =
     (if \<not> memory_key key then Inl (ValueError ''memory key contains unsupported characters or length'')
      else case record of
        SDict d \<Rightarrow>
          if dkeys d \<noteq> {ascii ''sequence'', ascii ''value''} then Inl (ValueError ''memory entry has invalid structure'')
          else (case sget d ''sequence'' of
            SInt i \<Rightarrow>
              if i < 1 then Inl (ValueError ''memory entry has invalid sequence'')
              else if i \<in> set seen then Inl (ValueError ''namespaced memory contains duplicate entry sequences'')
              else rbind (check_entries rest (i # seen)) (\<lambda>(b, seen').
                     Inr ((key, \<lparr>me_sequence = i, me_value = sget d ''value''\<rparr>) # b, seen'))
          | _ \<Rightarrow> Inl (ValueError ''memory entry has invalid sequence''))
      | _ \<Rightarrow> Inl (ValueError ''memory entry has invalid structure''))"

fun check_namespaces ::
    "(ustr \<times> sval) list \<Rightarrow> (ustr \<times> sval) list \<Rightarrow> int list \<Rightarrow> ((ustr \<times> ns_policy \<times> bucket) list \<times> int list) result" where
  "check_namespaces [] spaces seen = Inr ([], seen)"
| "check_namespaces ((name, raw) # rest) spaces seen =
     rbind (policy_from_dict name raw) (\<lambda>p.
       case dget spaces name of
         Some (SDict d) \<Rightarrow>
           if dkeys d \<noteq> {ascii ''entries''} then Inl (ValueError ''memory namespace has invalid structure'')
           else (case sget d ''entries'' of
             SDict es \<Rightarrow>
               rbind (check_entries es seen) (\<lambda>(b, seen').
               rbind (check_namespaces rest spaces seen') (\<lambda>(l, seen'').
                 Inr ((name, p, b) # l, seen'')))
           | _ \<Rightarrow> Inl (ValueError ''memory namespace has invalid structure''))
       | _ \<Rightarrow> Inl (ValueError ''memory namespace has invalid structure''))"

definition validate_root :: "sval \<Rightarrow> (sval \<times> int \<times> (ustr \<times> ns_policy \<times> bucket) list) result" where
  "validate_root root =
     (case root of
        SDict d \<Rightarrow>
          if \<not> dkeys d \<subseteq> set (map ascii [''version'', ''next_sequence'', ''policies'', ''namespaces''])
          then Inl (ValueError ''unknown namespaced memory root fields'')
          else if \<not> is_one (sget d ''version'') then Inl (ValueError ''unsupported namespaced memory schema version'')
          else (case sget d ''next_sequence'' of
            SInt next \<Rightarrow>
              if next < 1 then Inl (ValueError ''namespaced memory next_sequence is invalid'')
              else (case (sget d ''policies'', sget d ''namespaces'') of
                (SDict ps, SDict ns) \<Rightarrow>
                  if dkeys ps \<noteq> dkeys ns then Inl (ValueError ''namespaced memory policy and namespace sets differ'')
                  else rbind (check_namespaces ps ns []) (\<lambda>(l, seen).
                    if foldr max seen 0 \<ge> next
                    then Inl (ValueError ''namespaced memory next_sequence does not follow persisted entries'')
                    else Inr (sget d ''version'', next, l))
              | _ \<Rightarrow> Inl (ValueError ''namespaced memory policies/namespaces must be objects''))
          | _ \<Rightarrow> Inl (ValueError ''namespaced memory next_sequence is invalid''))
      | _ \<Rightarrow> Inl (ValueError ''persisted namespaced memory root must be an object''))"

section \<open>Quotas\<close>

definition QuotaExceeded :: py_error where
  "QuotaExceeded = ValueError ''MemoryQuotaExceeded''"

definition ensure_document_capacity :: "mem_values \<Rightarrow> store \<Rightarrow> unit result" where
  "ensure_document_capacity vs st =
     rbind (estimate_document_size vs) (\<lambda>required.
     rbind (capacity_bytes st) (\<lambda>cap. raise_if (int required > cap) QuotaExceeded))"

text \<open>The entry with the least pair of sequence number and key, the protected one excluded.\<close>

definition oldest_key :: "ustr option \<Rightarrow> bucket \<Rightarrow> ustr option" where
  "oldest_key exclude es =
     (case map (\<lambda>p. (me_sequence (snd p), fst p)) (filter (\<lambda>p. Some (fst p) \<noteq> exclude) es) of
        [] \<Rightarrow> None
      | c # cs \<Rightarrow> Some (snd (foldr min cs c)))"

definition over_quota :: "ns_policy \<Rightarrow> bucket \<Rightarrow> bool result" where
  "over_quota pol es =
     (if int (length es) > np_max_entries pol then Inr True
      else rbind (estimate_value_size (bucket_value es)) (\<lambda>n. Inr (int n > np_max_bytes pol)))"

lemma foldr_min_in: "foldr min cs c \<in> insert c (set (cs :: 'a :: linorder list))"
  by (induction cs) (auto simp: min_def)

lemma oldest_key_in: "oldest_key exclude es = Some k \<Longrightarrow> k \<in> dkeys es \<and> Some k \<noteq> exclude"
proof -
  let ?cs = "map (\<lambda>p. (me_sequence (snd p), fst p)) (filter (\<lambda>p. Some (fst p) \<noteq> exclude) es)"
  assume a: "oldest_key exclude es = Some k"
  then obtain c cs where c: "?cs = c # cs" "k = snd (foldr min cs c)"
    unfolding oldest_key_def by (cases ?cs) auto
  have "foldr min cs c \<in> set ?cs"
    using foldr_min_in [of cs c] c(1) by simp
  then show ?thesis using c(2) by force
qed

lemma length_ddel_less:
  assumes "k \<in> dkeys d"
  shows "length (ddel k d) < length d"
proof -
  obtain v where "(k, v) \<in> set d" using assms by auto
  then show ?thesis
    unfolding AList.delete_eq by (intro length_filter_less) auto
qed

text \<open>The loop of \<open>_enforce_namespace\<close>\<close>

function enforce_namespace :: "ns_policy \<Rightarrow> ustr option \<Rightarrow> bucket \<Rightarrow> bucket result" where
  "enforce_namespace pol protected es =
     rbind (over_quota pol es) (\<lambda>over.
       if \<not> over then Inr es
       else if np_eviction pol = ascii ''reject'' then Inl QuotaExceeded
       else (case oldest_key protected es of
               None \<Rightarrow> Inl QuotaExceeded
             | Some victim \<Rightarrow> enforce_namespace pol protected (ddel victim es)))"
  by pat_completeness auto
termination
  by (relation "measure (\<lambda>(pol, protected, es). length es)") (auto dest!: oldest_key_in intro!: length_ddel_less)

declare enforce_namespace.simps [simp del]

text \<open>The loop of \<open>_ensure_global_capacity_with_fifo\<close>; \<open>doc\<close> is the document with the given entries.\<close>

function ensure_global_capacity ::
    "ns_policy \<Rightarrow> store \<Rightarrow> ustr option \<Rightarrow> (bucket \<Rightarrow> mem_values) \<Rightarrow> bucket \<Rightarrow> bucket result" where
  "ensure_global_capacity pol st protected doc es =
     rbind (estimate_document_size (doc es)) (\<lambda>required.
     rbind (capacity_bytes st) (\<lambda>cap.
       if int required \<le> cap then Inr es
       else if np_eviction pol \<noteq> ascii ''fifo'' then Inl QuotaExceeded
       else (case oldest_key protected es of
               None \<Rightarrow> Inl QuotaExceeded
             | Some victim \<Rightarrow> ensure_global_capacity pol st protected doc (ddel victim es))))"
  by pat_completeness auto
termination
  by (relation "measure (\<lambda>(pol, st, protected, doc, es). length es)") (auto dest!: oldest_key_in intro!: length_ddel_less)

declare ensure_global_capacity.simps [simp del]

section \<open>Opening\<close>

definition ensure_open :: "agent_memory \<Rightarrow> unit result" where
  "ensure_open m = raise_if (am_closed m) (RuntimeError ''spatial agent session is closed'')"

definition new_memory :: "store \<Rightarrow> bool \<Rightarrow> mem_values \<Rightarrow> (ustr, ns_policy) dict \<Rightarrow> agent_memory" where
  "new_memory st dirty vs selected =
     (let sorted = sort_key fst selected in
      \<lparr>am_store = st, am_closed = False, am_dirty = dirty, am_rest = ddel MEMORY_ROOT_KEY vs,
       am_version = SInt 1, am_next = 1, am_policies = sorted, am_spaces = map (\<lambda>p. (fst p, [])) sorted\<rparr>)"

definition memory_open ::
    "store \<Rightarrow> bool \<Rightarrow> mem_values \<Rightarrow> (ustr \<times> (ns_policy + sval)) list option \<Rightarrow> agent_memory result" where
  "memory_open st dirty vs policies =
     (if sget vs ''agent_memory_namespaces'' = SNone then
        rbind (case policies of
                 Some ps \<Rightarrow> requested_policies ps
               | None \<Rightarrow> rbind (capacity_bytes st) default_memory_policies) (\<lambda>selected.
        (let m = new_memory st True vs selected in
         rbind (ensure_document_capacity (session_values m) st) (\<lambda>_. Inr m)))
      else
        rbind (validate_root (sget vs ''agent_memory_namespaces'')) (\<lambda>(version, next, l).
        (let m = \<lparr>am_store = st, am_closed = False, am_dirty = dirty, am_rest = ddel MEMORY_ROOT_KEY vs,
                  am_version = version, am_next = next, am_policies = map (\<lambda>(n, p, b). (n, p)) l,
                  am_spaces = map (\<lambda>(n, p, b). (n, b)) l\<rparr> in
         case policies of
           None \<Rightarrow> Inr m
         | Some ps \<Rightarrow>
             rbind (requested_policies ps) (\<lambda>requested.
             if sort_key fst requested \<noteq> sort_key fst (am_policies m)
             then Inl (ValueError ''persisted memory namespace policies do not match requested policies'')
             else Inr m))))"

section \<open>Operations\<close>

definition checked_root :: "agent_memory \<Rightarrow> unit result" where
  "checked_root m = rbind (validate_root (root_value m)) (\<lambda>_. Inr ())"

definition memory_policies :: "agent_memory \<Rightarrow> mem_values" where
  "memory_policies m = map (\<lambda>p. (fst p, policy_value (snd p))) (sort_key fst (am_policies m))"

definition namespaces :: "agent_memory \<Rightarrow> ustr list" where
  "namespaces m = sort (map fst (am_policies m))"

definition require_namespace :: "ustr \<Rightarrow> agent_memory \<Rightarrow> ns_policy result" where
  "require_namespace ns m =
     (case dget (am_policies m) ns of None \<Rightarrow> Inl (KeyError ''unknown memory namespace'') | Some p \<Rightarrow> Inr p)"

definition validate_key :: "ustr \<Rightarrow> unit result" where
  "validate_key key = raise_if (\<not> memory_key key) (ValueError ''memory key contains unsupported characters or length'')"

definition bucket_of :: "ustr \<Rightarrow> agent_memory \<Rightarrow> bucket result" where
  "bucket_of ns m = (case dget (am_spaces m) ns of None \<Rightarrow> Inl (KeyError ''namespace'') | Some b \<Rightarrow> Inr b)"

text \<open>The prologue of the reading operations: the namespace, the lock and the validated root.\<close>

definition open_bucket :: "ustr \<Rightarrow> agent_memory \<Rightarrow> bucket result" where
  "open_bucket ns m = rbind (ensure_open m) (\<lambda>_. rbind (checked_root m) (\<lambda>_. bucket_of ns m))"

record ns_usage =
  nu_entries :: nat
  nu_encoded_bytes :: nat
  nu_policy :: ns_policy

fun usage_of :: "agent_memory \<Rightarrow> ustr list \<Rightarrow> (ustr, ns_usage) dict result" where
  "usage_of m [] = Inr []"
| "usage_of m (name # names) =
     rbind (require_namespace name m) (\<lambda>p.
     rbind (bucket_of name m) (\<lambda>b.
     rbind (estimate_value_size (bucket_value b)) (\<lambda>n.
     rbind (usage_of m names) (\<lambda>rest.
       Inr ((name, \<lparr>nu_entries = length b, nu_encoded_bytes = n, nu_policy = p\<rparr>) # rest)))))"

definition memory_usage :: "ustr option \<Rightarrow> agent_memory \<Rightarrow> (ustr, ns_usage) dict result" where
  "memory_usage ns m =
     rbind (ensure_open m) (\<lambda>_. rbind (checked_root m) (\<lambda>_.
       usage_of m (case ns of Some n \<Rightarrow> [n] | None \<Rightarrow> namespaces m)))"

definition memory_get :: "ustr \<Rightarrow> ustr \<Rightarrow> sval \<Rightarrow> agent_memory \<Rightarrow> sval result" where
  "memory_get ns key dflt m =
     rbind (require_namespace ns m) (\<lambda>_. rbind (validate_key key) (\<lambda>_. rbind (open_bucket ns m) (\<lambda>b.
       Inr (case dget b key of None \<Rightarrow> dflt | Some e \<Rightarrow> me_value e))))"

definition memory_keys :: "ustr \<Rightarrow> agent_memory \<Rightarrow> ustr list result" where
  "memory_keys ns m =
     rbind (require_namespace ns m) (\<lambda>_. rbind (open_bucket ns m) (\<lambda>b. Inr (sort (map fst b))))"

definition memory_snapshot :: "ustr \<Rightarrow> agent_memory \<Rightarrow> mem_values result" where
  "memory_snapshot ns m =
     rbind (require_namespace ns m) (\<lambda>_. rbind (open_bucket ns m) (\<lambda>b.
       Inr (map (\<lambda>p. (fst p, me_value (snd p))) (sort_key fst b))))"

definition put_bucket :: "ustr \<Rightarrow> bucket \<Rightarrow> agent_memory \<Rightarrow> agent_memory" where
  "put_bucket ns b m = m\<lparr>am_spaces := dset ns b (am_spaces m)\<rparr>"

definition set_locked :: "ns_policy \<Rightarrow> ustr \<Rightarrow> ustr \<Rightarrow> sval \<Rightarrow> agent_memory \<Rightarrow> agent_memory result" where
  "set_locked pol ns key v m =
     rbind (bucket_of ns m) (\<lambda>b.
     (let m1 = m\<lparr>am_next := am_next m + 1\<rparr>;
          doc = (\<lambda>es. session_values (put_bucket ns es m1))
      in rbind (enforce_namespace pol (Some key) (dset key \<lparr>me_sequence = am_next m, me_value = v\<rparr> b)) (\<lambda>es.
         rbind (ensure_global_capacity pol (am_store m) (Some key) doc es) (\<lambda>es'.
           Inr ((put_bucket ns es' m1)\<lparr>am_dirty := True\<rparr>)))))"

text \<open>A failing operation leaves the memory as it was.\<close>

definition committed :: "agent_memory \<Rightarrow> ('a \<times> agent_memory) result \<Rightarrow> 'a result \<times> agent_memory" where
  "committed m r = (case r of Inl e \<Rightarrow> (Inl e, m) | Inr (x, m') \<Rightarrow> (Inr x, m'))"

definition memory_set :: "ustr \<Rightarrow> ustr \<Rightarrow> sval \<Rightarrow> agent_memory \<Rightarrow> unit result \<times> agent_memory" where
  "memory_set ns key v m = committed m
     (rbind (require_namespace ns m) (\<lambda>pol. rbind (validate_key key) (\<lambda>_.
      if take (length APPEND_KEY_PREFIX) key = APPEND_KEY_PREFIX
      then Inl (ValueError ''memory keys beginning with reserved append prefix are not allowed'')
      else rbind (ensure_open m) (\<lambda>_. rbind (set_locked pol ns key v m) (\<lambda>m'. Inr ((), m'))))))"

fun hex_str :: "nat \<Rightarrow> string" where
  "hex_str n = (if n < 16 then [hex_digit n] else hex_str (n div 16) @ [hex_digit (n mod 16)])"

declare hex_str.simps [simp del]

definition append_key :: "int \<Rightarrow> ustr" where
  "append_key i =
     (let h = hex_str (nat i) in APPEND_KEY_PREFIX @ ascii (replicate (16 - length h) (CHR ''0'') @ h))"

definition memory_append :: "ustr \<Rightarrow> sval \<Rightarrow> agent_memory \<Rightarrow> ustr result \<times> agent_memory" where
  "memory_append ns v m = committed m
     (rbind (require_namespace ns m) (\<lambda>pol. rbind (open_bucket ns m) (\<lambda>b.
      let key = append_key (am_next m) in
      if key \<in> dkeys b then Inl (ValueError ''generated append key collides with persisted memory'')
      else rbind (set_locked pol ns key v m) (\<lambda>m'. Inr (key, m')))))"

definition memory_delete :: "ustr \<Rightarrow> ustr \<Rightarrow> agent_memory \<Rightarrow> bool result \<times> agent_memory" where
  "memory_delete ns key m = committed m
     (rbind (require_namespace ns m) (\<lambda>_. rbind (validate_key key) (\<lambda>_. rbind (open_bucket ns m) (\<lambda>b.
      if key \<notin> dkeys b then Inr (False, m)
      else Inr (True, (put_bucket ns (ddel key b) m)\<lparr>am_dirty := True\<rparr>)))))"

definition memory_clear :: "ustr \<Rightarrow> agent_memory \<Rightarrow> unit result \<times> agent_memory" where
  "memory_clear ns m = committed m
     (rbind (require_namespace ns m) (\<lambda>_. rbind (ensure_open m) (\<lambda>_. rbind (bucket_of ns m) (\<lambda>_.
      Inr ((), (put_bucket ns [] m)\<lparr>am_dirty := True\<rparr>)))))"

section \<open>Sizes\<close>

text \<open>\<open>v\<close> can be encoded whenever \<open>w\<close> can, in at most as many bytes.\<close>

definition enc_le :: "sval \<Rightarrow> sval \<Rightarrow> bool" where
  "enc_le v w \<longleftrightarrow> (\<forall>bs. encode_value w = Inr bs \<longrightarrow> (\<exists>cs. encode_value v = Inr cs \<and> length cs \<le> length bs))"

definition ents_le :: "(ustr \<times> sval) list \<Rightarrow> (ustr \<times> sval) list \<Rightarrow> bool" where
  "ents_le xs ys \<longleftrightarrow> (\<forall>bs. encode_entries ys = Inr bs \<longrightarrow> (\<exists>cs. encode_entries xs = Inr cs \<and> length cs \<le> length bs))"

lemma enc_le_refl [simp]: "enc_le v v"
  by (simp add: enc_le_def)

lemma enc_le_trans: "enc_le u v \<Longrightarrow> enc_le v w \<Longrightarrow> enc_le u w"
  unfolding enc_le_def by (meson order_trans)

lemma block32_le:
  assumes "block32 raw = Inr b" "length raw' \<le> length raw"
  obtains b' where "block32 raw' = Inr b'" "length b' \<le> length b"
  using assms by (auto simp: block32_def u32_def split: if_splits)

lemma ents_le_filter: "ents_le (filter P es) es"
proof (induction es)
  case (Cons p es)
  obtain k v where p: "p = (k, v)" by (cases p)
  show ?case unfolding ents_le_def
  proof (intro allI impI)
    fix bs assume bs: "encode_entries (p # es) = Inr bs"
    then obtain key enc kl b body where e: "utf8_encode k = Inr key" "encode_value v = Inr enc"
        "u16 (length key) = Inr kl" "block32 enc = Inr b" "encode_entries es = Inr body" "bs = kl @ key @ b @ body"
      by (auto simp: p)
    obtain body' where "encode_entries (filter P es) = Inr body'" "length body' \<le> length body"
      using Cons e(5) unfolding ents_le_def by blast
    with e show "\<exists>cs. encode_entries (filter P (p # es)) = Inr cs \<and> length cs \<le> length bs"
      by (auto simp: p)
  qed
qed (simp add: ents_le_def)

definition pointwise_le :: "(ustr \<times> sval) list \<Rightarrow> (ustr \<times> sval) list \<Rightarrow> bool" where
  "pointwise_le = list_all2 (\<lambda>p q. fst p = fst q \<and> enc_le (snd p) (snd q))"

lemma pointwise_le_refl [simp]: "pointwise_le d d"
  by (simp add: pointwise_le_def list_all2_same)

lemma ents_le_pointwise: "pointwise_le xs ys \<Longrightarrow> ents_le xs ys"
  unfolding pointwise_le_def
proof (induction rule: list_all2_induct)
  case (Cons p xs q ys)
  obtain k v where q: "q = (k, v)" by (cases q)
  then obtain w where p: "p = (k, w)" "enc_le w v" using Cons(1) by (cases p) auto
  show ?case unfolding ents_le_def
  proof (intro allI impI)
    fix bs assume "encode_entries (q # ys) = Inr bs"
    then obtain key enc kl b body where e: "utf8_encode k = Inr key" "encode_value v = Inr enc"
        "u16 (length key) = Inr kl" "block32 enc = Inr b" "encode_entries ys = Inr body" "bs = kl @ key @ b @ body"
      by (auto simp: q)
    obtain body' where body': "encode_entries xs = Inr body'" "length body' \<le> length body"
      using Cons(3) e(5) unfolding ents_le_def by blast
    obtain enc' where enc': "encode_value w = Inr enc'" "length enc' \<le> length enc"
      using p(2) e(2) unfolding enc_le_def by blast
    obtain b' where b': "block32 enc' = Inr b'" "length b' \<le> length b"
      by (rule block32_le [OF e(4) enc'(2)])
    with e body' enc' show "\<exists>cs. encode_entries (p # xs) = Inr cs \<and> length cs \<le> length bs"
      by (auto simp: p)
  qed
qed (simp add: ents_le_def)

lemma insort_pointwise:
  assumes "pointwise_le xs ys" "fst p = fst q" "enc_le (snd p) (snd q)"
  shows "pointwise_le (insort_key fst p xs) (insort_key fst q ys)"
  using assms(1) unfolding pointwise_le_def
  by (induction rule: list_all2_induct) (use assms(2,3) in auto)

lemma sort_pointwise: "pointwise_le xs ys \<Longrightarrow> pointwise_le (sort_key fst xs) (sort_key fst ys)"
proof -
  have "list_all2 (\<lambda>p q. fst p = fst q \<and> enc_le (snd p) (snd q)) xs ys \<Longrightarrow> ?thesis"
    by (induction rule: list_all2_induct) (auto intro!: insort_pointwise simp: pointwise_le_def [symmetric])
  then show "pointwise_le xs ys \<Longrightarrow> ?thesis" by (simp add: pointwise_le_def)
qed

lemma enc_le_dict:
  assumes "ents_le (sort_key fst xs) (sort_key fst ys)" "length xs \<le> length ys"
  shows "enc_le (SDict xs) (SDict ys)"
  unfolding enc_le_def
proof (intro allI impI)
  fix bs assume "encode_value (SDict ys) = Inr bs"
  then obtain n body where e: "u32 (length ys) = Inr n" "encode_entries (sort_key fst ys) = Inr body" "bs = 8 # n @ body"
    by auto
  then obtain body' where "encode_entries (sort_key fst xs) = Inr body'" "length body' \<le> length body"
    using assms(1) unfolding ents_le_def by blast
  with e assms(2) show "\<exists>cs. encode_value (SDict xs) = Inr cs \<and> length cs \<le> length bs"
    by (auto simp: u32_def split: if_splits)
qed

lemma enc_le_filter: "enc_le (SDict (filter P es)) (SDict es)"
  by (rule enc_le_dict) (simp_all add: filter_sort [symmetric] ents_le_filter)

lemma enc_le_pointwise: "pointwise_le xs ys \<Longrightarrow> enc_le (SDict xs) (SDict ys)"
  by (rule enc_le_dict [OF ents_le_pointwise [OF sort_pointwise]]) (auto simp: pointwise_le_def dest: list_all2_lengthD)

lemma pointwise_le_Cons [simp]:
  "pointwise_le ((k, v) # xs) ((l, w) # ys) \<longleftrightarrow> k = l \<and> enc_le v w \<and> pointwise_le xs ys"
  by (simp add: pointwise_le_def)

lemma pointwise_le_append: "pointwise_le xs ys \<Longrightarrow> pointwise_le xs' ys' \<Longrightarrow> pointwise_le (xs @ xs') (ys @ ys')"
  by (simp add: pointwise_le_def list_all2_appendI)

lemma bucket_value_filter: "enc_le (bucket_value (filter (\<lambda>p. Q (fst p)) b)) (bucket_value b)"
proof -
  let ?h = "\<lambda>p. (fst p, entry_value (snd p))"
  have "map ?h (filter (\<lambda>p. Q (fst p)) b) = filter (\<lambda>p. Q (fst p)) (map ?h b)"
    by (simp add: filter_map comp_def)
  then have "enc_le (SDict (map ?h (filter (\<lambda>p. Q (fst p)) b))) (SDict (map ?h b))"
    using enc_le_filter [of "\<lambda>p. Q (fst p)" "map ?h b"] by simp
  then show ?thesis unfolding bucket_value_def by (intro enc_le_pointwise) (simp add: pointwise_le_def)
qed

lemma bucket_value_ddel: "enc_le (bucket_value (ddel k b)) (bucket_value b)"
  using bucket_value_filter [of "\<lambda>k'. k \<noteq> k'" b] by (simp add: AList.delete_eq split_def)

lemma bucket_value_Nil: "enc_le (bucket_value []) (bucket_value b)"
  using bucket_value_filter [of "\<lambda>_. False" b] by simp

lemma pointwise_dset:
  assumes "dget d k = Some b" "enc_le (h b') (h b)"
  shows "pointwise_le (map (\<lambda>p. (fst p, h (snd p))) (dset k b' d)) (map (\<lambda>p. (fst p, h (snd p))) d)"
  using assms by (induction d) (auto split: if_splits)

text \<open>Replacing the entries of a namespace by fewer ones does not make the document larger.\<close>

lemma session_values_le:
  assumes "dget (am_spaces m) ns = Some b" "enc_le (bucket_value b') (bucket_value b)"
  shows "enc_le (SDict (session_values (put_bucket ns b' m))) (SDict (session_values m))"
proof -
  have "enc_le (SDict (map (\<lambda>p. (fst p, bucket_value (snd p))) (dset ns b' (am_spaces m))))
      (SDict (map (\<lambda>p. (fst p, bucket_value (snd p))) (am_spaces m)))"
    by (rule enc_le_pointwise) (rule pointwise_dset [OF assms])
  then have "enc_le (root_value (put_bucket ns b' m)) (root_value m)"
    unfolding root_value_def put_bucket_def by (intro enc_le_pointwise) (simp add: pointwise_le_def)
  then show ?thesis
    unfolding session_values_def by (intro enc_le_pointwise pointwise_le_append) (simp_all add: put_bucket_def pointwise_le_def list_all2_same)
qed

lemma estimate_le:
  assumes "enc_le v w" "estimate_value_size w = Inr n"
  obtains n' where "estimate_value_size v = Inr n'" "n' \<le> n"
  using assms by (auto simp: estimate_value_size_def enc_le_def)

lemma estimate_document_le:
  assumes "enc_le (SDict vs) (SDict ws)" "estimate_document_size ws = Inr n"
  obtains n' where "estimate_document_size vs = Inr n'" "n' \<le> n"
proof -
  obtain bs where bs: "encode_value (SDict ws) = Inr bs" "n = HEADER_SIZE + length bs"
    using assms(2) unfolding estimate_document_size_def by auto
  then obtain cs where "encode_value (SDict vs) = Inr cs" "length cs \<le> length bs"
    using assms(1) unfolding enc_le_def by blast
  with bs that show thesis unfolding estimate_document_size_def by auto
qed

section \<open>Eviction\<close>

definition age :: "ustr \<times> mem_entry \<Rightarrow> int \<times> ustr" where
  "age p = (me_sequence (snd p), fst p)"

text \<open>
  \<open>es'\<close> is what is left of \<open>es\<close> after evicting oldest entries first: the protected entry stays, and
  every evicted entry is older than every other one that stays.
\<close>

definition fifo_left :: "ustr option \<Rightarrow> bucket \<Rightarrow> bucket \<Rightarrow> bool" where
  "fifo_left protected es es' \<longleftrightarrow>
     set es' \<subseteq> set es \<and>
     (\<forall>p \<in> set es - set es'. Some (fst p) \<noteq> protected \<and>
        (\<forall>q \<in> set es'. Some (fst q) \<noteq> protected \<longrightarrow> age p < age q))"

lemma fifo_left_refl [simp]: "fifo_left protected es es"
  by (simp add: fifo_left_def)

lemma fifo_left_trans: "fifo_left protected es es1 \<Longrightarrow> fifo_left protected es1 es2 \<Longrightarrow> fifo_left protected es es2"
  unfolding fifo_left_def by blast

lemma foldr_min_le: "x \<in> insert c (set cs) \<Longrightarrow> foldr min cs c \<le> (x :: 'a :: linorder)"
  by (induction cs) (auto simp: min_le_iff_disj)

lemma oldest_key_min:
  assumes "oldest_key exclude es = Some k" "dict_ok es"
  shows "\<exists>e. (k, e) \<in> set es \<and> (\<forall>p \<in> set es. Some (fst p) \<noteq> exclude \<longrightarrow> age (k, e) \<le> age p)"
proof -
  let ?cs = "map age (filter (\<lambda>p. Some (fst p) \<noteq> exclude) es)"
  have alt: "oldest_key exclude es = (case ?cs of [] \<Rightarrow> None | c # cs \<Rightarrow> Some (snd (foldr min cs c)))"
    by (simp add: oldest_key_def age_def [abs_def])
  then obtain c cs where c: "?cs = c # cs" "k = snd (foldr min cs c)"
    using assms(1) by (cases ?cs) auto
  have mem: "foldr min cs c \<in> set ?cs"
    using foldr_min_in [of cs c] c(1) by simp
  then obtain p where p: "p \<in> set es" "foldr min cs c = age p" by auto
  then have k: "p = (k, snd p)" using c(2) by (simp add: age_def prod_eq_iff)
  have "age p \<le> age q" if "q \<in> set es" "Some (fst q) \<noteq> exclude" for q
  proof -
    have "age q \<in> set ?cs" using that by auto
    then have "age q \<in> insert c (set cs)" by (simp only: c(1) list.set)
    then show ?thesis using foldr_min_le [of "age q" c cs] p(2) by simp
  qed
  with p(1) k show ?thesis by metis
qed

lemma fifo_left_victim:
  assumes "oldest_key protected es = Some k" "dict_ok es"
  shows "fifo_left protected es (ddel k es)"
proof -
  obtain e where e: "(k, e) \<in> set es" and least: "\<And>p. p \<in> set es \<Longrightarrow> Some (fst p) \<noteq> protected \<Longrightarrow> age (k, e) \<le> age p"
    using oldest_key_min [OF assms] by blast
  have only: "p = (k, e)" if "p \<in> set es" "fst p = k" for p
    using that e assms(2) by (metis dget_in_set option.inject prod.collapse)
  have older: "age (k, e) < age q" if "q \<in> set (ddel k es)" "Some (fst q) \<noteq> protected" for q
  proof -
    have "q \<in> set es" "fst q \<noteq> k" using that(1) by (auto simp: set_ddel)
    then have "age (k, e) \<le> age q" "age (k, e) \<noteq> age q"
      using least that(2) by (auto simp: age_def)
    then show ?thesis by simp
  qed
  show ?thesis unfolding fifo_left_def
  proof (intro conjI ballI impI)
    show "set (ddel k es) \<subseteq> set es" by (auto simp: set_ddel)
    fix p assume "p \<in> set es - set (ddel k es)"
    then have p: "p = (k, e)" using only by (auto simp: set_ddel)
    then show "Some (fst p) \<noteq> protected" using oldest_key_in [OF assms(1)] by simp
    show "age p < age q" if "q \<in> set (ddel k es)" "Some (fst q) \<noteq> protected" for q
      using older [OF that] p by simp
  qed
qed

lemma enforce_namespace_spec:
  assumes "enforce_namespace pol protected es = Inr es'" "dict_ok es"
  shows "dict_ok es' \<and> fifo_left protected es es' \<and> over_quota pol es' = Inr False \<and>
    (np_eviction pol = ascii ''reject'' \<longrightarrow> es' = es) \<and> enc_le (bucket_value es') (bucket_value es)"
  using assms
proof (induction pol protected es rule: enforce_namespace.induct)
  case (1 pol protected es)
  obtain over where over: "over_quota pol es = Inr over"
    using 1(2) by (subst (asm) enforce_namespace.simps) auto
  show ?case
  proof (cases over)
    case False
    with 1(2,3) over show ?thesis by (subst (asm) enforce_namespace.simps) auto
  next
    case True
    with 1(2) over obtain k where k: "np_eviction pol \<noteq> ascii ''reject''" "oldest_key protected es = Some k"
        "enforce_namespace pol protected (ddel k es) = Inr es'"
      by (subst (asm) enforce_namespace.simps) (auto split: if_splits option.splits)
    from 1(1) [OF over _ k(1,2) k(3)] True 1(3) have
      "dict_ok es' \<and> fifo_left protected (ddel k es) es' \<and> over_quota pol es' = Inr False \<and>
        enc_le (bucket_value es') (bucket_value (ddel k es))" by simp
    with k(1) fifo_left_victim [OF k(2) 1(3)] bucket_value_ddel [of k es] show ?thesis
      by (auto intro: fifo_left_trans enc_le_trans)
  qed
qed

lemma ensure_global_capacity_spec:
  assumes "ensure_global_capacity pol st protected doc es = Inr es'" "dict_ok es"
  shows "dict_ok es' \<and> fifo_left protected es es' \<and>
    (\<exists>n cap. estimate_document_size (doc es') = Inr n \<and> capacity_bytes st = Inr cap \<and> int n \<le> cap) \<and>
    (np_eviction pol \<noteq> ascii ''fifo'' \<longrightarrow> es' = es) \<and> enc_le (bucket_value es') (bucket_value es) \<and> length es' \<le> length es"
  using assms
proof (induction pol st protected doc es rule: ensure_global_capacity.induct)
  case (1 pol st protected doc es)
  obtain n cap where n: "estimate_document_size (doc es) = Inr n" "capacity_bytes st = Inr cap"
    using 1(2) by (subst (asm) ensure_global_capacity.simps) auto
  show ?case
  proof (cases "int n \<le> cap")
    case True
    with 1(2,3) n show ?thesis by (subst (asm) ensure_global_capacity.simps) auto
  next
    case False
    with 1(2) n obtain k where k: "\<not> np_eviction pol \<noteq> ascii ''fifo''" "oldest_key protected es = Some k"
        "ensure_global_capacity pol st protected doc (ddel k es) = Inr es'"
      by (subst (asm) ensure_global_capacity.simps) (auto split: if_splits option.splits)
    from 1(1) [OF n False k(1,2) k(3)] 1(3) have
      "dict_ok es' \<and> fifo_left protected (ddel k es) es' \<and>
        (\<exists>n cap. estimate_document_size (doc es') = Inr n \<and> capacity_bytes st = Inr cap \<and> int n \<le> cap) \<and>
        enc_le (bucket_value es') (bucket_value (ddel k es)) \<and> length es' \<le> length (ddel k es)" by simp
    moreover have "length (ddel k es) \<le> length es"
      by (simp add: AList.delete_eq)
    ultimately show ?thesis
      using k(1) fifo_left_victim [OF k(2) 1(3)] bucket_value_ddel [of k es]
      by (auto intro: fifo_left_trans enc_le_trans)
  qed
qed

lemma over_quota_le:
  assumes "over_quota pol es = Inr False" "length es' \<le> length es" "enc_le (bucket_value es') (bucket_value es)"
  shows "over_quota pol es' = Inr False"
proof -
  obtain n where n: "int (length es) \<le> np_max_entries pol" "estimate_value_size (bucket_value es) = Inr n" "int n \<le> np_max_bytes pol"
    using assms(1) by (auto simp: over_quota_def split: if_splits)
  obtain n' where "estimate_value_size (bucket_value es') = Inr n'" "n' \<le> n"
    by (rule estimate_le [OF assms(3) n(2)])
  with n assms(2) show ?thesis by (simp add: over_quota_def)
qed

section \<open>Invariant\<close>

definition policy_ok :: "ustr \<Rightarrow> ns_policy \<Rightarrow> bool" where
  "policy_ok n p \<longleftrightarrow> np_name p = n \<and> namespace_name n \<and> 64 \<le> np_max_bytes p \<and> 1 \<le> np_max_entries p \<and>
     (np_eviction p = ascii ''reject'' \<or> np_eviction p = ascii ''fifo'')"

definition bucket_ok :: "int \<Rightarrow> bucket \<Rightarrow> bool" where
  "bucket_ok next b \<longleftrightarrow> dict_ok b \<and>
     (\<forall>p \<in> set b. memory_key (fst p) \<and> 1 \<le> me_sequence (snd p) \<and> me_sequence (snd p) < next)"

definition seqs :: "bucket \<Rightarrow> int list" where
  "seqs b = map (\<lambda>p. me_sequence (snd p)) b"

definition spaces_ok :: "int \<Rightarrow> (ustr, bucket) dict \<Rightarrow> bool" where
  "spaces_ok next sp \<longleftrightarrow> dict_ok sp \<and>
     (\<forall>n b. (n, b) \<in> set sp \<longrightarrow> bucket_ok next b \<and> distinct (seqs b)) \<and>
     (\<forall>n b n' b'. (n, b) \<in> set sp \<longrightarrow> (n', b') \<in> set sp \<longrightarrow> n \<noteq> n' \<longrightarrow> set (seqs b) \<inter> set (seqs b') = {})"

text \<open>The structure the code checks on every access.\<close>

definition root_ok :: "agent_memory \<Rightarrow> bool" where
  "root_ok m \<longleftrightarrow> is_one (am_version m) \<and> 1 \<le> am_next m \<and> dict_ok (am_policies m) \<and>
     dkeys (am_policies m) = dkeys (am_spaces m) \<and> (\<forall>(n, p) \<in> set (am_policies m). policy_ok n p) \<and>
     spaces_ok (am_next m) (am_spaces m)"

text \<open>Every namespace is within its quota and the document fits its region.\<close>

definition within_quota :: "agent_memory \<Rightarrow> bool" where
  "within_quota m \<longleftrightarrow>
     (\<forall>ns pol b. dget (am_policies m) ns = Some pol \<longrightarrow> dget (am_spaces m) ns = Some b \<longrightarrow> over_quota pol b = Inr False) \<and>
     (\<exists>n cap. estimate_document_size (session_values m) = Inr n \<and> capacity_bytes (am_store m) = Inr cap \<and> int n \<le> cap)"

lemma ascii_eq [simp]: "ascii s = ascii t \<longleftrightarrow> s = t"
  unfolding ascii_def by (rule inj_map_eq_map) (simp add: inj_on_def)

lemma ascii_Nil [simp]: "ascii [] = []"
  by (simp add: ascii_def)

lemma sget_simps:
  "sget ((ascii a, v) # d) b = (if a = b then v else sget d b)" "sget [] b = SNone"
  by (auto simp: sget_def)

lemma check_entries_ok:
  assumes "\<And>p. p \<in> set b \<Longrightarrow> memory_key (fst p) \<and> 1 \<le> me_sequence (snd p)"
    and "distinct (seqs b)" "set (seqs b) \<inter> set seen = {}"
  shows "check_entries (map (\<lambda>p. (fst p, entry_value (snd p))) b) seen = Inr (b, rev (seqs b) @ seen)"
  using assms
proof (induction b arbitrary: seen)
  case (Cons p b)
  obtain k e where p: "p = (k, e)" by (cases p)
  have k: "memory_key k" "1 \<le> me_sequence e"
    using Cons.prems(1) [of p] by (simp_all add: p)
  have "check_entries (map (\<lambda>p. (fst p, entry_value (snd p))) b) (me_sequence e # seen) =
      Inr (b, rev (seqs b) @ me_sequence e # seen)"
    using Cons.prems by (intro Cons.IH) (auto simp: seqs_def p)
  then show ?case
    using k Cons.prems(3) by (simp add: p entry_value_def sget_simps seqs_def)
qed (simp add: seqs_def)

lemma dget_map_snd: "dget (map (\<lambda>p. (fst p, h (snd p))) d) k = map_option h (dget d k)"
  by (induction d) auto

lemma policy_from_value: "policy_ok n p \<Longrightarrow> policy_from_dict n (policy_value p) = Inr p"
  by (auto simp: policy_from_dict_def policy_value_def sget_simps mk_policy_def policy_ok_def)

lemma check_namespaces_ok:
  assumes "\<And>n p. (n, p) \<in> set ps \<Longrightarrow> policy_ok n p \<and> n \<in> dkeys spaces"
    and "distinct (map fst ps)"
    and "\<And>n b. dget spaces n = Some b \<Longrightarrow> bucket_ok next b \<and> distinct (seqs b)"
    and "\<And>n b n' b'. dget spaces n = Some b \<Longrightarrow> dget spaces n' = Some b' \<Longrightarrow> n \<noteq> n' \<Longrightarrow> set (seqs b) \<inter> set (seqs b') = {}"
    and "\<And>n b. n \<in> fst ` set ps \<Longrightarrow> dget spaces n = Some b \<Longrightarrow> set (seqs b) \<inter> set seen = {}" "\<And>i. i \<in> set seen \<Longrightarrow> i < next"
  shows "\<exists>l seen'. check_namespaces (map (\<lambda>p. (fst p, policy_value (snd p))) ps)
      (map (\<lambda>p. (fst p, bucket_value (snd p))) spaces) seen = Inr (l, seen') \<and> (\<forall>i \<in> set seen'. i < next)"
  using assms(1,2,5,6)
proof (induction ps arbitrary: seen)
  case (Cons q ps)
  obtain n p where q: "q = (n, p)" by (cases q)
  obtain b where b: "dget spaces n = Some b"
    using Cons.prems(1) [of n p] by (auto simp: q dkeys_iff)
  have ok: "bucket_ok next b" "distinct (seqs b)" using assms(3) [OF b] by auto
  have e: "check_entries (map (\<lambda>p. (fst p, entry_value (snd p))) b) seen = Inr (b, rev (seqs b) @ seen)"
    using ok Cons.prems(3) [OF _ b] by (intro check_entries_ok) (auto simp: q bucket_ok_def)
  have "\<exists>l seen'. check_namespaces (map (\<lambda>p. (fst p, policy_value (snd p))) ps)
      (map (\<lambda>p. (fst p, bucket_value (snd p))) spaces) (rev (seqs b) @ seen) = Inr (l, seen') \<and> (\<forall>i \<in> set seen'. i < next)"
  proof (rule Cons.IH)
    fix n' b' assume n': "n' \<in> fst ` set ps" "dget spaces n' = Some b'"
    then have "n \<noteq> n'" using Cons.prems(2) by (auto simp: q)
    with n' b show "set (seqs b') \<inter> set (rev (seqs b) @ seen) = {}"
      using assms(4) [OF n'(2) b] Cons.prems(3) [of n' b'] by auto
  next
    show "i < next" if "i \<in> set (rev (seqs b) @ seen)" for i
      using that ok Cons.prems(4) by (auto simp: bucket_ok_def seqs_def)
  qed (use Cons.prems in \<open>auto simp: q\<close>)
  moreover have "dget (map (\<lambda>p. (fst p, bucket_value (snd p))) spaces) n =
      Some (SDict [(ascii ''entries'', SDict (map (\<lambda>p. (fst p, entry_value (snd p))) b))])"
    by (simp add: dget_map_snd b) (simp add: bucket_value_def)
  moreover have "policy_from_dict n (policy_value p) = Inr p"
    using Cons.prems(1) [of n p] by (simp add: q policy_from_value)
  ultimately show ?case
    using e by (auto simp: q sget_simps)
qed simp

lemma foldr_max_less: "0 < n \<Longrightarrow> \<forall>i \<in> set xs. i < n \<Longrightarrow> foldr max xs 0 < (n :: int)"
  by (induction xs) auto

lemma dkeys_map_snd [simp]: "dkeys (map (\<lambda>p. (fst p, h (snd p))) d) = dkeys d"
  by (simp add: image_image)

theorem checked_root_ok:
  assumes "root_ok m"
  shows "checked_root m = Inr ()"
proof -
  have dp: "dict_ok (am_policies m)" "spaces_ok (am_next m) (am_spaces m)" "dkeys (am_policies m) = dkeys (am_spaces m)" "1 \<le> am_next m"
    using assms by (auto simp: root_ok_def)
  have "\<exists>l seen'. check_namespaces (map (\<lambda>p. (fst p, policy_value (snd p))) (am_policies m))
      (map (\<lambda>p. (fst p, bucket_value (snd p))) (am_spaces m)) [] = Inr (l, seen') \<and> (\<forall>i \<in> set seen'. i < am_next m)"
  proof (rule check_namespaces_ok)
    show "policy_ok n p \<and> n \<in> dkeys (am_spaces m)" if "(n, p) \<in> set (am_policies m)" for n p
    proof -
      have "n \<in> dkeys (am_policies m)" using that by (rule image_eqI [rotated]) simp
      moreover have "policy_ok n p" using that assms by (auto simp: root_ok_def)
      ultimately show ?thesis unfolding dp(3) by blast
    qed
    show "distinct (map fst (am_policies m))" using dp(1) by (simp add: dict_ok_def)
    show "bucket_ok (am_next m) b \<and> distinct (seqs b)" if "dget (am_spaces m) n = Some b" for n b
      using dget_some_in_set [OF that] dp(2) unfolding spaces_ok_def by blast
    show "set (seqs b) \<inter> set (seqs b') = {}" if "dget (am_spaces m) n = Some b" "dget (am_spaces m) n' = Some b'" "n \<noteq> n'" for n b n' b'
      using dget_some_in_set [OF that(1)] dget_some_in_set [OF that(2)] that(3) dp(2) unfolding spaces_ok_def by blast
  qed auto
  then obtain l seen where l: "check_namespaces (map (\<lambda>p. (fst p, policy_value (snd p))) (am_policies m))
      (map (\<lambda>p. (fst p, bucket_value (snd p))) (am_spaces m)) [] = Inr (l, seen)" "\<forall>i \<in> set seen. i < am_next m" by blast
  have "\<not> foldr max seen 0 \<ge> am_next m"
    using foldr_max_less [OF _ l(2)] dp(4) by simp
  moreover have "is_one (am_version m)" "\<not> am_next m < 1" using assms by (auto simp: root_ok_def)
  ultimately show ?thesis
    using l(1) dp(3) unfolding checked_root_def validate_root_def root_value_def
    by (simp add: sget_simps del: dkeys_map_snd) (simp add: image_image)
qed

lemma spaces_ok_put:
  assumes "spaces_ok next sp" "(ns, b) \<in> set sp" "next \<le> next'" "bucket_ok next' es" "distinct (seqs es)"
    and new: "\<And>i. i \<in> set (seqs es) \<Longrightarrow> i \<in> set (seqs b) \<or> next \<le> i"
  shows "spaces_ok next' (dset ns es sp)" "dkeys (dset ns es sp) = dkeys sp"
proof -
  have sp: "set (dset ns es sp) = insert (ns, es) {p \<in> set sp. fst p \<noteq> ns}"
    using assms(1) by (intro set_dset) (simp add: spaces_ok_def)
  have bk: "bucket_ok next b'" "distinct (seqs b')" if "(n, b') \<in> set sp" for n b'
    using that assms(1) by (auto simp: spaces_ok_def)
  have pair: "set (seqs x) \<inter> set (seqs y) = {}" if "(n, x) \<in> set sp" "(n', y) \<in> set sp" "n \<noteq> n'" for n n' x y
    using that assms(1) unfolding spaces_ok_def by blast
  have "i < next" if "(n, b') \<in> set sp" "i \<in> set (seqs b')" for n b' i
    using bk(1) [OF that(1)] that(2) by (auto simp: bucket_ok_def seqs_def)
  then have disj: "set (seqs es) \<inter> set (seqs b') = {}" if "(n, b') \<in> set sp" "n \<noteq> ns" for n b'
    using new pair [OF assms(2) that(1)] that by fastforce
  have mono: "bucket_ok next' b'" if "(n, b') \<in> set sp" for n b'
    using bk(1) [OF that] assms(3) by (auto simp: bucket_ok_def)
  show "spaces_ok next' (dset ns es sp)"
    unfolding spaces_ok_def sp
  proof (intro conjI allI impI)
    show "dict_ok (dset ns es sp)" using assms(1) by (simp add: spaces_ok_def)
  next
    fix n b' assume "(n, b') \<in> insert (ns, es) {p \<in> set sp. fst p \<noteq> ns}"
    then show "bucket_ok next' b'" "distinct (seqs b')" using assms(4,5) mono bk(2) by auto
  next
    fix n x n' y
    assume "(n, x) \<in> insert (ns, es) {p \<in> set sp. fst p \<noteq> ns}" "(n', y) \<in> insert (ns, es) {p \<in> set sp. fst p \<noteq> ns}" "n \<noteq> n'"
    then show "set (seqs x) \<inter> set (seqs y) = {}"
      using disj [of n x] disj [of n' y] pair [of n x n' y] by auto
  qed
  show "dkeys (dset ns es sp) = dkeys sp"
    using assms(2) unfolding dkeys_dset by force
qed

lemma seqs_distinct:
  assumes "dict_ok es" "set es \<subseteq> insert (key, e) (set b)" "distinct (seqs b)"
    and less: "\<And>p. p \<in> set b \<Longrightarrow> me_sequence (snd p) < me_sequence e"
  shows "distinct (seqs es)"
proof -
  have inj: "inj_on (\<lambda>p. me_sequence (snd p)) (set b)"
    using assms(3) by (simp add: seqs_def distinct_map)
  have "x = y" if "x \<in> insert (key, e) (set b)" "y \<in> insert (key, e) (set b)" "me_sequence (snd x) = me_sequence (snd y)" for x y
    using that less [of x] less [of y] inj_onD [OF inj that(3)] by auto
  then have "inj_on (\<lambda>p. me_sequence (snd p)) (set es)"
    using assms(2) by (intro inj_onI) blast
  moreover have "distinct es" using assms(1) by (simp add: dict_ok_def distinct_map)
  ultimately show ?thesis by (simp add: seqs_def distinct_map)
qed

lemma root_ok_put:
  assumes "root_ok m" "dget (am_spaces m) ns = Some b" "dict_ok es" "set es \<subseteq> insert (key, e) (set b)"
    and "memory_key key" "me_sequence e = am_next m" "am_next m < next'"
  shows "root_ok ((put_bucket ns es m)\<lparr>am_next := next'\<rparr>)"
proof -
  have b: "(ns, b) \<in> set (am_spaces m)" using assms(2) by (rule dget_some_in_set)
  have sp: "spaces_ok (am_next m) (am_spaces m)" "1 \<le> am_next m" using assms(1) by (auto simp: root_ok_def)
  then have bk: "bucket_ok (am_next m) b" "distinct (seqs b)" using b unfolding spaces_ok_def by blast+
  then have "\<And>p. p \<in> set b \<Longrightarrow> me_sequence (snd p) < me_sequence e"
    using assms(6) by (auto simp: bucket_ok_def)
  then have d: "distinct (seqs es)"
    by (rule seqs_distinct [OF assms(3,4) bk(2)])
  have ok: "bucket_ok next' es"
    using assms(3-7) bk(1) sp(2) by (fastforce simp: bucket_ok_def)
  have "i \<in> set (seqs b) \<or> am_next m \<le> i" if "i \<in> set (seqs es)" for i
    using that assms(4,6) by (force simp: seqs_def)
  then show ?thesis
    using spaces_ok_put [OF sp(1) b less_imp_le [OF assms(7)] ok d] assms(1,7) sp(2)
    by (simp add: root_ok_def put_bucket_def)
qed

lemma root_ok_shrink:
  assumes "root_ok m" "dget (am_spaces m) ns = Some b" "dict_ok es" "set es \<subseteq> set b"
  shows "root_ok (put_bucket ns es m)"
proof -
  have b: "(ns, b) \<in> set (am_spaces m)" using assms(2) by (rule dget_some_in_set)
  have sp: "spaces_ok (am_next m) (am_spaces m)" using assms(1) by (simp add: root_ok_def)
  then have bk: "bucket_ok (am_next m) b" "distinct (seqs b)" using b unfolding spaces_ok_def by blast+
  then have "inj_on (\<lambda>p. me_sequence (snd p)) (set es)" "distinct es"
    using assms(3,4) by (auto simp: seqs_def distinct_map dict_ok_def intro: inj_on_subset)
  then have d: "distinct (seqs es)" by (simp add: seqs_def distinct_map)
  have ok: "bucket_ok (am_next m) es"
    using assms(3,4) bk(1) by (auto simp: bucket_ok_def)
  have "i \<in> set (seqs b) \<or> am_next m \<le> i" if "i \<in> set (seqs es)" for i
    using that assms(4) by (auto simp: seqs_def)
  then show ?thesis
    using spaces_ok_put [OF sp b order_refl ok d] assms(1) by (simp add: root_ok_def put_bucket_def)
qed

section \<open>Behaviour of the operations\<close>

lemma root_ok_bucket:
  assumes "root_ok m" "dget (am_policies m) ns = Some pol"
  obtains b where "dget (am_spaces m) ns = Some b" "dict_ok b"
proof -
  have "ns \<in> dkeys (am_policies m)" using assms(2) by (simp add: dkeys_iff)
  then have "ns \<in> dkeys (am_spaces m)" using assms(1) by (simp add: root_ok_def)
  then obtain b where b: "dget (am_spaces m) ns = Some b" unfolding dkeys_iff by blast
  then have "bucket_ok (am_next m) b"
    using assms(1) dget_some_in_set [OF b] unfolding root_ok_def spaces_ok_def by blast
  with b that show thesis by (simp add: bucket_ok_def)
qed

lemma root_ok_dirty [simp]: "root_ok (m\<lparr>am_dirty := d\<rparr>) = root_ok m"
  by (simp add: root_ok_def)

lemma within_quota_dirty [simp]: "within_quota (m\<lparr>am_dirty := d\<rparr>) = within_quota m"
  by (simp add: within_quota_def session_values_def root_value_def)

lemma set_locked_spec:
  assumes "root_ok m" "dget (am_spaces m) ns = Some b" "set_locked pol ns key v m = Inr m'"
  shows "\<exists>es. m' = (put_bucket ns es m)\<lparr>am_next := am_next m + 1, am_dirty := True\<rparr> \<and> dict_ok es \<and>
    fifo_left (Some key) (dset key \<lparr>me_sequence = am_next m, me_value = v\<rparr> b) es \<and>
    over_quota pol es = Inr False \<and>
    (np_eviction pol = ascii ''reject'' \<longrightarrow> es = dset key \<lparr>me_sequence = am_next m, me_value = v\<rparr> b) \<and>
    (\<exists>n cap. estimate_document_size (session_values m') = Inr n \<and> capacity_bytes (am_store m) = Inr cap \<and> int n \<le> cap)"
proof -
  let ?b = "dset key \<lparr>me_sequence = am_next m, me_value = v\<rparr> b"
  let ?m1 = "m\<lparr>am_next := am_next m + 1\<rparr>"
  let ?doc = "\<lambda>es. session_values (put_bucket ns es ?m1)"
  obtain es es' where es: "enforce_namespace pol (Some key) ?b = Inr es"
      "ensure_global_capacity pol (am_store m) (Some key) ?doc es = Inr es'"
      "m' = (put_bucket ns es' ?m1)\<lparr>am_dirty := True\<rparr>"
    using assms(2,3) by (auto simp: set_locked_def bucket_of_def Let_def)
  have "dict_ok b"
    using assms(1) dget_some_in_set [OF assms(2)] unfolding root_ok_def spaces_ok_def bucket_ok_def by blast
  then have d: "dict_ok ?b" by simp
  note A = enforce_namespace_spec [OF es(1) d]
  then have d': "dict_ok es" by blast
  note B = ensure_global_capacity_spec [OF es(2) d']
  have "over_quota pol es' = Inr False"
    using A B by (blast intro: over_quota_le)
  moreover have "session_values m' = ?doc es'"
    by (simp add: es(3) session_values_def root_value_def)
  moreover have "m' = (put_bucket ns es' m)\<lparr>am_next := am_next m + 1, am_dirty := True\<rparr>"
    by (simp add: es(3) put_bucket_def)
  moreover have "fifo_left (Some key) ?b es'"
    using A B by (blast intro: fifo_left_trans)
  moreover have "np_eviction pol = ascii ''reject'' \<longrightarrow> es' = ?b"
    using A B by auto
  ultimately show ?thesis using B by metis
qed

lemma fifo_left_protected:
  assumes "fifo_left (Some key) (dset key e b) es" "dict_ok b" "dict_ok es"
  shows "dget es key = Some e" "set es \<subseteq> insert (key, e) (set b)"
proof -
  have "(key, e) \<in> set (dset key e b)" using assms(2) by (simp add: set_dset)
  then have "(key, e) \<in> set es" using assms(1) unfolding fifo_left_def by (metis DiffI fst_conv)
  then show "dget es key = Some e" using assms(3) by (simp add: dget_in_set)
  show "set es \<subseteq> insert (key, e) (set b)"
    using assms(1) set_dset_subset [of key e b] unfolding fifo_left_def by blast
qed

lemma set_locked_invariant:
  assumes "root_ok m" "within_quota m" "dget (am_policies m) ns = Some pol" "memory_key key" "set_locked pol ns key v m = Inr m'"
  shows "root_ok m' \<and> within_quota m'"
proof -
  obtain b where b: "dget (am_spaces m) ns = Some b" "dict_ok b"
    using root_ok_bucket [OF assms(1,3)] by blast
  obtain es where es: "m' = (put_bucket ns es m)\<lparr>am_next := am_next m + 1, am_dirty := True\<rparr>" "dict_ok es"
      "fifo_left (Some key) (dset key \<lparr>me_sequence = am_next m, me_value = v\<rparr> b) es" "over_quota pol es = Inr False"
      "\<exists>n cap. estimate_document_size (session_values m') = Inr n \<and> capacity_bytes (am_store m) = Inr cap \<and> int n \<le> cap"
    using set_locked_spec [OF assms(1) b(1) assms(5)] by blast
  have "root_ok ((put_bucket ns es m)\<lparr>am_next := am_next m + 1\<rparr>)"
    by (rule root_ok_put [OF assms(1) b(1) es(2) fifo_left_protected(2) [OF es(3) b(2) es(2)] assms(4)]) simp_all
  then have "root_ok m'" using root_ok_dirty by (simp add: es(1) put_bucket_def)
  moreover have "within_quota m'"
    using assms(2,3) es(4,5) by (auto simp: within_quota_def es(1) put_bucket_def)
  ultimately show ?thesis by blast
qed

lemma shrink_invariant:
  assumes "root_ok m" "within_quota m" "dget (am_spaces m) ns = Some b" "dict_ok es" "set es \<subseteq> set b"
    and "enc_le (bucket_value es) (bucket_value b)" "length es \<le> length b"
  shows "root_ok ((put_bucket ns es m)\<lparr>am_dirty := True\<rparr>) \<and> within_quota ((put_bucket ns es m)\<lparr>am_dirty := True\<rparr>)"
proof -
  obtain n cap where n: "estimate_document_size (session_values m) = Inr n" "capacity_bytes (am_store m) = Inr cap" "int n \<le> cap"
    using assms(2) by (auto simp: within_quota_def)
  obtain n' where n': "estimate_document_size (session_values (put_bucket ns es m)) = Inr n'" "n' \<le> n"
    by (rule estimate_document_le [OF session_values_le [OF assms(3,6)] n(1)])
  have "within_quota (put_bucket ns es m)"
    unfolding within_quota_def
  proof (intro conjI allI impI)
    show "\<exists>n cap. estimate_document_size (session_values (put_bucket ns es m)) = Inr n \<and>
        capacity_bytes (am_store (put_bucket ns es m)) = Inr cap \<and> int n \<le> cap"
      using n n' by (auto simp: put_bucket_def)
  next
    fix ns' pol b' assume p: "dget (am_policies (put_bucket ns es m)) ns' = Some pol" "dget (am_spaces (put_bucket ns es m)) ns' = Some b'"
    show "over_quota pol b' = Inr False"
    proof (cases "ns' = ns")
      case True
      with p assms(2,3) have "over_quota pol b = Inr False" "b' = es"
        by (auto simp: within_quota_def put_bucket_def)
      with over_quota_le [OF _ assms(7,6)] show ?thesis by blast
    qed (use p assms(2) in \<open>auto simp: within_quota_def put_bucket_def\<close>)
  qed
  with root_ok_shrink [OF assms(1,3,4,5)] show ?thesis by simp
qed

section \<open>Append keys\<close>

lemma hex_str_length: "n < 16 ^ k \<Longrightarrow> 1 \<le> k \<Longrightarrow> length (hex_str n) \<le> k"
proof (induction n arbitrary: k rule: hex_str.induct)
  case (1 n)
  show ?case
  proof (cases "n < 16")
    case True
    with 1(3) show ?thesis by (simp add: hex_str.simps)
  next
    case False
    with 1(2) have k: "2 \<le> k" by (cases "k = 1") (use 1(3) in auto)
    then have "n < 16 * 16 ^ (k - 1)" using 1(2) by (metis One_nat_def Suc_le_lessD Suc_pred numeral_2_eq_2 power_Suc less_le_trans zero_less_Suc lessI)
    then have "n div 16 < 16 ^ (k - 1)" by (simp add: less_mult_imp_div_less mult.commute)
    then have "length (hex_str (n div 16)) \<le> k - 1" using 1(1) [OF False, of "k - 1"] k by simp
    with False k show ?thesis by (simp add: hex_str.simps [of n])
  qed
qed

lemma hex_str_digits: "c \<in> set (hex_str n) \<Longrightarrow> \<exists>d < 16. c = hex_digit d"
proof (induction n rule: hex_str.induct)
  case (1 n)
  have "\<exists>d<16. hex_digit (n mod 16) = hex_digit d" by (rule exI [of _ "n mod 16"]) simp
  with 1 show ?case by (cases "n < 16") (auto simp: hex_str.simps [of n])
qed

lemma hex_code_ok: "d < 16 \<Longrightarrow> digit_code (of_char (hex_digit d)) \<or> lower_code (of_char (hex_digit d))"
  using hex_digit_code [of d] by (auto simp: char_code_def digit_code_def lower_code_def split: if_splits)

lemma append_key_ok:
  assumes "i < 2 ^ 64"
  shows "memory_key (append_key i)"
proof -
  have "nat i < 16 ^ 16" using assms by simp
  then have len: "length (hex_str (nat i)) \<le> 16" by (rule hex_str_length) simp
  have "digit_code (of_char c) \<or> lower_code (of_char c)" if "c \<in> set (hex_str (nat i))" for c
    using hex_str_digits [OF that] hex_code_ok by blast
  then show ?thesis
    using len by (auto simp: memory_key_def append_key_def Let_def APPEND_KEY_PREFIX_def ascii_def list_all_iff
        lower_code_def digit_code_def)
qed

section \<open>Histories\<close>

datatype mem_op = OSet ustr ustr sval | OAppend ustr sval | ODelete ustr ustr | OClear ustr

fun mem_step :: "agent_memory \<Rightarrow> mem_op \<Rightarrow> agent_memory" where
  "mem_step m (OSet ns key v) = snd (memory_set ns key v m)"
| "mem_step m (OAppend ns v) = snd (memory_append ns v m)"
| "mem_step m (ODelete ns key) = snd (memory_delete ns key m)"
| "mem_step m (OClear ns) = snd (memory_clear ns m)"

lemma require_namespace_Inr: "require_namespace ns m = Inr pol \<longleftrightarrow> dget (am_policies m) ns = Some pol"
  by (simp add: require_namespace_def split: option.splits)

lemma set_locked_next:
  assumes "set_locked pol ns key v m = Inr m'"
  shows "am_next m' = am_next m + 1"
  using assms by (auto simp: set_locked_def Let_def put_bucket_def)

lemma committed_Inr [simp]: "committed m r = (Inr x, m') \<longleftrightarrow> r = Inr (x, m')"
  and committed_Inl [simp]: "committed m r = (Inl e, m') \<longleftrightarrow> r = Inl e \<and> m' = m"
  by (auto simp: committed_def split: sum.splits)

lemma committed_snd: "(\<And>x m'. r = Inr (x, m') \<Longrightarrow> P m') \<Longrightarrow> P m \<Longrightarrow> P (snd (committed m r))"
  by (auto simp: committed_def split: sum.splits)

lemma memory_set_Inr: "memory_set ns key v m = (Inr u, m') \<longleftrightarrow>
    (\<exists>pol. dget (am_policies m) ns = Some pol \<and> memory_key key \<and>
      take (length APPEND_KEY_PREFIX) key \<noteq> APPEND_KEY_PREFIX \<and> \<not> am_closed m \<and> set_locked pol ns key v m = Inr m')"
  by (auto simp: memory_set_def require_namespace_Inr validate_key_def ensure_open_def)

lemma open_bucket_Inr: "open_bucket ns m = Inr b \<Longrightarrow> dget (am_spaces m) ns = Some b"
  by (auto simp: open_bucket_def bucket_of_def split: option.splits)

definition keeps :: "agent_memory \<Rightarrow> agent_memory \<Rightarrow> bool" where
  "keeps m m' \<longleftrightarrow> root_ok m' \<and> within_quota m' \<and> am_next m' \<le> am_next m + 1"

lemma keeps_put:
  assumes "root_ok m" "within_quota m" "dget (am_spaces m) ns = Some b" "dict_ok es" "set es \<subseteq> set b"
    and "enc_le (bucket_value es) (bucket_value b)" "length es \<le> length b"
  shows "keeps m ((put_bucket ns es m)\<lparr>am_dirty := True\<rparr>)"
  using shrink_invariant [OF assms] by (simp add: keeps_def put_bucket_def)

lemma keeps_set:
  assumes "root_ok m" "within_quota m" "dget (am_policies m) ns = Some pol" "memory_key key" "set_locked pol ns key v m = Inr m'"
  shows "keeps m m'"
  using set_locked_invariant [OF assms] set_locked_next [OF assms(5)] by (simp add: keeps_def)

lemma mem_step_invariant:
  assumes "root_ok m" "within_quota m" "am_next m < 2 ^ 64"
  shows "keeps m (mem_step m op)"
proof -
  have same: "keeps m m" using assms by (simp add: keeps_def)
  have b: "dict_ok b" if "dget (am_spaces m) ns = Some b" for ns b
    using assms(1) dget_some_in_set [OF that] unfolding root_ok_def spaces_ok_def bucket_ok_def by blast
  show ?thesis
  proof (cases op)
    case (OSet ns key v)
    show ?thesis unfolding OSet mem_step.simps memory_set_def
      by (rule committed_snd) (auto simp: require_namespace_Inr validate_key_def same intro: keeps_set [OF assms(1,2)] split: if_splits)
  next
    case (OAppend ns v)
    show ?thesis unfolding OAppend mem_step.simps memory_append_def
      by (rule committed_snd) (auto simp: require_namespace_Inr Let_def same
          intro: keeps_set [OF assms(1,2) _ append_key_ok [OF assms(3)]] split: if_splits)
  next
    case (ODelete ns key)
    show ?thesis unfolding ODelete mem_step.simps memory_delete_def
    proof (rule committed_snd)
      show "keeps m m" by (rule same)
    next
      fix x m' assume "rbind (require_namespace ns m) (\<lambda>_. rbind (validate_key key) (\<lambda>_. rbind (open_bucket ns m) (\<lambda>b.
        if key \<notin> dkeys b then Inr (False, m) else Inr (True, (put_bucket ns (ddel key b) m)\<lparr>am_dirty := True\<rparr>)))) = Inr (x, m')"
      then obtain b where "open_bucket ns m = Inr b"
          and m': "m' = m \<or> m' = (put_bucket ns (ddel key b) m)\<lparr>am_dirty := True\<rparr>"
        by (auto split: if_splits)
      then have "dget (am_spaces m) ns = Some b" by (simp add: open_bucket_Inr)
      moreover have "length (ddel key b) \<le> length b" by (simp add: AList.delete_eq)
      ultimately have "keeps m ((put_bucket ns (ddel key b) m)\<lparr>am_dirty := True\<rparr>)"
        by (intro keeps_put [OF assms(1,2)]) (auto simp: b set_ddel bucket_value_ddel)
      with m' same show "keeps m m'" by blast
    qed
  next
    case (OClear ns)
    show ?thesis unfolding OClear mem_step.simps memory_clear_def
      by (rule committed_snd) (auto simp: bucket_of_def same bucket_value_Nil split: option.splits intro!: keeps_put [OF assms(1,2)])
  qed
qed

lemma mem_history_invariant:
  assumes "root_ok m" "within_quota m" "am_next m + int (length ops) \<le> 2 ^ 64"
  shows "root_ok (foldl mem_step m ops) \<and> within_quota (foldl mem_step m ops)"
  using assms
proof (induction ops arbitrary: m)
  case (Cons op ops)
  have "keeps m (mem_step m op)"
    using Cons.prems by (intro mem_step_invariant) auto
  then show ?case
    using Cons.prems Cons.IH [of "mem_step m op"] by (auto simp: keeps_def)
qed simp

section \<open>Properties\<close>

definition policies_ok :: "(ustr, ns_policy) dict \<Rightarrow> bool" where
  "policies_ok d \<longleftrightarrow> dict_ok d \<and> (\<forall>n p. (n, p) \<in> set d \<longrightarrow> policy_ok n p)"

lemma policies_ok_dset: "policies_ok d \<Longrightarrow> policy_ok n p \<Longrightarrow> policies_ok (dset n p d)"
  by (auto simp: policies_ok_def set_dset)

lemma normalize_policies_ok:
  assumes "normalize_policies ps acc = Inr sel" "policies_ok acc"
    and "\<And>n p. (n, Inl p) \<in> set ps \<Longrightarrow> policy_ok n p"
  shows "policies_ok sel"
  using assms
proof (induction ps acc rule: normalize_policies.induct)
  case (2 name raw rest acc)
  obtain p where p: "(case raw of
      Inl p \<Rightarrow> if np_name p \<noteq> name then Inl (ValueError ''memory namespace policy name does not match mapping key'') else Inr p
    | Inr d \<Rightarrow> policy_from_dict name d) = Inr p" "np_name p \<notin> dkeys acc" "normalize_policies rest (dset (np_name p) p acc) = Inr sel"
    using 2(2) by (auto split: if_splits)
  have "policy_ok (np_name p) p"
  proof (cases raw)
    case (Inl q)
    with p(1) 2(4) [of name q] show ?thesis by (auto split: if_splits simp: policy_ok_def)
  next
    case (Inr d)
    with p(1) show ?thesis
      by (auto simp: policy_from_dict_def mk_policy_def policy_ok_def split: sval.splits if_splits)
  qed
  then show ?case
    using 2(1) [OF p(1,2,3) policies_ok_dset [OF 2(3)]] 2(4) by auto
qed auto

lemma default_policies_ok:
  assumes "default_memory_policies cap = Inr sel"
  shows "policies_ok sel"
proof -
  have "namespace_name (ascii ''working'')" "namespace_name (ascii ''episodic'')" "namespace_name (ascii ''facts'')"
    "namespace_name (ascii ''tool_results'')" "namespace_name (ascii ''system'')"
    by (simp_all add: namespace_name_def ascii_def lower_code_def digit_code_def)
  with assms show ?thesis
    by (auto simp: default_memory_policies_def policy_weights_def dict_ok_def policy_ok_def policies_ok_def split: if_splits)
qed

lemma empty_bucket_fits: "policy_ok n p \<Longrightarrow> over_quota p [] = Inr False"
proof -
  assume p: "policy_ok n p"
  have "estimate_value_size (bucket_value []) = Inr 23"
    by (simp add: estimate_value_size_def bucket_value_def ascii_def u32_def u16_def block32_def utf8_encode_def
        utf8_enc1_def scalar_value_def)
  with p show ?thesis by (simp add: over_quota_def policy_ok_def)
qed

lemma new_memory_invariant:
  assumes "policies_ok sel"
    and "ensure_document_capacity (session_values (new_memory st d vs sel)) st = Inr u"
  shows "root_ok (new_memory st d vs sel) \<and> within_quota (new_memory st d vs sel)"
proof -
  let ?m = "new_memory st d vs sel"
  have d: "distinct (map fst (sort_key fst sel))"
    using assms(1) by (simp add: policies_ok_def dict_ok_def distinct_map)
  have "root_ok ?m"
    using assms(1) d by (auto simp: policies_ok_def root_ok_def new_memory_def Let_def is_one_def spaces_ok_def bucket_ok_def seqs_def
        dict_ok_def comp_def image_image)
  moreover have "over_quota pol b = Inr False" if "dget (am_policies ?m) ns = Some pol" "dget (am_spaces ?m) ns = Some b" for ns pol b
  proof -
    have "b = []" using dget_some_in_set [OF that(2)] by (auto simp: new_memory_def Let_def)
    moreover have "policy_ok ns pol" using dget_some_in_set [OF that(1)] assms(1) by (auto simp: new_memory_def Let_def policies_ok_def)
    ultimately show ?thesis by (simp add: empty_bucket_fits)
  qed
  moreover have "\<exists>n cap. estimate_document_size (session_values ?m) = Inr n \<and> capacity_bytes (am_store ?m) = Inr cap \<and> int n \<le> cap"
    using assms(2) by (auto simp: ensure_document_capacity_def not_less) (auto simp: new_memory_def Let_def)
  ultimately show ?thesis unfolding within_quota_def by blast
qed

text \<open>The policy objects a caller passes have been constructed, so they are valid.\<close>

definition valid_request :: "(ustr \<times> (ns_policy + sval)) list option \<Rightarrow> bool" where
  "valid_request r \<longleftrightarrow> (case r of None \<Rightarrow> True | Some ps \<Rightarrow>
     list_all (\<lambda>(n, x). case x of Inl p \<Rightarrow> policy_ok n p | Inr _ \<Rightarrow> True) ps)"

text \<open>C33. Agent memory stays within its limits: in a memory created in a store, after any sequence of sets,
  appends, deletes and clears (each of which may fail), every namespace is within its quotas of entries
  and encoded bytes, the whole document fits the region of the store, and the stored structure passes the
  validation that every access performs.\<close>

theorem memory_within_quota:
  assumes "memory_open st d vs policies = Inr m" "sget vs ''agent_memory_namespaces'' = SNone" "valid_request policies"
    and "int (length ops) < 2 ^ 64"
  shows "within_quota (foldl mem_step m ops) \<and> checked_root (foldl mem_step m ops) = Inr ()"
proof -
  obtain sel u where sel: "(case policies of Some ps \<Rightarrow> requested_policies ps
        | None \<Rightarrow> rbind (capacity_bytes st) default_memory_policies) = Inr sel"
      "ensure_document_capacity (session_values (new_memory st True vs sel)) st = Inr u" "m = new_memory st True vs sel"
    using assms(1,2) by (auto simp: memory_open_def Let_def)
  have "policies_ok sel"
  proof (cases policies)
    case None
    with sel(1) show ?thesis using default_policies_ok by auto
  next
    case (Some ps)
    with sel(1) have n: "normalize_policies ps [] = Inr sel" by (auto simp: requested_policies_def split: if_splits)
    show ?thesis
      by (rule normalize_policies_ok [OF n]) (use assms(3) Some in \<open>auto simp: valid_request_def list_all_iff policies_ok_def\<close>)
  qed
  then have "root_ok m \<and> within_quota m"
    unfolding sel(3) by (rule new_memory_invariant [OF _ sel(2)])
  moreover have "am_next m + int (length ops) \<le> 2 ^ 64"
    using assms(4) by (simp add: sel(3) new_memory_def Let_def)
  ultimately show ?thesis
    using mem_history_invariant [of m ops] checked_root_ok by blast
qed

lemma memory_set_success:
  assumes "root_ok m" "memory_set ns key v m = (Inr u, m')"
  obtains pol b es where "dget (am_policies m) ns = Some pol" "dget (am_spaces m) ns = Some b" "dict_ok b" "dict_ok es"
    "m' = (put_bucket ns es m)\<lparr>am_next := am_next m + 1, am_dirty := True\<rparr>"
    "fifo_left (Some key) (dset key \<lparr>me_sequence = am_next m, me_value = v\<rparr> b) es"
    "np_eviction pol = ascii ''reject'' \<longrightarrow> es = dset key \<lparr>me_sequence = am_next m, me_value = v\<rparr> b"
    "dget es key = Some \<lparr>me_sequence = am_next m, me_value = v\<rparr>"
    "root_ok m'" "memory_key key" "\<not> am_closed m"
proof -
  obtain pol where pol: "dget (am_policies m) ns = Some pol" "memory_key key" "\<not> am_closed m" "set_locked pol ns key v m = Inr m'"
    using assms(2) by (auto simp: memory_set_Inr)
  obtain b where b: "dget (am_spaces m) ns = Some b" "dict_ok b"
    using root_ok_bucket [OF assms(1) pol(1)] by blast
  obtain es where es: "m' = (put_bucket ns es m)\<lparr>am_next := am_next m + 1, am_dirty := True\<rparr>" "dict_ok es"
      "fifo_left (Some key) (dset key \<lparr>me_sequence = am_next m, me_value = v\<rparr> b) es"
      "np_eviction pol = ascii ''reject'' \<longrightarrow> es = dset key \<lparr>me_sequence = am_next m, me_value = v\<rparr> b"
    using set_locked_spec [OF assms(1) b(1) pol(4)] by blast
  have "root_ok ((put_bucket ns es m)\<lparr>am_next := am_next m + 1\<rparr>)"
    by (rule root_ok_put [OF assms(1) b(1) es(2) fifo_left_protected(2) [OF es(3) b(2) es(2)] pol(2)]) simp_all
  then have "root_ok m'" using root_ok_dirty by (simp add: es(1) put_bucket_def)
  with that pol b es fifo_left_protected(1) [OF es(3) b(2) es(2)] show thesis by blast
qed

lemma memory_set_failure: "memory_set ns key v m = (Inl e, m') \<Longrightarrow> m' = m"
  by (simp add: memory_set_def)

lemma memory_get_entry:
  assumes "root_ok m" "\<not> am_closed m" "memory_key key" "dget (am_policies m) ns = Some pol" "dget (am_spaces m) ns = Some b"
  shows "memory_get ns key d m = Inr (case dget b key of None \<Rightarrow> d | Some e \<Rightarrow> me_value e)"
  using assms checked_root_ok [OF assms(1)]
  by (simp add: memory_get_def require_namespace_def validate_key_def open_bucket_def ensure_open_def bucket_of_def)

lemma memory_delete_cases:
  assumes "root_ok m" "memory_delete ns key m = (r, m')"
  shows "m' = m \<and> r \<noteq> Inr True \<or> (\<exists>b. dget (am_spaces m) ns = Some b \<and> r = Inr True \<and>
    m' = (put_bucket ns (ddel key b) m)\<lparr>am_dirty := True\<rparr>)" "root_ok m'"
proof -
  have *: "m' = m \<and> r \<noteq> Inr True \<or> (\<exists>b. dget (am_spaces m) ns = Some b \<and> r = Inr True \<and>
      m' = (put_bucket ns (ddel key b) m)\<lparr>am_dirty := True\<rparr>)"
    using assms(2) open_bucket_Inr [of ns m]
    by (cases r) (auto simp: memory_delete_def split: if_splits)
  then show "m' = m \<and> r \<noteq> Inr True \<or> (\<exists>b. dget (am_spaces m) ns = Some b \<and> r = Inr True \<and>
    m' = (put_bucket ns (ddel key b) m)\<lparr>am_dirty := True\<rparr>)" .
  have "root_ok (put_bucket ns (ddel key b) m)" if "dget (am_spaces m) ns = Some b" for b
  proof -
    have "dict_ok b"
      using assms(1) dget_some_in_set [OF that] unfolding root_ok_def spaces_ok_def bucket_ok_def by blast
    then show ?thesis by (intro root_ok_shrink [OF assms(1) that]) (auto simp: set_ddel)
  qed
  with * assms(1) show "root_ok m'" by auto
qed

text \<open>C34. Setting an entry: when it succeeds, the entry reads back, every other namespace is untouched, and the
  namespace lost at most its oldest entries (none of them newer than one that stayed, and none at all
  under the policy \<open>reject\<close>); when it fails, nothing changed.\<close>

theorem memory_set_spec:
  assumes "root_ok m" "memory_set ns key v m = (r, m')"
  shows "case r of
      Inl e \<Rightarrow> m' = m
    | Inr _ \<Rightarrow> memory_get ns key d m' = Inr v \<and> root_ok m' \<and>
        am_policies m' = am_policies m \<and> (\<forall>ns'. ns' \<noteq> ns \<longrightarrow> dget (am_spaces m') ns' = dget (am_spaces m) ns') \<and>
        (\<exists>pol b es. dget (am_policies m) ns = Some pol \<and> dget (am_spaces m) ns = Some b \<and> dget (am_spaces m') ns = Some es \<and>
          fifo_left (Some key) (dset key \<lparr>me_sequence = am_next m, me_value = v\<rparr> b) es \<and>
          (np_eviction pol = ascii ''reject'' \<longrightarrow> es = dset key \<lparr>me_sequence = am_next m, me_value = v\<rparr> b))"
proof (cases r)
  case (Inl e)
  with assms(2) show ?thesis by (simp add: memory_set_failure)
next
  case (Inr u)
  obtain pol b es where s: "dget (am_policies m) ns = Some pol" "dget (am_spaces m) ns = Some b" "dict_ok b" "dict_ok es"
      "m' = (put_bucket ns es m)\<lparr>am_next := am_next m + 1, am_dirty := True\<rparr>"
      "fifo_left (Some key) (dset key \<lparr>me_sequence = am_next m, me_value = v\<rparr> b) es"
      "np_eviction pol = ascii ''reject'' \<longrightarrow> es = dset key \<lparr>me_sequence = am_next m, me_value = v\<rparr> b"
      "dget es key = Some \<lparr>me_sequence = am_next m, me_value = v\<rparr>" "root_ok m'" "memory_key key" "\<not> am_closed m"
    using memory_set_success [OF assms(1) assms(2) [unfolded Inr]] by metis
  have fields: "am_policies m' = am_policies m" "am_spaces m' = dset ns es (am_spaces m)" "am_closed m' = am_closed m"
    by (simp_all add: s(5) put_bucket_def)
  have "memory_get ns key d m' = Inr v"
    using memory_get_entry [OF s(9) _ s(10), of ns pol es d] s(1,8,11) by (simp add: fields)
  with Inr s(1,2,6,7,9) show ?thesis by (auto simp: fields)
qed

lemma memory_set_fits:
  assumes "dget (am_policies m) ns = Some pol" "dget (am_spaces m) ns = Some b" "\<not> am_closed m" "memory_key key"
    and "take (length APPEND_KEY_PREFIX) key \<noteq> APPEND_KEY_PREFIX" "es = dset key \<lparr>me_sequence = am_next m, me_value = v\<rparr> b"
    and "over_quota pol es = Inr False"
    and "\<exists>n. estimate_document_size (session_values (put_bucket ns es (m\<lparr>am_next := am_next m + 1\<rparr>))) = Inr n \<and> int n \<le> cap"
    and "capacity_bytes (am_store m) = Inr cap"
  shows "memory_set ns key v m = (Inr (), (put_bucket ns es (m\<lparr>am_next := am_next m + 1\<rparr>))\<lparr>am_dirty := True\<rparr>)"
proof -
  have "enforce_namespace pol (Some key) es = Inr es"
    using assms(7) by (subst enforce_namespace.simps) simp
  moreover have "ensure_global_capacity pol (am_store m) (Some key)
      (\<lambda>es. session_values (put_bucket ns es (m\<lparr>am_next := am_next m + 1\<rparr>))) es = Inr es"
    using assms(8,9) by (subst ensure_global_capacity.simps) auto
  ultimately have "set_locked pol ns key v m = Inr ((put_bucket ns es (m\<lparr>am_next := am_next m + 1\<rparr>))\<lparr>am_dirty := True\<rparr>)"
    using assms(2,6) by (simp add: set_locked_def bucket_of_def Let_def)
  then show ?thesis using assms(1,3-5) by (simp add: memory_set_Inr)
qed

section \<open>Examples\<close>

definition roomy_store :: store where
  "roomy_store = demo_store\<lparr>sp_layout := demo_store_layout\<lparr>lheight := 65\<rparr>\<rparr>"

lemma roomy_capacity: "capacity_bytes roomy_store = Inr 1536"
  by (simp add: capacity_bytes_def roomy_store_def demo_store_def layout_region_def Let_def storage_region_def demo_store_layout_def
      region_capacity_bytes_def region_cells_def)

definition fifo_policy :: ns_policy where
  "fifo_policy = \<lparr>np_name = ascii ''w'', np_max_bytes = 256, np_max_entries = 1, np_eviction = ascii ''fifo''\<rparr>"

definition roomy_memory :: agent_memory where
  "roomy_memory = new_memory roomy_store True [] [(ascii ''w'', fifo_policy)]"

lemmas encode_simps = ascii_def u32_def u16_def block32_def utf8_encode_def utf8_enc1_def scalar_value_def encode_int_def
  int_bytes_def bit_length.simps Let_def be_bytes_numeral

lemma roomy_size: "\<exists>n. estimate_document_size (session_values roomy_memory) = Inr n \<and> n \<le> 1536"
  by (simp add: estimate_document_size_def session_values_def root_value_def roomy_memory_def new_memory_def fifo_policy_def
      policy_value_def bucket_value_def MEMORY_ROOT_KEY_def HEADER_SIZE_def encode_simps)

lemma fifo_policy_ok: "policy_ok (ascii ''w'') fifo_policy"
  by (simp add: policy_ok_def fifo_policy_def namespace_name_def ascii_def lower_code_def)

lemma roomy_open: "memory_open roomy_store True [] (Some [(ascii ''w'', Inl fifo_policy)]) = Inr roomy_memory"
proof -
  have "ensure_document_capacity (session_values roomy_memory) roomy_store = Inr ()"
    using roomy_size by (auto simp: ensure_document_capacity_def roomy_capacity)
  then show ?thesis
    by (simp add: memory_open_def sget_simps requested_policies_def fifo_policy_def roomy_memory_def [unfolded fifo_policy_def, symmetric])
qed

theorem memory_within_quota_witness:
  "within_quota (foldl mem_step roomy_memory [OSet (ascii ''w'') (ascii ''k'') (SInt 7), OAppend (ascii ''w'') SNone, OClear (ascii ''w'')]) \<and>
   checked_root (foldl mem_step roomy_memory [OSet (ascii ''w'') (ascii ''k'') (SInt 7), OAppend (ascii ''w'') SNone, OClear (ascii ''w'')]) = Inr ()"
  by (rule memory_within_quota [OF roomy_open]) (simp_all add: sget_simps valid_request_def fifo_policy_ok)

lemma roomy_ok: "root_ok roomy_memory"
proof -
  have "ensure_document_capacity (session_values roomy_memory) roomy_store = Inr ()"
    using roomy_size by (auto simp: ensure_document_capacity_def roomy_capacity)
  then show ?thesis
    using new_memory_invariant [of "[(ascii ''w'', fifo_policy)]" roomy_store True "[]"]
    by (simp add: policies_ok_def dict_ok_def fifo_policy_ok roomy_memory_def)
qed

abbreviation first_bucket :: bucket where
  "first_bucket \<equiv> [(ascii ''k'', \<lparr>me_sequence = 1, me_value = SInt 7\<rparr>)]"

abbreviation roomy_after :: agent_memory where
  "roomy_after \<equiv> roomy_memory\<lparr>am_next := 2, am_spaces := [(ascii ''w'', first_bucket)], am_dirty := True\<rparr>"

lemma roomy_fields:
  "am_store roomy_memory = roomy_store" "am_closed roomy_memory = False" "am_next roomy_memory = 1"
  "am_policies roomy_memory = [(ascii ''w'', fifo_policy)]" "am_spaces roomy_memory = [(ascii ''w'', [])]"
  by (simp_all add: roomy_memory_def new_memory_def)

lemma first_bucket_fits: "over_quota fifo_policy first_bucket = Inr False"
  by (simp add: over_quota_def fifo_policy_def estimate_value_size_def bucket_value_def entry_value_def encode_simps)

lemma roomy_after_size: "\<exists>n. estimate_document_size (session_values roomy_after) = Inr n \<and> n \<le> 1536"
  by (simp add: estimate_document_size_def session_values_def root_value_def roomy_memory_def new_memory_def fifo_policy_def
      policy_value_def bucket_value_def entry_value_def MEMORY_ROOT_KEY_def HEADER_SIZE_def encode_simps)

lemma roomy_set_first: "memory_set (ascii ''w'') (ascii ''k'') (SInt 7) roomy_memory = (Inr (), roomy_after)"
proof -
  have "session_values (put_bucket (ascii ''w'') first_bucket (roomy_memory\<lparr>am_next := 2\<rparr>)) = session_values roomy_after"
    by (simp add: session_values_def root_value_def put_bucket_def roomy_fields)
  moreover obtain n where "estimate_document_size (session_values roomy_after) = Inr n" "n \<le> 1536"
    using roomy_after_size by blast
  moreover have "memory_key (ascii ''k'')" "take (length APPEND_KEY_PREFIX) (ascii ''k'') \<noteq> APPEND_KEY_PREFIX"
    by (simp_all add: memory_key_def ascii_def lower_code_def APPEND_KEY_PREFIX_def)
  ultimately show ?thesis
    using memory_set_fits [of roomy_memory "ascii ''w''" fifo_policy "[]" "ascii ''k''" first_bucket "SInt 7" 1536]
    by (simp add: roomy_fields first_bucket_fits roomy_capacity put_bucket_def)
qed

theorem memory_set_spec_witness:
  "memory_get (ascii ''w'') (ascii ''k'') SNone roomy_after = Inr (SInt 7) \<and> root_ok roomy_after"
  using memory_set_spec [OF roomy_ok roomy_set_first, of SNone] by simp

end
