(* ===== verification/Tool_Gateway.thy ===== *)
theory Tool_Gateway
  imports Agent_Memory
begin

text \<open>
  Authorised tool execution, from \<^verbatim>\<open>zdx_agent_tool_gateway.py\<close>: capability policies, action proposals
  bound to the machine's checkpoint by a hash, local and external authorisation, and execution with a
  durable intent before and a durable result after the handler runs.

  \<^item> \<^verbatim>\<open>gateway\<close> is an \<open>AgentToolGateway\<close> with its session: the agent memory, the generation and hash of
    the machine's checkpoint, and \<open>gw_durable\<close>, the memory as of the last checkpoint that reached the
    disk. \<open>gw_invoked\<close> records which handlers were called with which proposals; the code does not read it.
  \<^item> \<^verbatim>\<open>gw_env\<close> holds what is supplied from outside: SHA-256, the registered handlers and the external
    authoriser, and the outcome of a checkpoint barrier of \<^verbatim>\<open>zdx_spatial_agent_session.py\<close> (a checkpoint
    either commits the session's values or raises). A handler may answer differently each time it is
    called: it sees how many calls were made before. It does not modify the agent memory. The authoriser is
    asked again by every call and may answer differently each time: it sees the moment of the call.
  \<^item> \<open>execute\<close> is \<^verbatim>\<open>gw_check\<close> followed by \<^verbatim>\<open>run_action\<close>. The code holds no lock over the two, and the
    histories of \<^verbatim>\<open>gw_next\<close> are those in which calls do not overlap; \<open>overlapping_calls_run_twice\<close>
    shows what two overlapping calls can do. Others may change the agent memory in any way between calls; that they
    leave the two namespaces of the gateway alone is a hypothesis where it is needed, and
    \<open>cleared_records_run_twice\<close> shows why.
  \<^item> Arguments are the values of \<^verbatim>\<open>targ\<close>; text consists of code points below 256. Values read back from the
    memory are compared up to the order of dictionaries.
\<close>

section \<open>Names, rules and policies\<close>

definition name_char :: "char \<Rightarrow> bool" where
  "name_char c \<longleftrightarrow> (let n = of_char c :: nat in
     upper_code n \<or> lower_code n \<or> digit_code n \<or> n = 95 \<or> n = 46 \<or> n = 58 \<or> n = 45)"

text \<open>\<open>^[A-Za-z0-9_.:-]{1,128}$\<close>\<close>

definition tool_name :: "string \<Rightarrow> bool" where
  "tool_name s \<longleftrightarrow> 1 \<le> length s \<and> length s \<le> 128 \<and> list_all name_char s"

record tool_rule =
  tr_tool :: string
  tr_operations :: "string list"
  tr_prefixes :: "string list"
  tr_barrier :: bool

definition mk_rule :: "string \<Rightarrow> string list \<Rightarrow> string list \<Rightarrow> bool \<Rightarrow> tool_rule result" where
  "mk_rule tool ops prefixes barrier =
     (if \<not> tool_name tool then Inl (ValueError ''tool capability name is invalid'')
      else if ops = [] \<or> \<not> list_all tool_name ops
        then Inl (ValueError ''tool capability operations must be non-empty exact names'')
      else if \<not> distinct ops then Inl (ValueError ''tool capability operations contain duplicates'')
      else if list_ex (\<lambda>p. p = [] \<or> length p > 512) prefixes
        then Inl (ValueError ''tool capability resource prefixes must be non-empty strings'')
      else Inr \<lparr>tr_tool = tool, tr_operations = ops, tr_prefixes = prefixes, tr_barrier = barrier\<rparr>)"

definition rule_json :: "tool_rule \<Rightarrow> json" where
  "rule_json r = JObj [(''tool'', JStr (tr_tool r)), (''operations'', JList (map JStr (sort (tr_operations r)))),
     (''resource_prefixes'', JList (map JStr (sort (tr_prefixes r)))), (''require_barrier'', JBool (tr_barrier r))]"

text \<open>\<open>repr\<close> of text: single quotes unless only they occur in it, escapes for what is not printable.\<close>

definition repr_char :: "char \<Rightarrow> char \<Rightarrow> string" where
  "repr_char q c =
     (let n = of_char c :: nat in
      if c = q \<or> n = 92 then [CHR 0x5C, c]
      else if n = 10 then [CHR 0x5C, CHR ''n'']
      else if n = 13 then [CHR 0x5C, CHR ''r'']
      else if n = 9 then [CHR 0x5C, CHR ''t'']
      else if n < 32 \<or> 127 \<le> n \<and> n \<le> 160 \<or> n = 173 then [CHR 0x5C, CHR ''x'', hex_digit (n div 16), hex_digit (n mod 16)]
      else [c])"

definition repr_text :: "string \<Rightarrow> string" where
  "repr_text s =
     (let q = (if CHR 0x27 \<in> set s \<and> CHR 0x22 \<notin> set s then CHR 0x22 else CHR 0x27)
      in [q] @ concat (map (repr_char q) s) @ [q])"

fun json_repr :: "json \<Rightarrow> string" where
  "json_repr (JStr s) = repr_text s"
| "json_repr (JInt i) = int_str i"
| "json_repr (JBool b) = (if b then ''True'' else ''False'')"
| "json_repr JNull = ''None''"
| "json_repr (JList xs) = ''['' @ join '', '' (map json_repr xs) @ '']''"
| "json_repr (JObj d) = ''{'' @ join '', '' (map (\<lambda>p. repr_text (fst p) @ '': '' @ json_repr (snd p)) d) @ ''}''"

text \<open>\<open>str(v)\<close>\<close>

definition json_str :: "json \<Rightarrow> string" where
  "json_str v = (case v of JStr s \<Rightarrow> s | _ \<Rightarrow> json_repr v)"

fun strings_of :: "json list \<Rightarrow> string list option" where
  "strings_of [] = Some []"
| "strings_of (JStr s # xs) = map_option (Cons s) (strings_of xs)"
| "strings_of (_ # xs) = None"

definition rule_from_dict :: "json \<Rightarrow> tool_rule result" where
  "rule_from_dict payload =
     (case payload of
        JObj d \<Rightarrow>
          if \<not> dkeys d \<subseteq> {''tool'', ''operations'', ''resource_prefixes'', ''require_barrier''}
          then Inl (ValueError ''unknown tool capability fields'')
          else
            (case (dget d ''operations'', case dget d ''resource_prefixes'' of None \<Rightarrow> JList [] | Some v \<Rightarrow> v) of
               (Some (JList ops), JList prefixes) \<Rightarrow>
                 (let tool = (case dget d ''tool'' of None \<Rightarrow> [] | Some v \<Rightarrow> json_str v) in
                  if \<not> tool_name tool then Inl (ValueError ''tool capability name is invalid'')
                  else case strings_of ops of
                    None \<Rightarrow> Inl (ValueError ''tool capability operations must be non-empty exact names'')
                  | Some os \<Rightarrow>
                      (case strings_of prefixes of
                         None \<Rightarrow> rbind (mk_rule tool os [] True)
                           (\<lambda>_. Inl (ValueError ''tool capability resource prefixes must be non-empty strings''))
                       | Some ps \<Rightarrow>
                           (case dget d ''require_barrier'' of
                              None \<Rightarrow> mk_rule tool os ps True
                            | Some (JBool b) \<Rightarrow> mk_rule tool os ps b
                            | Some _ \<Rightarrow> rbind (mk_rule tool os ps True) (\<lambda>_. Inl (ValueError ''require_barrier must be boolean'')))))
             | _ \<Rightarrow> Inl (ValueError ''tool capability operations/resource_prefixes must be arrays''))
      | _ \<Rightarrow> Inl (ValueError ''tool capability rule must be an object''))"

record tool_policy =
  tp_id :: string
  tp_rules :: "tool_rule list"

definition mk_tool_policy :: "string \<Rightarrow> tool_rule list \<Rightarrow> json \<Rightarrow> tool_policy result" where
  "mk_tool_policy pid rules version =
     (if version \<noteq> JInt 1 \<and> version \<noteq> JBool True then Inl (ValueError ''unsupported tool policy version'')
      else if \<not> tool_name pid then Inl (ValueError ''tool policy_id is invalid'')
      else if \<not> distinct (map tr_tool rules) then Inl (ValueError ''tool policy contains duplicate tool rules'')
      else Inr \<lparr>tp_id = pid, tp_rules = rules\<rparr>)"

fun rules_from :: "json list \<Rightarrow> tool_rule list result" where
  "rules_from [] = Inr []"
| "rules_from (x # xs) = rbind (rule_from_dict x) (\<lambda>r. rbind (rules_from xs) (\<lambda>rs. Inr (r # rs)))"

definition policy_of_dict :: "json \<Rightarrow> tool_policy result" where
  "policy_of_dict payload =
     (case payload of
        JObj d \<Rightarrow>
          if \<not> dkeys d \<subseteq> {''version'', ''policy_id'', ''rules''} then Inl (ValueError ''unknown tool policy fields'')
          else
            (case dget d ''rules'' of
               Some (JList rs) \<Rightarrow>
                 rbind (rules_from rs) (\<lambda>rules.
                   mk_tool_policy (case dget d ''policy_id'' of None \<Rightarrow> [] | Some v \<Rightarrow> json_str v) rules
                     (case dget d ''version'' of None \<Rightarrow> JNull | Some v \<Rightarrow> v))
             | _ \<Rightarrow> Inl (ValueError ''tool policy rules must be an array''))
      | _ \<Rightarrow> Inl (ValueError ''tool policy must be an object''))"

definition policy_json :: "tool_policy \<Rightarrow> json" where
  "policy_json p = JObj [(''version'', JInt 1), (''policy_id'', JStr (tp_id p)),
     (''rules'', JList (map rule_json (sort_key tr_tool (tp_rules p))))]"

definition POLICY_DOMAIN :: bytes where
  "POLICY_DOMAIN = encode_ascii ''zdx-agent-tool-policy-v1'' @ [0]"

definition policy_hash :: "(bytes \<Rightarrow> bytes) \<Rightarrow> tool_policy \<Rightarrow> string" where
  "policy_hash sha p = hexdigest (sha (POLICY_DOMAIN @ encode_ascii (json_dumps (policy_json p))))"

definition rule_for :: "tool_policy \<Rightarrow> string \<Rightarrow> tool_rule option" where
  "rule_for p tool = List.find (\<lambda>r. tr_tool r = tool) (tp_rules p)"

section \<open>Arguments\<close>

definition MAX_ACTION_BYTES :: nat where "MAX_ACTION_BYTES = 65536"
definition MAX_ARGUMENT_DEPTH :: nat where "MAX_ARGUMENT_DEPTH = 16"
definition MAX_ARGUMENT_ITEMS :: int where "MAX_ARGUMENT_ITEMS = 2048"
definition MAX_ARGUMENT_STRING_BYTES :: nat where "MAX_ARGUMENT_STRING_BYTES = 16384"

text \<open>\<open>AOther\<close> is a value of any other type; a key that is not a string is \<open>None\<close>.\<close>

datatype targ =
    ANull
  | ABool bool
  | AInt int
  | AStr string
  | AFloat
  | AOther
  | AList "targ list"
  | AMap "(string option \<times> targ) list"

definition text_bytes :: "string \<Rightarrow> nat" where
  "text_bytes s = length (concat (map (utf8_enc1 \<circ> of_char) s))"

lemma size_unwrap:
  "size_list (size_prod (\<lambda>_. 0) size \<circ> (\<lambda>p. (the (fst p), snd p))) d = size_list (size_prod (\<lambda>_. 0) size) d"
  by (induction d) auto

text \<open>The budget of items is threaded through, as the mutable list of the source is.\<close>

function (sequential)
  canonical_arguments :: "nat \<Rightarrow> targ \<Rightarrow> int \<Rightarrow> (json \<times> int) result"
  and canonical_items :: "nat \<Rightarrow> targ list \<Rightarrow> int \<Rightarrow> (json list \<times> int) result"
  and canonical_members :: "nat \<Rightarrow> (string \<times> targ) list \<Rightarrow> int \<Rightarrow> ((string \<times> json) list \<times> int) result" where
  "canonical_arguments depth v budget =
     (if depth > MAX_ARGUMENT_DEPTH then Inl (ValueError ''tool arguments exceed maximum nesting depth'')
      else if budget - 1 < 0 then Inl (ValueError ''tool arguments exceed maximum item count'')
      else case v of
        ANull \<Rightarrow> Inr (JNull, budget - 1)
      | ABool b \<Rightarrow> Inr (JBool b, budget - 1)
      | AInt i \<Rightarrow> Inr (JInt i, budget - 1)
      | AStr s \<Rightarrow>
          if text_bytes s > MAX_ARGUMENT_STRING_BYTES then Inl (ValueError ''tool argument string exceeds maximum size'')
          else Inr (JStr s, budget - 1)
      | AFloat \<Rightarrow> Inl (TypeError ''tool action hashes do not accept floats'')
      | AOther \<Rightarrow> Inl (TypeError ''unsupported tool argument type'')
      | AList xs \<Rightarrow> rbind (canonical_items (depth + 1) xs (budget - 1)) (\<lambda>(js, left). Inr (JList js, left))
      | AMap d \<Rightarrow>
          if list_ex (\<lambda>p. fst p = None) d then Inl (TypeError ''tool argument object keys must be strings'')
          else if list_ex (\<lambda>p. text_bytes (the (fst p)) > 512) d
            then Inl (ValueError ''tool argument object key exceeds maximum size'')
          else rbind (canonical_members (depth + 1) (sort_key fst (map (\<lambda>p. (the (fst p), snd p)) d)) (budget - 1))
            (\<lambda>(ms, left). Inr (JObj ms, left)))"
| "canonical_items depth [] budget = Inr ([], budget)"
| "canonical_items depth (x # xs) budget =
     rbind (canonical_arguments depth x budget) (\<lambda>(j, b1).
     rbind (canonical_items depth xs b1) (\<lambda>(js, b2). Inr (j # js, b2)))"
| "canonical_members depth [] budget = Inr ([], budget)"
| "canonical_members depth ((k, x) # rest) budget =
     rbind (canonical_arguments depth x budget) (\<lambda>(j, b1).
     rbind (canonical_members depth rest b1) (\<lambda>(ms, b2). Inr ((k, j) # ms, b2)))"
  by pat_completeness auto
termination
  by (relation "measure (case_sum (\<lambda>(_, v, _). size v)
      (case_sum (\<lambda>(_, xs, _). size_list size xs) (\<lambda>(_, ms, _). size_list (size_prod (\<lambda>_. 0) size) ms)))")
    (simp_all add: size_sort_entries size_unwrap)

declare canonical_arguments.simps [simp del]

section \<open>Proposals and decisions\<close>

record proposal =
  pr_tool :: string
  pr_operation :: string
  pr_resource :: string
  pr_arguments :: json
  pr_idempotency_key :: string
  pr_generation :: int
  pr_checkpoint_hash :: string
  pr_policy_hash :: string
  pr_action_hash :: string

definition proposal_value :: "proposal \<Rightarrow> (ustr \<times> sval) list" where
  "proposal_value p =
     [(ascii ''tool'', SStr (ascii (pr_tool p))), (ascii ''operation'', SStr (ascii (pr_operation p))),
      (ascii ''resource'', SStr (ascii (pr_resource p))), (ascii ''arguments'', json_sval (pr_arguments p)),
      (ascii ''idempotency_key'', SStr (ascii (pr_idempotency_key p))), (ascii ''generation'', SInt (pr_generation p)),
      (ascii ''checkpoint_hash'', SStr (ascii (pr_checkpoint_hash p))), (ascii ''policy_hash'', SStr (ascii (pr_policy_hash p))),
      (ascii ''action_hash'', SStr (ascii (pr_action_hash p)))]"

datatype verdict = Allow | Deny | Approval_Required

record decision =
  dc_verdict :: verdict
  dc_reason :: string
  dc_action_hash :: string
  dc_policy_hash :: string

definition verdict_text :: "verdict \<Rightarrow> string" where
  "verdict_text v = (case v of Allow \<Rightarrow> ''allow'' | Deny \<Rightarrow> ''deny'' | Approval_Required \<Rightarrow> ''approval_required'')"

text \<open>The answer of the external authoriser: an exception, an object, or something else.\<close>

datatype answer =
    Raised string
  | Answered "(string \<times> json) list"
  | Malformed

fun json_targ :: "json \<Rightarrow> targ" where
  "json_targ JNull = ANull"
| "json_targ (JBool b) = ABool b"
| "json_targ (JInt i) = AInt i"
| "json_targ (JStr s) = AStr s"
| "json_targ (JList xs) = AList (map json_targ xs)"
| "json_targ (JObj kvs) = AMap (map (\<lambda>p. (Some (fst p), json_targ (snd p))) kvs)"

record gw_env =
  ge_sha :: "bytes \<Rightarrow> bytes"
  ge_handlers :: "(string, nat \<Rightarrow> proposal \<Rightarrow> (string \<times> string) + sval) dict"
  ge_authorizer :: "(nat \<Rightarrow> proposal \<Rightarrow> sval \<Rightarrow> answer) option"
  ge_commit :: "nat \<Rightarrow> agent_memory \<Rightarrow> unit result"

record gateway =
  gw_policy :: tool_policy
  gw_memory :: agent_memory
  gw_durable :: agent_memory
  gw_generation :: int
  gw_checkpoint_hash :: string
  gw_commits :: nat
  gw_invoked :: "proposal list"

text \<open>\<open>ToolRegistry.register\<close> and \<open>get\<close>\<close>

definition register_tool :: "string \<Rightarrow> 'h \<Rightarrow> (string, 'h) dict \<Rightarrow> (string, 'h) dict result" where
  "register_tool tool handler handlers =
     (if \<not> tool_name tool then Inl (ValueError ''tool registration name is invalid'')
      else if tool \<in> dkeys handlers then Inl (ValueError ''tool already registered'')
      else Inr (dset tool handler handlers))"

definition get_tool :: "string \<Rightarrow> (string, 'h) dict \<Rightarrow> 'h result" where
  "get_tool tool handlers =
     (case dget handlers tool of None \<Rightarrow> Inl (PermissionError ''tool is not registered'') | Some h \<Rightarrow> Inr h)"

definition registered_tools :: "(string, 'h) dict \<Rightarrow> string list" where
  "registered_tools handlers = sort (map fst handlers)"

definition proposal_payload :: "proposal \<Rightarrow> json" where
  "proposal_payload p = JObj
     [(''domain'', JStr ''zdx-agent-action-v1''), (''tool'', JStr (pr_tool p)), (''operation'', JStr (pr_operation p)),
      (''resource'', JStr (pr_resource p)), (''arguments'', pr_arguments p), (''idempotency_key'', JStr (pr_idempotency_key p)),
      (''generation'', JInt (pr_generation p)), (''checkpoint_hash'', JStr (pr_checkpoint_hash p)),
      (''policy_hash'', JStr (pr_policy_hash p))]"

definition encoded_action :: "proposal \<Rightarrow> bytes" where
  "encoded_action p = encode_ascii (json_dumps (proposal_payload p))"

definition action_digest :: "(bytes \<Rightarrow> bytes) \<Rightarrow> proposal \<Rightarrow> string" where
  "action_digest sha p = hexdigest (sha (encode_ascii ''zdx-agent-action-v1'' @ [0] @ encoded_action p))"

text \<open>The arguments of a call of \<open>propose\<close> and \<open>execute\<close>.\<close>

record tool_call =
  tc_tool :: string
  tc_operation :: string
  tc_resource :: string
  tc_arguments :: "(string option \<times> targ) list"
  tc_idempotency_key :: string

definition propose :: "gw_env \<Rightarrow> tool_call \<Rightarrow> gateway \<Rightarrow> proposal result" where
  "propose env c gw =
     (if \<not> tool_name (tc_tool c) then Inl (ValueError ''tool name is invalid'')
      else if \<not> tool_name (tc_operation c) then Inl (ValueError ''tool operation is invalid'')
      else if length (tc_resource c) > 2048 then Inl (ValueError ''tool resource is invalid'')
      else if \<not> tool_name (tc_idempotency_key c) then Inl (ValueError ''tool idempotency_key is invalid'')
      else rbind (canonical_arguments 0 (AMap (tc_arguments c)) MAX_ARGUMENT_ITEMS) (\<lambda>(args, _).
        (let p = \<lparr>pr_tool = tc_tool c, pr_operation = tc_operation c, pr_resource = tc_resource c, pr_arguments = args,
                  pr_idempotency_key = tc_idempotency_key c, pr_generation = gw_generation gw,
                  pr_checkpoint_hash = gw_checkpoint_hash gw, pr_policy_hash = policy_hash (ge_sha env) (gw_policy gw),
                  pr_action_hash = []\<rparr>
         in if length (encoded_action p) > MAX_ACTION_BYTES then Inl (ValueError ''canonical tool action exceeds maximum size'')
            else Inr (p\<lparr>pr_action_hash := action_digest (ge_sha env) p\<rparr>))))"

definition bound_decision :: "verdict \<Rightarrow> string \<Rightarrow> proposal \<Rightarrow> decision" where
  "bound_decision v reason p =
     \<lparr>dc_verdict = v, dc_reason = reason, dc_action_hash = pr_action_hash p, dc_policy_hash = pr_policy_hash p\<rparr>"

definition starts_with :: "string \<Rightarrow> string \<Rightarrow> bool" where
  "starts_with prefix s \<longleftrightarrow> take (length prefix) s = prefix"

definition local_decision :: "tool_policy \<Rightarrow> proposal \<Rightarrow> decision" where
  "local_decision policy p =
     (case rule_for policy (pr_tool p) of
        None \<Rightarrow> bound_decision Deny ''tool is not granted by local policy'' p
      | Some r \<Rightarrow>
          if pr_operation p \<notin> set (tr_operations r) then bound_decision Deny ''operation is not granted by local policy'' p
          else if tr_prefixes r \<noteq> [] then
            (if \<not> list_ex (\<lambda>prefix. starts_with prefix (pr_resource p)) (tr_prefixes r)
             then bound_decision Deny ''resource is outside granted prefixes'' p
             else bound_decision Allow ''local capability rule matched'' p)
          else if pr_resource p \<noteq> [] then bound_decision Deny ''policy grants no resource-bearing action for this tool'' p
          else bound_decision Allow ''local capability rule matched'' p)"

definition parse_verdict :: "json option \<Rightarrow> verdict option" where
  "parse_verdict j =
     (case j of
        Some (JStr s) \<Rightarrow>
          if s = ''allow'' then Some Allow else if s = ''deny'' then Some Deny
          else if s = ''approval_required'' then Some Approval_Required else None
      | _ \<Rightarrow> None)"

definition normalize_external_decision :: "answer \<Rightarrow> proposal \<Rightarrow> decision" where
  "normalize_external_decision response p =
     (case response of
        Answered d \<Rightarrow>
          (case parse_verdict (dget d ''decision'') of
             None \<Rightarrow> bound_decision Deny ''external authorizer returned an unknown decision'' p
           | Some v \<Rightarrow>
               if dget d ''action_hash'' \<noteq> Some (JStr (pr_action_hash p))
               then bound_decision Deny ''external authorization action hash does not match proposal'' p
               else if dget d ''policy_hash'' \<noteq> Some (JStr (pr_policy_hash p))
               then bound_decision Deny ''external authorization policy hash does not match proposal'' p
               else bound_decision v (take 512 (case dget d ''reason'' of
                      None \<Rightarrow> ''external authorizer decision'' | Some j \<Rightarrow> json_str j)) p)
      | _ \<Rightarrow> bound_decision Deny ''external authorizer must return a bound decision object'' p)"

definition validate_proposal :: "gw_env \<Rightarrow> proposal \<Rightarrow> gateway \<Rightarrow> unit result" where
  "validate_proposal env p gw =
     (if pr_policy_hash p \<noteq> policy_hash (ge_sha env) (gw_policy gw)
      then Inl (PermissionError ''proposal policy hash does not match active policy'')
      else if pr_generation p \<noteq> gw_generation gw then Inl (PermissionError ''proposal VM generation is stale'')
      else if pr_checkpoint_hash p \<noteq> gw_checkpoint_hash gw then Inl (PermissionError ''proposal VM checkpoint hash is stale'')
      else rbind (canonical_arguments 0 (json_targ (pr_arguments p)) MAX_ARGUMENT_ITEMS) (\<lambda>(args, _).
        if length (encoded_action (p\<lparr>pr_arguments := args\<rparr>)) > MAX_ACTION_BYTES
        then Inl (PermissionError ''proposal canonical action exceeds maximum size'')
        else if action_digest (ge_sha env) (p\<lparr>pr_arguments := args\<rparr>) \<noteq> pr_action_hash p
        then Inl (PermissionError ''proposal action hash is invalid'')
        else Inr ()))"

text \<open>The authoriser is asked anew at the moment \<open>t\<close> of the call.\<close>

definition authorize :: "gw_env \<Rightarrow> nat \<Rightarrow> sval \<Rightarrow> proposal \<Rightarrow> gateway \<Rightarrow> decision result" where
  "authorize env t approval p gw =
     rbind (validate_proposal env p gw) (\<lambda>_.
       (let here = local_decision (gw_policy gw) p in
        Inr (if dc_verdict here \<noteq> Allow then here
             else case ge_authorizer env of
               None \<Rightarrow> here
             | Some f \<Rightarrow>
                 (case f t p approval of
                    Raised kind \<Rightarrow> bound_decision Deny (''external authorizer failed: '' @ kind) p
                  | response \<Rightarrow> normalize_external_decision response p))))"

section \<open>Execution\<close>

definition intent_key :: "string \<Rightarrow> ustr" where
  "intent_key h = ascii (''tool-intent/'' @ h)"

definition result_key :: "string \<Rightarrow> ustr" where
  "result_key h = ascii (''tool-result/'' @ h)"

definition ns_system :: ustr where "ns_system = ascii ''system''"
definition ns_results :: ustr where "ns_results = ascii ''tool_results''"

definition Ambiguous :: "string \<Rightarrow> py_error" where
  "Ambiguous msg = RuntimeError (''AmbiguousToolOutcomeError: '' @ msg)"

definition validate_persisted_proposal :: "sval \<Rightarrow> proposal \<Rightarrow> unit result" where
  "validate_persisted_proposal record p =
     (case record of
        SDict d \<Rightarrow>
          (case sget d ''proposal'' of
             SDict persisted \<Rightarrow> raise_if (canon (SDict persisted) \<noteq> canon (SDict (proposal_value p)))
               (Ambiguous ''persisted proposal does not match reconstructed action'')
           | _ \<Rightarrow> Inl (Ambiguous ''persisted proposal is malformed''))
      | _ \<Rightarrow> Inl (Ambiguous ''persisted record is malformed''))"

definition decision_value :: "decision \<Rightarrow> sval" where
  "decision_value d = SDict [(ascii ''decision'', SStr (ascii (verdict_text (dc_verdict d)))), (ascii ''reason'', SStr (ascii (dc_reason d)))]"

definition intent_value :: "proposal \<Rightarrow> decision \<Rightarrow> (ustr \<times> sval) list" where
  "intent_value p d = [(ascii ''status'', SStr (ascii ''pending'')), (ascii ''proposal'', SDict (proposal_value p)),
     (ascii ''decision'', decision_value d)]"

definition failed_value :: "proposal \<Rightarrow> decision \<Rightarrow> string \<times> string \<Rightarrow> (ustr \<times> sval) list" where
  "failed_value p d err = dset (ascii ''error'')
     (SDict [(ascii ''type'', SStr (ascii (fst err))), (ascii ''message'', SStr (ascii (take 512 (snd err))))])
     (dset (ascii ''status'') (SStr (ascii ''ambiguous'')) (intent_value p d))"

definition result_value :: "proposal \<Rightarrow> decision \<Rightarrow> sval \<Rightarrow> (ustr \<times> sval) list" where
  "result_value p d res = [(ascii ''action_hash'', SStr (ascii (pr_action_hash p))), (ascii ''proposal'', SDict (proposal_value p)),
     (ascii ''decision'', decision_value d), (ascii ''result'', res)]"

definition gw_set :: "ustr \<Rightarrow> ustr \<Rightarrow> sval \<Rightarrow> gateway \<Rightarrow> unit result \<times> gateway" where
  "gw_set ns key v gw = (case memory_set ns key v (gw_memory gw) of (r, m) \<Rightarrow> (r, gw\<lparr>gw_memory := m\<rparr>))"

text \<open>\<open>session.checkpoint(barrier=True)\<close>: returns when the values of the session are on the disk, or raises.\<close>

definition checkpoint_barrier :: "gw_env \<Rightarrow> gateway \<Rightarrow> unit result \<times> gateway" where
  "checkpoint_barrier env gw =
     (case ge_commit env (gw_commits gw) (gw_memory gw) of
        Inl e \<Rightarrow> (Inl e, gw\<lparr>gw_commits := Suc (gw_commits gw)\<rparr>)
      | Inr _ \<Rightarrow> (Inr (), gw\<lparr>gw_commits := Suc (gw_commits gw), gw_durable := gw_memory gw\<rparr>))"

definition barrier_if :: "gw_env \<Rightarrow> bool \<Rightarrow> gateway \<Rightarrow> unit result \<times> gateway" where
  "barrier_if env b gw = (if b then checkpoint_barrier env gw else (Inr (), gw))"

text \<open>Sequencing of steps that raise or return, each leaving a gateway.\<close>

definition and_then :: "'a result \<times> gateway \<Rightarrow> ('a \<Rightarrow> gateway \<Rightarrow> 'b result \<times> gateway) \<Rightarrow> 'b result \<times> gateway" where
  "and_then x f = (case x of (Inl e, gw) \<Rightarrow> (Inl e, gw) | (Inr a, gw) \<Rightarrow> f a gw)"

definition reuse_result :: "sval \<Rightarrow> proposal \<Rightarrow> sval result" where
  "reuse_result existing p =
     rbind (validate_persisted_proposal existing p) (\<lambda>_.
       case existing of
         SDict d \<Rightarrow>
           if sget d ''action_hash'' \<noteq> SStr (ascii (pr_action_hash p))
           then Inl (Ambiguous ''persisted tool result action hash does not match its key'')
           else (case dget d (ascii ''result'') of
                   None \<Rightarrow> Inl (Ambiguous ''persisted tool result is missing result data'')
                 | Some res \<Rightarrow> Inr res)
       | _ \<Rightarrow> Inl (Ambiguous ''persisted record is malformed''))"

text \<open>After the handler raised: the intent is marked ambiguous.\<close>

definition record_failure :: "gw_env \<Rightarrow> tool_rule \<Rightarrow> proposal \<Rightarrow> decision \<Rightarrow> string \<times> string \<Rightarrow> gateway \<Rightarrow> sval result \<times> gateway" where
  "record_failure env rule p d err gw =
     (case and_then (gw_set ns_system (intent_key (pr_action_hash p)) (SDict (failed_value p d err)) gw)
             (\<lambda>_. barrier_if env (tr_barrier rule)) of
        (Inl _, gw') \<Rightarrow> (Inl (Ambiguous ''tool failed and ambiguous-outcome state could not be durably recorded''), gw')
      | (Inr _, gw') \<Rightarrow> (Inl (RuntimeError ''ToolExecutionError''), gw'))"

text \<open>After the handler returned: the result is stored and the intent removed.\<close>

definition record_result :: "gw_env \<Rightarrow> tool_rule \<Rightarrow> proposal \<Rightarrow> decision \<Rightarrow> sval \<Rightarrow> gateway \<Rightarrow> sval result \<times> gateway" where
  "record_result env rule p d res gw =
     (case and_then (gw_set ns_results (result_key (pr_action_hash p)) (SDict (result_value p d res)) gw) (\<lambda>_ gw1.
           and_then (case memory_delete ns_system (intent_key (pr_action_hash p)) (gw_memory gw1) of
                       (r, m) \<Rightarrow> (r, gw1\<lparr>gw_memory := m\<rparr>)) (\<lambda>found gw2.
             if \<not> found then (Inl (RuntimeError ''pending tool intent disappeared before completion''), gw2)
             else barrier_if env (tr_barrier rule) gw2)) of
        (Inl _, gw') \<Rightarrow> (Inl (Ambiguous ''tool executed but its result could not be durably recorded''), gw')
      | (Inr _, gw') \<Rightarrow> (Inr res, gw'))"

definition run_action ::
    "gw_env \<Rightarrow> tool_rule \<Rightarrow> (nat \<Rightarrow> proposal \<Rightarrow> (string \<times> string) + sval) \<Rightarrow> proposal \<Rightarrow> decision \<Rightarrow> gateway \<Rightarrow> sval result \<times> gateway" where
  "run_action env rule handler p d gw =
     and_then (gw_set ns_system (intent_key (pr_action_hash p)) (SDict (intent_value p d)) gw) (\<lambda>_ gw1.
     and_then (barrier_if env (tr_barrier rule) gw1) (\<lambda>_ gw2.
       (let gw3 = gw2\<lparr>gw_invoked := gw_invoked gw2 @ [p]\<rparr> in
        case handler (length (gw_invoked gw2)) p of
          Inl err \<Rightarrow> record_failure env rule p d err gw3
        | Inr res \<Rightarrow> record_result env rule p d res gw3)))"

text \<open>
  What \<open>execute\<close> does before it writes the intent: it ends with an error or a stored result, or goes on
  with the proposal, the decision, the rule and the handler.
\<close>

definition gw_check ::
    "gw_env \<Rightarrow> nat \<Rightarrow> sval \<Rightarrow> tool_call \<Rightarrow> gateway \<Rightarrow>
     sval result + proposal \<times> decision \<times> tool_rule \<times> (nat \<Rightarrow> proposal \<Rightarrow> (string \<times> string) + sval)" where
  "gw_check env t approval c gw =
     (case rbind (propose env c gw) (\<lambda>p. rbind (authorize env t approval p gw) (\<lambda>d. Inr (p, d))) of
        Inl e \<Rightarrow> Inl (Inl e)
      | Inr (p, d) \<Rightarrow>
          if dc_verdict d \<noteq> Allow then Inl (Inl (PermissionError (verdict_text (dc_verdict d) @ '': '' @ dc_reason d)))
          else
            (case memory_get ns_results (result_key (pr_action_hash p)) SNone (gw_memory gw) of
               Inl e \<Rightarrow> Inl (Inl e)
             | Inr existing \<Rightarrow>
                 if existing \<noteq> SNone then Inl (reuse_result existing p)
                 else
                   (case memory_get ns_system (intent_key (pr_action_hash p)) SNone (gw_memory gw) of
                      Inl e \<Rightarrow> Inl (Inl e)
                    | Inr intent \<Rightarrow>
                        if intent \<noteq> SNone
                        then Inl (rbind (validate_persisted_proposal intent p) (\<lambda>_.
                                Inl (Ambiguous ''tool action already has a durable intent without a reusable durable result'')))
                        else
                          (case rule_for (gw_policy gw) (pr_tool p) of
                             None \<Rightarrow> Inl (Inl (AttributeError ''require_barrier''))
                           | Some rule \<Rightarrow>
                               (case get_tool (pr_tool p) (ge_handlers env) of
                                  Inl e \<Rightarrow> Inl (Inl e)
                                | Inr handler \<Rightarrow> Inr (p, d, rule, handler))))))"

definition gw_execute :: "gw_env \<Rightarrow> nat \<Rightarrow> sval \<Rightarrow> tool_call \<Rightarrow> gateway \<Rightarrow> sval result \<times> gateway" where
  "gw_execute env t approval c gw =
     (case gw_check env t approval c gw of
        Inl r \<Rightarrow> (r, gw)
      | Inr (p, d, rule, handler) \<Rightarrow> run_action env rule handler p d gw)"

definition policy_record :: "gw_env \<Rightarrow> tool_policy \<Rightarrow> sval" where
  "policy_record env policy = SDict [(ascii ''policy'', json_sval (policy_json policy)),
     (ascii ''policy_hash'', SStr (ascii (policy_hash (ge_sha env) policy)))]"

definition gateway_init ::
    "gw_env \<Rightarrow> tool_policy \<Rightarrow> agent_memory \<Rightarrow> agent_memory \<Rightarrow> int \<Rightarrow> string \<Rightarrow> gateway result" where
  "gateway_init env policy m durable generation chash =
     (if \<not> {ns_system, ns_results} \<subseteq> set (namespaces m) then Inl (RuntimeError ''tool gateway requires memory namespaces'')
      else if list_ex (\<lambda>n. map_option np_eviction (dget (am_policies m) n) \<noteq> Some (ascii ''reject'')) [ns_system, ns_results]
        then Inl (RuntimeError ''tool gateway safety namespaces must use reject eviction'')
      else
        rbind (memory_get ns_system (ascii ''tool-policy'') SNone m) (\<lambda>persisted.
          let gw = \<lparr>gw_policy = policy, gw_memory = m, gw_durable = durable, gw_generation = generation,
                    gw_checkpoint_hash = chash, gw_commits = 0, gw_invoked = []\<rparr>
          in if persisted = SNone
             then (case memory_set ns_system (ascii ''tool-policy'') (policy_record env policy) m of
                     (Inl e, _) \<Rightarrow> Inl e | (Inr _, m') \<Rightarrow> Inr (gw\<lparr>gw_memory := m'\<rparr>))
             else if canon persisted \<noteq> canon (policy_record env policy)
               then Inl (PermissionError ''persisted tool capability policy does not match requested policy'')
             else Inr gw))"

section \<open>A journal of intents and results\<close>

text \<open>
  What the gateway relies on of the memory it writes to: writing a record keeps every record there is
  and, when it succeeds, adds the one written; deleting keeps every other record.
\<close>

locale journal =
  fixes ok :: "'m \<Rightarrow> bool"
    and present :: "'m \<Rightarrow> 'k \<Rightarrow> bool"
    and recordable :: "'k \<Rightarrow> 'v \<Rightarrow> bool"
    and put :: "'k \<Rightarrow> 'v \<Rightarrow> 'm \<Rightarrow> unit result \<times> 'm"
    and del :: "'k \<Rightarrow> 'm \<Rightarrow> bool result \<times> 'm"
    and intent :: "'h \<Rightarrow> 'k"
    and outcome :: "'h \<Rightarrow> 'k"
  assumes put_ok: "ok m \<Longrightarrow> recordable k v \<Longrightarrow> put k v m = (r, m') \<Longrightarrow> ok m'"
    and put_keeps: "ok m \<Longrightarrow> recordable k v \<Longrightarrow> put k v m = (r, m') \<Longrightarrow> present m k' \<Longrightarrow> present m' k'"
    and put_adds: "ok m \<Longrightarrow> recordable k v \<Longrightarrow> put k v m = (Inr u, m') \<Longrightarrow> present m' k"
    and del_ok: "ok m \<Longrightarrow> del k m = (q, m') \<Longrightarrow> ok m'"
    and del_keeps: "ok m \<Longrightarrow> del k m = (q, m') \<Longrightarrow> present m k' \<Longrightarrow> k' \<noteq> k \<Longrightarrow> present m' k'"
    and intent_inj: "intent h = intent h' \<Longrightarrow> h = h'"
    and intent_outcome: "intent h \<noteq> outcome h'"
begin

lemma put_traced:
  assumes "ok m" "recordable k v" "put k v m = (r, m')" "present m (intent h) \<or> present m (outcome h)"
  shows "present m' (intent h) \<or> present m' (outcome h)"
  using assms put_keeps by blast

text \<open>Recording the outcome and then dropping the intent never leaves an action without a trace.\<close>

lemma settle_traced:
  assumes "ok m" "recordable (outcome g) v" "put (outcome g) v m = (Inr u, m1)" "del (intent g) m1 = (r, m2)"
    and "present m (intent h) \<or> present m (outcome h)"
  shows "ok m2" "present m2 (intent h) \<or> present m2 (outcome h)"
proof -
  have m1: "ok m1" "present m1 (outcome g)"
    using put_ok [OF assms(1-3)] put_adds [OF assms(1-3)] by simp_all
  show "ok m2" by (rule del_ok [OF m1(1) assms(4)])
  have keep: "present m2 k" if "present m1 k" "k \<noteq> intent g" for k
    by (rule del_keeps [OF m1(1) assms(4) that])
  have "outcome g \<noteq> intent g" "outcome h \<noteq> intent g"
    using intent_outcome [of g g] intent_outcome [of g h] by auto
  moreover have "present m1 (intent h) \<or> present m1 (outcome h)"
    by (rule put_traced [OF assms(1-3,5)])
  moreover have "intent h = intent g \<Longrightarrow> h = g" by (rule intent_inj)
  ultimately show "present m2 (intent h) \<or> present m2 (outcome h)"
    using keep m1(2) by metis
qed

end

text \<open>The agent memory as such a journal, on the two namespaces the gateway insists reject when full.\<close>

definition rejecting :: "ustr \<Rightarrow> agent_memory \<Rightarrow> bool" where
  "rejecting ns m \<longleftrightarrow> map_option np_eviction (dget (am_policies m) ns) = Some (ascii ''reject'')"

definition safe_memory :: "agent_memory \<Rightarrow> bool" where
  "safe_memory m \<longleftrightarrow> root_ok m \<and> rejecting ns_system m \<and> rejecting ns_results m"

definition has_record :: "agent_memory \<Rightarrow> ustr \<times> ustr \<Rightarrow> bool" where
  "has_record m k \<longleftrightarrow>
     (case dget (am_spaces m) (fst k) of
        None \<Rightarrow> False
      | Some b \<Rightarrow> (case dget b (snd k) of None \<Rightarrow> False | Some e \<Rightarrow> me_value e \<noteq> SNone))"

definition gateway_record :: "ustr \<times> ustr \<Rightarrow> sval \<Rightarrow> bool" where
  "gateway_record k v \<longleftrightarrow> (fst k = ns_system \<or> fst k = ns_results) \<and> v \<noteq> SNone"

lemma memory_set_journal:
  assumes "safe_memory m" "gateway_record k v" "memory_set (fst k) (snd k) v m = (r, m')"
  shows "safe_memory m'" "has_record m k' \<Longrightarrow> has_record m' k'" "r = Inr u \<Longrightarrow> has_record m' k"
proof -
  have root: "root_ok m" using assms(1) by (simp add: safe_memory_def)
  have "safe_memory m' \<and> (has_record m k' \<longrightarrow> has_record m' k') \<and> (\<forall>u. r = Inr u \<longrightarrow> has_record m' k)"
  proof (cases r)
    case (Inl e)
    then show ?thesis using assms memory_set_failure by blast
  next
    case (Inr u)
    obtain pol b es where s: "dget (am_policies m) (fst k) = Some pol" "dget (am_spaces m) (fst k) = Some b" "dict_ok b" "dict_ok es"
        "m' = (put_bucket (fst k) es m)\<lparr>am_next := am_next m + 1, am_dirty := True\<rparr>"
        "fifo_left (Some (snd k)) (dset (snd k) \<lparr>me_sequence = am_next m, me_value = v\<rparr> b) es"
        "np_eviction pol = ascii ''reject'' \<longrightarrow> es = dset (snd k) \<lparr>me_sequence = am_next m, me_value = v\<rparr> b"
        "dget es (snd k) = Some \<lparr>me_sequence = am_next m, me_value = v\<rparr>" "root_ok m'" "memory_key (snd k)" "\<not> am_closed m"
      using memory_set_success [OF root assms(3) [unfolded Inr]] by metis
    have "np_eviction pol = ascii ''reject''"
      using assms(1,2) s(1) by (auto simp: safe_memory_def rejecting_def gateway_record_def)
    then have es: "es = dset (snd k) \<lparr>me_sequence = am_next m, me_value = v\<rparr> b" using s(7) by blast
    have fields: "am_policies m' = am_policies m" "am_spaces m' = dset (fst k) es (am_spaces m)"
      by (simp_all add: s(5) put_bucket_def)
    have "v \<noteq> SNone" using assms(2) by (simp add: gateway_record_def)
    moreover have "safe_memory m'" using assms(1) s(9) by (simp add: safe_memory_def rejecting_def fields)
    ultimately show ?thesis
      by (cases "fst k' = fst k") (auto simp: has_record_def fields es s(2))
  qed
  then show "safe_memory m'" "has_record m k' \<Longrightarrow> has_record m' k'" "r = Inr u \<Longrightarrow> has_record m' k" by blast+
qed

lemma memory_delete_journal:
  assumes "safe_memory m" "memory_delete (fst k) (snd k) m = (r, m')"
  shows "safe_memory m'" "has_record m k' \<Longrightarrow> k' \<noteq> k \<Longrightarrow> has_record m' k'"
proof -
  have root: "root_ok m" using assms(1) by (simp add: safe_memory_def)
  note c = memory_delete_cases [OF root assms(2)]
  have "am_policies m' = am_policies m" using c(1) by (auto simp: put_bucket_def)
  then show "safe_memory m'" using assms(1) c(2) by (simp add: safe_memory_def rejecting_def)
  show "has_record m' k'" if "has_record m k'" "k' \<noteq> k"
    using c(1) that by (cases k, cases k') (auto simp: has_record_def put_bucket_def split: option.splits if_splits)
qed

interpretation mj: journal safe_memory has_record gateway_record "\<lambda>k. memory_set (fst k) (snd k)" "\<lambda>k. memory_delete (fst k) (snd k)"
  "\<lambda>h. (ns_system, intent_key h)" "\<lambda>h. (ns_results, result_key h)"
proof unfold_locales
  show "(ns_system, intent_key h) \<noteq> (ns_results, result_key h')" for h h'
    by (simp add: ns_system_def ns_results_def)
  show "h = h'" if "(ns_system, intent_key h) = (ns_system, intent_key h')" for h h'
    using that by (simp add: intent_key_def)
next
  fix m k v r m' k' u q
  assume ok: "safe_memory m"
  show "safe_memory m'" if "gateway_record k v" "memory_set (fst k) (snd k) v m = (r, m')"
    by (rule memory_set_journal(1) [OF ok that])
  show "has_record m' k'" if "gateway_record k v" "memory_set (fst k) (snd k) v m = (r, m')" "has_record m k'"
    by (rule memory_set_journal(2) [OF ok that])
  show "has_record m' k" if "gateway_record k v" "memory_set (fst k) (snd k) v m = (Inr u, m')"
    using memory_set_journal(3) [OF ok that] by blast
  show "safe_memory m'" if "memory_delete (fst k) (snd k) m = (q, m')"
    by (rule memory_delete_journal(1) [OF ok that])
  show "has_record m' k'" if "memory_delete (fst k) (snd k) m = (q, m')" "has_record m k'" "k' \<noteq> k"
    by (rule memory_delete_journal(2) [OF ok that])
qed

section \<open>At most once\<close>

definition traced :: "agent_memory \<Rightarrow> string \<Rightarrow> bool" where
  "traced m h \<longleftrightarrow> has_record m (ns_system, intent_key h) \<or> has_record m (ns_results, result_key h)"

text \<open>
  What a handler call presupposes: the local policy grants it, and so does the external authoriser, asked
  at that moment with that approval.
\<close>

definition granted :: "gw_env \<Rightarrow> nat \<Rightarrow> sval \<Rightarrow> tool_policy \<Rightarrow> proposal \<Rightarrow> bool" where
  "granted env t approval policy p \<longleftrightarrow>
     (\<exists>r. rule_for policy (pr_tool p) = Some r \<and> pr_operation p \<in> set (tr_operations r) \<and>
        (if tr_prefixes r = [] then pr_resource p = [] else \<exists>q \<in> set (tr_prefixes r). starts_with q (pr_resource p))) \<and>
     (\<forall>f. ge_authorizer env = Some f \<longrightarrow>
        (\<exists>d. f t p approval = Answered d \<and> dget d ''decision'' = Some (JStr ''allow'') \<and>
           dget d ''action_hash'' = Some (JStr (pr_action_hash p)) \<and> dget d ''policy_hash'' = Some (JStr (pr_policy_hash p))))"

text \<open>\<open>B\<close> says that every rule asks for a barrier.\<close>

definition gw_inv :: "bool \<Rightarrow> gateway \<Rightarrow> bool" where
  "gw_inv B gw \<longleftrightarrow> safe_memory (gw_memory gw) \<and> safe_memory (gw_durable gw) \<and>
     distinct (map pr_action_hash (gw_invoked gw)) \<and>
     (\<forall>p \<in> set (gw_invoked gw). traced (gw_memory gw) (pr_action_hash p) \<and>
        (B \<longrightarrow> traced (gw_durable gw) (pr_action_hash p)))"

text \<open>Neither the policy, the state of the machine nor the handler calls change.\<close>

definition gw_frame :: "gateway \<Rightarrow> gateway \<Rightarrow> bool" where
  "gw_frame gw gw' \<longleftrightarrow> gw_policy gw' = gw_policy gw \<and> gw_generation gw' = gw_generation gw \<and>
     gw_checkpoint_hash gw' = gw_checkpoint_hash gw \<and> gw_invoked gw' = gw_invoked gw"

lemma gw_frame_refl [simp]: "gw_frame gw gw"
  and gw_frame_trans: "gw_frame a b \<Longrightarrow> gw_frame b c \<Longrightarrow> gw_frame a c"
  by (simp_all add: gw_frame_def)

lemma gw_set_frame: "gw_set ns key v gw = (r, gw') \<Longrightarrow> gw_frame gw gw'"
  by (auto simp: gw_set_def gw_frame_def split: prod.splits)

lemma barrier_frame: "barrier_if env b gw = (r, gw') \<Longrightarrow> gw_frame gw gw'"
  by (auto simp: barrier_if_def checkpoint_barrier_def gw_frame_def split: if_splits sum.splits)

lemma and_then_frame:
  assumes "gw_frame gw (snd x)" "\<And>a gw1. x = (Inr a, gw1) \<Longrightarrow> gw_frame gw1 (snd (f a gw1))"
  shows "gw_frame gw (snd (and_then x f))"
proof -
  obtain r gw1 where "x = (r, gw1)" by (cases x)
  with assms show ?thesis by (cases r) (auto simp: and_then_def intro: gw_frame_trans)
qed

lemma gw_set_frame_snd: "gw_frame gw (snd (gw_set ns key v gw))"
  and barrier_frame_snd: "gw_frame gw (snd (barrier_if env b gw))"
  using gw_set_frame barrier_frame by (metis prod.collapse)+

lemma record_failure_frame: "gw_frame gw (snd (record_failure env rule p d err gw))"
proof -
  let ?x = "and_then (gw_set ns_system (intent_key (pr_action_hash p)) (SDict (failed_value p d err)) gw)
    (\<lambda>_. barrier_if env (tr_barrier rule))"
  have "gw_frame gw (snd ?x)"
    by (intro and_then_frame gw_set_frame_snd barrier_frame_snd)
  moreover have "snd (record_failure env rule p d err gw) = snd ?x"
    by (simp add: record_failure_def split: prod.splits sum.splits)
  ultimately show ?thesis by simp
qed

lemma record_result_frame: "gw_frame gw (snd (record_result env rule p d res gw))"
proof -
  let ?del = "\<lambda>gw1. case memory_delete ns_system (intent_key (pr_action_hash p)) (gw_memory gw1) of
    (r, m) \<Rightarrow> (r, gw1\<lparr>gw_memory := m\<rparr>)"
  let ?x = "and_then (gw_set ns_results (result_key (pr_action_hash p)) (SDict (result_value p d res)) gw) (\<lambda>_ gw1.
    and_then (?del gw1) (\<lambda>found gw2.
      if \<not> found then (Inl (RuntimeError ''pending tool intent disappeared before completion''), gw2)
      else barrier_if env (tr_barrier rule) gw2))"
  have "gw_frame gw1 (snd (?del gw1))" for gw1
    by (simp add: gw_frame_def split: prod.splits)
  then have "gw_frame gw (snd ?x)"
    by (intro and_then_frame gw_set_frame_snd) (simp_all add: barrier_frame_snd)
  moreover have "snd (record_result env rule p d res gw) = snd ?x"
    by (simp add: record_result_def split: prod.splits sum.splits)
  ultimately show ?thesis by simp
qed

lemma inv_memory:
  assumes "gw_inv B gw" "safe_memory m" "\<And>h. traced (gw_memory gw) h \<Longrightarrow> traced m h"
  shows "gw_inv B (gw\<lparr>gw_memory := m\<rparr>)"
  using assms by (simp add: gw_inv_def)

lemma gw_set_inv:
  assumes "gw_inv B gw" "gateway_record (ns, key) v" "gw_set ns key v gw = (r, gw')"
  shows "gw_inv B gw' \<and> gw_durable gw' = gw_durable gw \<and>
    (\<forall>u. r = Inr u \<longrightarrow> has_record (gw_memory gw') (ns, key))"
proof -
  obtain m where m: "memory_set ns key v (gw_memory gw) = (r, m)" "gw' = gw\<lparr>gw_memory := m\<rparr>"
    using assms(3) by (auto simp: gw_set_def split: prod.splits)
  have safe: "safe_memory (gw_memory gw)" using assms(1) by (simp add: gw_inv_def)
  note j = memory_set_journal [OF safe assms(2), unfolded fst_conv snd_conv, OF m(1)]
  have "gw_inv B gw'"
    unfolding m(2) by (rule inv_memory [OF assms(1)]) (use j in \<open>auto simp: traced_def\<close>)
  with j(3) m(2) show ?thesis by auto
qed

lemma barrier_inv:
  assumes "gw_inv B gw" "barrier_if env b gw = (r, gw')"
  shows "gw_inv B gw' \<and> gw_memory gw' = gw_memory gw \<and>
    (b \<longrightarrow> r = Inr () \<longrightarrow> gw_durable gw' = gw_memory gw)"
  using assms by (auto simp: barrier_if_def checkpoint_barrier_def gw_inv_def gw_frame_def split: if_splits sum.splits)

lemma record_failure_error: "record_failure env rule p d err gw \<noteq> (Inr res, gw')"
  by (auto simp: record_failure_def split: prod.splits sum.splits)

lemma record_failure_inv:
  assumes "gw_inv B gw"
  shows "gw_inv B (snd (record_failure env rule p d err gw))"
proof -
  obtain r gw1 where s: "gw_set ns_system (intent_key (pr_action_hash p)) (SDict (failed_value p d err)) gw = (r, gw1)"
    by (meson surj_pair)
  have 1: "gw_inv B gw1"
    using gw_set_inv [OF assms _ s] by (simp add: gateway_record_def)
  obtain r2 gw2 where b: "barrier_if env (tr_barrier rule) gw1 = (r2, gw2)" by (meson surj_pair)
  have 2: "gw_inv B gw2"
    using barrier_inv [OF 1 b] by blast
  have "snd (record_failure env rule p d err gw) = (if isl r then gw1 else gw2)"
    using s b by (cases r; cases r2) (simp_all add: record_failure_def and_then_def)
  with 1 2 show ?thesis by simp
qed

lemma record_result_inv:
  assumes "gw_inv B gw"
  shows "gw_inv B (snd (record_result env rule p d res gw))"
proof -
  let ?h = "pr_action_hash p"
  obtain r gw1 where s: "gw_set ns_results (result_key ?h) (SDict (result_value p d res)) gw = (r, gw1)"
    by (meson surj_pair)
  have rec: "gateway_record (ns_results, result_key ?h) (SDict (result_value p d res))"
    by (simp add: gateway_record_def)
  note 1 = gw_set_inv [OF assms rec s]
  obtain r2 m2 where del: "memory_delete ns_system (intent_key ?h) (gw_memory gw1) = (r2, m2)" by (meson surj_pair)
  let ?gw2 = "gw1\<lparr>gw_memory := m2\<rparr>"
  have 2: "gw_inv B ?gw2" if "r = Inr u" for u
  proof (rule inv_memory)
    show "gw_inv B gw1" using 1 by blast
    have set: "memory_set ns_results (result_key ?h) (SDict (result_value p d res)) (gw_memory gw) = (Inr u, gw_memory gw1)"
      using s that by (auto simp: gw_set_def split: prod.splits)
    have safe: "safe_memory (gw_memory gw)" "safe_memory (gw_memory gw1)" using assms 1 by (simp_all add: gw_inv_def)
    show "safe_memory m2"
      using memory_delete_journal(1) [of "gw_memory gw1" "(ns_system, intent_key ?h)"] safe(2) del by simp
    fix h assume "traced (gw_memory gw1) h"
    moreover have "has_record (gw_memory gw1) (ns_results, result_key ?h)" using 1 that by blast
    moreover have "has_record m2 k" if "has_record (gw_memory gw1) k" "k \<noteq> (ns_system, intent_key ?h)" for k
      using memory_delete_journal(2) [of "gw_memory gw1" "(ns_system, intent_key ?h)"] safe(2) del that by simp
    ultimately show "traced m2 h"
      using mj.intent_inj mj.intent_outcome unfolding traced_def by metis
  qed
  obtain r3 gw3 where b: "barrier_if env (tr_barrier rule) ?gw2 = (r3, gw3)" by (meson surj_pair)
  have 3: "gw_inv B gw3" if "r = Inr u" for u
    using barrier_inv [OF 2 [OF that] b] by blast
  have "snd (record_result env rule p d res gw) =
      (if isl r then gw1 else if r2 = Inr True then gw3 else ?gw2)"
    using s del b by (cases r; cases r2; cases r3) (auto simp: record_result_def and_then_def)
  with 1 2 3 show ?thesis by (cases r) auto
qed

text \<open>Running an action either stops before the handler or calls it once.\<close>

lemma run_action_cases:
  obtains gw1 where "snd (run_action env rule handler p d gw) = gw1" "gw_frame gw gw1"
      "\<And>B. gw_inv B gw \<Longrightarrow> gw_inv B gw1" "\<And>res. fst (run_action env rule handler p d gw) \<noteq> Inr res"
  | u gw1 gw2 where "gw_set ns_system (intent_key (pr_action_hash p)) (SDict (intent_value p d)) gw = (Inr u, gw1)"
      "barrier_if env (tr_barrier rule) gw1 = (Inr (), gw2)" "gw_frame gw gw2"
      "run_action env rule handler p d gw =
        (case handler (length (gw_invoked gw2)) p of
           Inl err \<Rightarrow> record_failure env rule p d err (gw2\<lparr>gw_invoked := gw_invoked gw2 @ [p]\<rparr>)
         | Inr res \<Rightarrow> record_result env rule p d res (gw2\<lparr>gw_invoked := gw_invoked gw2 @ [p]\<rparr>))"
proof -
  let ?h = "pr_action_hash p"
  obtain r gw1 where s: "gw_set ns_system (intent_key ?h) (SDict (intent_value p d)) gw = (r, gw1)" by (meson surj_pair)
  have rec: "gateway_record (ns_system, intent_key ?h) (SDict (intent_value p d))" by (simp add: gateway_record_def)
  have inv1: "gw_inv B gw \<Longrightarrow> gw_inv B gw1" for B using gw_set_inv [OF _ rec s] by blast
  obtain r2 gw2 where b: "barrier_if env (tr_barrier rule) gw1 = (r2, gw2)" by (meson surj_pair)
  note f = gw_set_frame [OF s] barrier_frame [OF b]
  show thesis
  proof (cases r)
    case (Inl e)
    with s have "run_action env rule handler p d gw = (Inl e, gw1)" by (simp add: run_action_def and_then_def)
    with f(1) inv1 show thesis by (intro that(1) [of gw1]) auto
  next
    case r: (Inr u)
    show thesis
    proof (cases r2)
      case (Inl e)
      with s b r have "run_action env rule handler p d gw = (Inl e, gw2)" by (simp add: run_action_def and_then_def)
      with inv1 barrier_inv [OF _ b] gw_frame_trans [OF f] show thesis by (intro that(1) [of gw2]) auto
    next
      case (Inr v)
      with s b r gw_frame_trans [OF f] show thesis
        by (intro that(2) [of u gw1 gw2]) (simp_all add: run_action_def and_then_def Let_def)
    qed
  qed
qed

lemma run_action_frame:
  obtains "gw_frame gw (snd (run_action env rule handler p d gw))"
  | "gw_frame (gw\<lparr>gw_invoked := gw_invoked gw @ [p]\<rparr>) (snd (run_action env rule handler p d gw))"
proof (cases rule: run_action_cases [of env rule handler p d gw])
  case (1 gw1)
  then show thesis using that(1) by simp
next
  case (2 u gw1 gw2)
  let ?gw3 = "gw2\<lparr>gw_invoked := gw_invoked gw2 @ [p]\<rparr>"
  have "gw_frame (gw\<lparr>gw_invoked := gw_invoked gw @ [p]\<rparr>) ?gw3" using 2(3) by (simp add: gw_frame_def)
  moreover have "gw_frame ?gw3 (snd (run_action env rule handler p d gw))"
    unfolding 2(4) by (simp add: record_failure_frame record_result_frame split: sum.splits)
  ultimately show thesis using that(2) gw_frame_trans by blast
qed

lemma run_action_inv:
  assumes "gw_inv B gw" "\<not> traced (gw_memory gw) (pr_action_hash p)" "B \<longrightarrow> tr_barrier rule"
  shows "gw_inv B (snd (run_action env rule handler p d gw))"
proof (cases rule: run_action_cases [of env rule handler p d gw])
  case (1 gw1)
  then show ?thesis using assms(1) by simp
next
  case (2 u gw1 gw2)
  let ?h = "pr_action_hash p" and ?gw3 = "gw2\<lparr>gw_invoked := gw_invoked gw2 @ [p]\<rparr>"
  have rec: "gateway_record (ns_system, intent_key ?h) (SDict (intent_value p d))" by (simp add: gateway_record_def)
  have 3: "gw_inv B gw1" "has_record (gw_memory gw1) (ns_system, intent_key ?h)"
    using gw_set_inv [OF assms(1) rec 2(1)] by blast+
  note 4 = barrier_inv [OF 3(1) 2(2)]
  have "?h \<notin> pr_action_hash ` set (gw_invoked gw2)"
    using assms(1,2) 2(3) by (auto simp: gw_inv_def gw_frame_def)
  moreover have "traced (gw_memory gw2) ?h" "B \<longrightarrow> traced (gw_durable gw2) ?h"
    using 3(2) 4 assms(3) by (auto simp: traced_def)
  moreover have "gw_inv B gw2" using 4 by blast
  ultimately have "gw_inv B ?gw3" by (simp add: gw_inv_def)
  then show ?thesis
    unfolding 2(4) by (simp add: record_failure_inv record_result_inv split: sum.splits)
qed

lemma bound_decision_verdict [simp]: "dc_verdict (bound_decision v r p) = v"
  by (simp add: bound_decision_def)

lemma local_allow:
  assumes "dc_verdict (local_decision policy p) = Allow"
  shows "\<exists>r. rule_for policy (pr_tool p) = Some r \<and> pr_operation p \<in> set (tr_operations r) \<and>
    (if tr_prefixes r = [] then pr_resource p = [] else \<exists>q \<in> set (tr_prefixes r). starts_with q (pr_resource p))"
  using assms by (auto simp: local_decision_def list_ex_iff split: option.splits if_splits)

lemma external_allow:
  assumes "dc_verdict (normalize_external_decision response p) = Allow"
  shows "\<exists>d. response = Answered d \<and> dget d ''decision'' = Some (JStr ''allow'') \<and>
    dget d ''action_hash'' = Some (JStr (pr_action_hash p)) \<and> dget d ''policy_hash'' = Some (JStr (pr_policy_hash p))"
  using assms by (auto simp: normalize_external_decision_def parse_verdict_def split: answer.splits option.splits json.splits if_splits)

lemma authorize_granted:
  assumes "authorize env t approval p gw = Inr d" "dc_verdict d = Allow"
  shows "granted env t approval (gw_policy gw) p"
proof -
  have d: "d = (if dc_verdict (local_decision (gw_policy gw) p) \<noteq> Allow then local_decision (gw_policy gw) p
      else case ge_authorizer env of None \<Rightarrow> local_decision (gw_policy gw) p
        | Some f \<Rightarrow> (case f t p approval of
            Raised kind \<Rightarrow> bound_decision Deny (''external authorizer failed: '' @ kind) p
          | response \<Rightarrow> normalize_external_decision response p))"
    using assms(1) by (auto simp: authorize_def Let_def)
  have here: "dc_verdict (local_decision (gw_policy gw) p) = Allow"
    using d assms(2) by (cases "dc_verdict (local_decision (gw_policy gw) p) = Allow") auto
  have "\<exists>d'. f t p approval = Answered d' \<and> dget d' ''decision'' = Some (JStr ''allow'') \<and>
      dget d' ''action_hash'' = Some (JStr (pr_action_hash p)) \<and> dget d' ''policy_hash'' = Some (JStr (pr_policy_hash p))"
    if "ge_authorizer env = Some f" for f
  proof -
    have "dc_verdict (normalize_external_decision (f t p approval) p) = Allow"
      using d here that assms(2) by (cases "f t p approval") auto
    then show ?thesis using external_allow by blast
  qed
  then show ?thesis unfolding granted_def using local_allow [OF here] by blast
qed

lemma memory_get_none: "memory_get ns key SNone m = Inr SNone \<Longrightarrow> \<not> has_record m (ns, key)"
  by (auto simp: memory_get_def has_record_def dest!: open_bucket_Inr split: option.splits)

lemma rule_for_barrier: "rule_for policy tool = Some r \<Longrightarrow> list_all tr_barrier (tp_rules policy) \<Longrightarrow> tr_barrier r"
  by (auto simp: rule_for_def find_Some_iff list_all_length)

text \<open>A call that goes on to the handler is for an allowed action that has left no trace.\<close>

lemma gw_check_Inr:
  assumes "gw_check env t approval c gw = Inr (p, d, rule, handler)"
  shows "propose env c gw = Inr p" "authorize env t approval p gw = Inr d" "dc_verdict d = Allow"
    "rule_for (gw_policy gw) (pr_tool p) = Some rule" "\<not> traced (gw_memory gw) (pr_action_hash p)"
proof -
  obtain p' d' where pd: "propose env c gw = Inr p'" "authorize env t approval p' gw = Inr d'"
    using assms by (cases "rbind (propose env c gw) (\<lambda>p. rbind (authorize env t approval p gw) (\<lambda>d. Inr (p, d)))")
      (auto simp: gw_check_def)
  have eq: "p' = p" "d' = d" and allow: "dc_verdict d' = Allow" and rule: "rule_for (gw_policy gw) (pr_tool p') = Some rule"
    and none: "memory_get ns_results (result_key (pr_action_hash p')) SNone (gw_memory gw) = Inr SNone"
      "memory_get ns_system (intent_key (pr_action_hash p')) SNone (gw_memory gw) = Inr SNone"
    using assms pd by (auto simp: gw_check_def split: sum.splits option.splits if_splits)
  show "propose env c gw = Inr p" "authorize env t approval p gw = Inr d" "dc_verdict d = Allow"
    "rule_for (gw_policy gw) (pr_tool p) = Some rule" using pd allow rule eq by simp_all
  show "\<not> traced (gw_memory gw) (pr_action_hash p)"
    using none eq memory_get_none by (simp add: traced_def)
qed

lemma gw_execute_cases:
  obtains r where "gw_check env t approval c gw = Inl r" "gw_execute env t approval c gw = (r, gw)"
  | p d rule handler where "gw_check env t approval c gw = Inr (p, d, rule, handler)"
      "gw_execute env t approval c gw = run_action env rule handler p d gw"
  by (cases "gw_check env t approval c gw") (auto simp: gw_execute_def)

lemma gw_execute_inv:
  assumes "gw_inv B gw" "B \<longrightarrow> list_all tr_barrier (tp_rules (gw_policy gw))"
  shows "gw_inv B (snd (gw_execute env t approval c gw))"
proof (cases rule: gw_execute_cases [of env t approval c gw])
  case (1 r)
  then show ?thesis using assms(1) by simp
next
  case (2 p d rule handler)
  note c = gw_check_Inr [OF 2(1)]
  show ?thesis
    unfolding 2(2) by (rule run_action_inv [OF assms(1) c(5)]) (use assms(2) rule_for_barrier [OF c(4)] in blast)
qed

text \<open>A call hands at most one proposal to a handler, and only a granted one.\<close>

lemma gw_execute_invoked:
  shows "gw_policy (snd (gw_execute env t approval c gw)) = gw_policy gw"
    and "p \<in> set (gw_invoked (snd (gw_execute env t approval c gw))) \<Longrightarrow>
      p \<in> set (gw_invoked gw) \<or> granted env t approval (gw_policy gw) p"
proof -
  have "gw_policy (snd (gw_execute env t approval c gw)) = gw_policy gw \<and>
    (p \<in> set (gw_invoked (snd (gw_execute env t approval c gw))) \<longrightarrow>
      p \<in> set (gw_invoked gw) \<or> granted env t approval (gw_policy gw) p)" for p
  proof (cases rule: gw_execute_cases [of env t approval c gw])
    case (2 q d rule handler)
    have "granted env t approval (gw_policy gw) q"
      using gw_check_Inr [OF 2(1)] authorize_granted by blast
    then show ?thesis
      unfolding 2(2) by (cases rule: run_action_frame [of gw env rule handler q d]) (auto simp: gw_frame_def)
  qed simp
  then show "gw_policy (snd (gw_execute env t approval c gw)) = gw_policy gw"
    "p \<in> set (gw_invoked (snd (gw_execute env t approval c gw))) \<Longrightarrow>
      p \<in> set (gw_invoked gw) \<or> granted env t approval (gw_policy gw) p" by blast+
qed

section \<open>Histories of a gateway\<close>

text \<open>
  \<open>Call\<close> is a call of \<open>execute\<close> that runs to its end before the next step, at the moment \<open>t\<close>; \<open>Other\<close>
  any change of the agent memory by others; \<open>Advance\<close> an execution of the machine, which moves its
  checkpoint; \<open>Checkpoint\<close> a checkpoint of the session; \<open>Crash\<close> a restart from the last checkpoint on the disk.
\<close>

datatype gw_step = Call nat sval tool_call | Other agent_memory | Advance int string | Checkpoint | Crash

definition gw_next :: "gw_env \<Rightarrow> gateway \<Rightarrow> gw_step \<Rightarrow> gateway" where
  "gw_next env gw s =
     (case s of
        Call t approval c \<Rightarrow> snd (gw_execute env t approval c gw)
      | Other m \<Rightarrow> gw\<lparr>gw_memory := m\<rparr>
      | Advance g h \<Rightarrow> gw\<lparr>gw_generation := g, gw_checkpoint_hash := h\<rparr>
      | Checkpoint \<Rightarrow> snd (checkpoint_barrier env gw)
      | Crash \<Rightarrow> gw\<lparr>gw_memory := gw_durable gw\<rparr>)"

text \<open>Changes of the memory that leave the two namespaces of the gateway alone, and histories with only such.\<close>

definition undisturbed :: "agent_memory \<Rightarrow> agent_memory \<Rightarrow> bool" where
  "undisturbed m m' \<longleftrightarrow> root_ok m' \<and> am_policies m' = am_policies m \<and>
     dget (am_spaces m') ns_system = dget (am_spaces m) ns_system \<and> dget (am_spaces m') ns_results = dget (am_spaces m) ns_results"

fun undisturbed_run :: "gw_env \<Rightarrow> gateway \<Rightarrow> gw_step list \<Rightarrow> bool" where
  "undisturbed_run env gw [] = True"
| "undisturbed_run env gw (s # steps) \<longleftrightarrow>
     (case s of Other m \<Rightarrow> undisturbed (gw_memory gw) m | _ \<Rightarrow> True) \<and> undisturbed_run env (gw_next env gw s) steps"

text \<open>The operations of the memory manager on any other namespace are such changes.\<close>

fun op_namespace :: "mem_op \<Rightarrow> ustr" where
  "op_namespace (OSet ns key v) = ns"
| "op_namespace (OAppend ns v) = ns"
| "op_namespace (ODelete ns key) = ns"
| "op_namespace (OClear ns) = ns"

definition elsewhere :: "ustr \<Rightarrow> agent_memory \<Rightarrow> agent_memory \<Rightarrow> bool" where
  "elsewhere ns m m' \<longleftrightarrow> am_policies m' = am_policies m \<and> (\<forall>n. n \<noteq> ns \<longrightarrow> dget (am_spaces m') n = dget (am_spaces m) n)"

lemma elsewhere_set_locked: "set_locked pol ns key v m = Inr m' \<Longrightarrow> elsewhere ns m m'"
  by (auto simp: set_locked_def Let_def put_bucket_def elsewhere_def)

lemma elsewhere_put: "elsewhere ns m m" "elsewhere ns m ((put_bucket ns b m)\<lparr>am_dirty := True\<rparr>)"
  by (simp_all add: put_bucket_def elsewhere_def)

lemma mem_step_elsewhere: "elsewhere (op_namespace op) m (mem_step m op)"
proof (cases op)
  case (OSet ns key v)
  show ?thesis unfolding OSet mem_step.simps op_namespace.simps memory_set_def
    by (rule committed_snd) (auto simp: elsewhere_put intro: elsewhere_set_locked split: if_splits)
next
  case (OAppend ns v)
  show ?thesis unfolding OAppend mem_step.simps op_namespace.simps memory_append_def
    by (rule committed_snd) (auto simp: Let_def elsewhere_put intro: elsewhere_set_locked split: if_splits)
next
  case (ODelete ns key)
  show ?thesis unfolding ODelete mem_step.simps op_namespace.simps memory_delete_def
    by (rule committed_snd) (auto simp: elsewhere_put split: if_splits)
next
  case (OClear ns)
  show ?thesis unfolding OClear mem_step.simps op_namespace.simps memory_clear_def
    by (rule committed_snd) (auto simp: elsewhere_put)
qed

lemma mem_step_undisturbed:
  assumes "root_ok m" "within_quota m" "am_next m < 2 ^ 64" "op_namespace op \<notin> {ns_system, ns_results}"
  shows "undisturbed m (mem_step m op)"
  using mem_step_invariant [OF assms(1-3), of op] mem_step_elsewhere [of op m] assms(4)
  by (auto simp: undisturbed_def keeps_def elsewhere_def)

lemma undisturbed_journal:
  assumes "undisturbed m m'" "safe_memory m"
  shows "safe_memory m'" "traced m h \<Longrightarrow> traced m' h"
  using assms by (auto simp: undisturbed_def safe_memory_def rejecting_def traced_def has_record_def)

lemma gw_next_policy: "gw_policy (gw_next env gw s) = gw_policy gw"
  by (cases s) (auto simp: gw_next_def gw_execute_invoked(1) checkpoint_barrier_def split: sum.splits)

lemma gw_next_inv:
  assumes "gw_inv B gw" "B \<longrightarrow> list_all tr_barrier (tp_rules (gw_policy gw))" "s = Crash \<longrightarrow> B"
    and "case s of Other m \<Rightarrow> undisturbed (gw_memory gw) m | _ \<Rightarrow> True"
  shows "gw_inv B (gw_next env gw s)"
proof (cases s)
  case (Call t approval c)
  then show ?thesis using gw_execute_inv [OF assms(1,2)] by (simp add: gw_next_def)
next
  case (Other m)
  then have m: "undisturbed (gw_memory gw) m" using assms(4) by simp
  have safe: "safe_memory (gw_memory gw)" using assms(1) by (simp add: gw_inv_def)
  have "gw_inv B (gw\<lparr>gw_memory := m\<rparr>)"
    by (rule inv_memory [OF assms(1) undisturbed_journal(1) [OF m safe] undisturbed_journal(2) [OF m safe]])
  with Other show ?thesis by (simp add: gw_next_def)
next
  case Checkpoint
  then show ?thesis
    using barrier_inv [OF assms(1), of env True] by (simp add: gw_next_def barrier_if_def) (metis prod.collapse)
qed (use assms in \<open>auto simp: gw_next_def gw_inv_def\<close>)

lemma gw_history_inv:
  assumes "gw_inv B gw" "B \<longrightarrow> list_all tr_barrier (tp_rules (gw_policy gw))" "Crash \<in> set steps \<longrightarrow> B"
    and "undisturbed_run env gw steps"
  shows "gw_inv B (foldl (gw_next env) gw steps)"
  using assms
proof (induction steps arbitrary: gw)
  case (Cons s steps)
  have "gw_inv B (gw_next env gw s)"
    by (rule gw_next_inv) (use Cons.prems in auto)
  then show ?case using Cons.IH [of "gw_next env gw s"] Cons.prems by (simp add: gw_next_policy)
qed simp

lemma gw_next_invoked:
  assumes "p \<in> set (gw_invoked (gw_next env gw s))"
  shows "p \<in> set (gw_invoked gw) \<or> (\<exists>t approval c. s = Call t approval c \<and> granted env t approval (gw_policy gw) p)"
proof (cases s)
  case (Call t approval c)
  then show ?thesis using assms gw_execute_invoked(2) by (auto simp: gw_next_def)
qed (use assms in \<open>auto simp: gw_next_def checkpoint_barrier_def split: sum.splits\<close>)

lemma gw_history_granted:
  "p \<in> set (gw_invoked (foldl (gw_next env) gw steps)) \<Longrightarrow>
   p \<in> set (gw_invoked gw) \<or> (\<exists>t approval c. Call t approval c \<in> set steps \<and> granted env t approval (gw_policy gw) p)"
proof (induction steps arbitrary: gw)
  case (Cons s steps)
  have "p \<in> set (gw_invoked (gw_next env gw s)) \<or>
      (\<exists>t approval c. Call t approval c \<in> set steps \<and> granted env t approval (gw_policy (gw_next env gw s)) p)"
    using Cons by simp
  then show ?case
    using gw_next_invoked [of p env gw s] by (auto simp: gw_next_policy)
qed simp

lemma gateway_init_inv:
  assumes "gateway_init env policy m m g h = Inr gw" "root_ok m"
  shows "gw_inv B gw" "gw_policy gw = policy"
proof -
  have safe: "safe_memory m" using assms by (auto simp: gateway_init_def safe_memory_def rejecting_def split: if_splits)
  have set: "safe_memory m'" if "memory_set ns_system (ascii ''tool-policy'') (policy_record env policy) m = (r, m')" for r m'
    using memory_set_journal(1) [OF safe, of "(ns_system, ascii ''tool-policy'')" "policy_record env policy"] that
    by (simp add: gateway_record_def policy_record_def)
  obtain persisted where "memory_get ns_system (ascii ''tool-policy'') SNone m = Inr persisted"
    using assms(1) by (auto simp: gateway_init_def split: if_splits)
  then have "gw_policy gw = policy \<and> gw_invoked gw = [] \<and> gw_durable gw = m \<and> safe_memory (gw_memory gw)"
    using assms(1) safe set by (auto simp: gateway_init_def Let_def split: if_splits prod.splits sum.splits)
  then show "gw_inv B gw" "gw_policy gw = policy"
    using safe by (simp_all add: gw_inv_def)
qed

section \<open>Properties\<close>

text \<open>C35. A tool action runs at most once: whatever sequence of calls, changes of the agent memory, executions
  of the machine and checkpoints a gateway goes through, failing handlers, failing checkpoints and an authoriser
  that changes its mind included, no two handler calls were made for the same action; when every rule asks for
  a barrier this holds across crashes that lose everything since the last checkpoint on the disk. It is
  assumed that calls of \<open>execute\<close> do not overlap and that nobody else changes the namespaces \<open>system\<close> and
  \<open>tool_results\<close> of the memory or breaks its structure.\<close>

theorem actions_run_at_most_once:
  assumes "gateway_init env policy m m g h = Inr gw" "root_ok m"
    and "list_all tr_barrier (tp_rules policy) \<or> Crash \<notin> set steps" "undisturbed_run env gw steps"
  shows "distinct (map pr_action_hash (gw_invoked (foldl (gw_next env) gw steps)))"
proof -
  let ?B = "list_all tr_barrier (tp_rules policy)"
  have "gw_inv ?B (foldl (gw_next env) gw steps)"
    using gw_history_inv [OF gateway_init_inv(1) [OF assms(1,2)] _ _ assms(4)] gateway_init_inv(2) [OF assms(1,2)] assms(3) by blast
  then show ?thesis by (simp add: gw_inv_def)
qed

text \<open>C36. Only granted actions run: every handler call in any history of a gateway was for a tool and an operation
  the local policy names, on a resource under one of its prefixes (or on none, where it has no prefixes), and
  with an external authoriser configured it had answered that very action, under that very policy, with allow,
  when it was asked at the moment and with the approval of one of the calls of the history.\<close>

theorem only_granted_actions_run:
  assumes "gateway_init env policy m durable g h = Inr gw" "p \<in> set (gw_invoked (foldl (gw_next env) gw steps))"
  shows "(\<exists>r. rule_for policy (pr_tool p) = Some r \<and> pr_operation p \<in> set (tr_operations r) \<and>
        (if tr_prefixes r = [] then pr_resource p = [] else \<exists>q \<in> set (tr_prefixes r). starts_with q (pr_resource p))) \<and>
    (\<exists>t approval c. Call t approval c \<in> set steps \<and>
      (\<forall>f. ge_authorizer env = Some f \<longrightarrow>
        (\<exists>d. f t p approval = Answered d \<and> dget d ''decision'' = Some (JStr ''allow'') \<and>
           dget d ''action_hash'' = Some (JStr (pr_action_hash p)) \<and> dget d ''policy_hash'' = Some (JStr (pr_policy_hash p)))))"
proof -
  have "gw_policy gw = policy" "gw_invoked gw = []"
    using assms(1) by (auto simp: gateway_init_def Let_def split: if_splits prod.splits sum.splits)
  then obtain t approval c where "Call t approval c \<in> set steps" "granted env t approval policy p"
    using gw_history_granted [OF assms(2)] by auto
  then show ?thesis unfolding granted_def by blast
qed

lemma same_machine:
  assumes "gw_policy gw' = gw_policy gw" "gw_generation gw' = gw_generation gw" "gw_checkpoint_hash gw' = gw_checkpoint_hash gw"
  shows "propose env c gw' = propose env c gw" "authorize env t a p gw' = authorize env t a p gw"
  by (simp_all add: propose_def authorize_def validate_proposal_def assms)

text \<open>Whether a proposal can be put to the authoriser does not depend on the moment and the approval.\<close>

lemma authorize_again:
  assumes "authorize env t a p gw = Inr d" "dc_verdict d = Allow"
  shows "\<exists>d'. authorize env t' a' p gw = Inr d' \<and> (ge_authorizer env = None \<longrightarrow> dc_verdict d' = Allow)"
  using assms by (auto simp: authorize_def Let_def split: option.splits)

lemma record_result_stored:
  assumes "safe_memory (gw_memory gw)" "record_result env rule p d res gw = (Inr res', gw')"
  shows "res' = res \<and> gw_frame gw gw' \<and>
    memory_get ns_results (result_key (pr_action_hash p)) SNone (gw_memory gw') = Inr (SDict (result_value p d res))"
proof -
  let ?h = "pr_action_hash p" and ?v = "SDict (result_value p d res)"
  obtain m1 m2 gw3 where s: "memory_set ns_results (result_key ?h) ?v (gw_memory gw) = (Inr (), m1)"
      "memory_delete ns_system (intent_key ?h) m1 = (Inr True, m2)"
      "barrier_if env (tr_barrier rule) (gw\<lparr>gw_memory := m2\<rparr>) = (Inr (), gw3)" "gw' = gw3" "res' = res"
    using assms(2) by (auto simp: record_result_def and_then_def gw_set_def split: prod.splits sum.splits if_splits)
  have root: "root_ok (gw_memory gw)" using assms(1) by (simp add: safe_memory_def)
  obtain pol b es where a: "dget (am_policies (gw_memory gw)) ns_results = Some pol" "dget (am_spaces (gw_memory gw)) ns_results = Some b"
      "m1 = (put_bucket ns_results es (gw_memory gw))\<lparr>am_next := am_next (gw_memory gw) + 1, am_dirty := True\<rparr>"
      "dget es (result_key ?h) = Some \<lparr>me_sequence = am_next (gw_memory gw), me_value = ?v\<rparr>" "root_ok m1"
      "memory_key (result_key ?h)" "\<not> am_closed (gw_memory gw)"
    using memory_set_success [OF root s(1)] by metis
  obtain b2 where b2: "m2 = (put_bucket ns_system (ddel (intent_key ?h) b2) m1)\<lparr>am_dirty := True\<rparr>"
    using memory_delete_cases(1) [OF a(5) s(2)] by blast
  have "root_ok m2" by (rule memory_delete_cases(2) [OF a(5) s(2)])
  moreover have "\<not> am_closed m2" "dget (am_policies m2) ns_results = Some pol" "dget (am_spaces m2) ns_results = Some es"
    using a by (simp_all add: b2 put_bucket_def ns_system_def ns_results_def)
  ultimately have "memory_get ns_results (result_key ?h) SNone m2 = Inr ?v"
    using memory_get_entry [of m2 "result_key ?h" ns_results pol es SNone] a(4,6) by simp
  moreover have "gw_memory gw' = m2" "gw_frame gw gw'"
    using s(3,4) by (auto simp: barrier_if_def checkpoint_barrier_def gw_frame_def split: if_splits sum.splits)
  ultimately show ?thesis using s(5) by simp
qed

lemma reuse_stored: "reuse_result (SDict (result_value p d res)) p = Inr res"
  by (simp add: reuse_result_def validate_persisted_proposal_def result_value_def sget_simps)

lemma run_action_stored:
  assumes "safe_memory (gw_memory gw)" "run_action env rule handler p d gw = (Inr res, gw')"
  shows "gw_frame (gw\<lparr>gw_invoked := gw_invoked gw @ [p]\<rparr>) gw' \<and>
    memory_get ns_results (result_key (pr_action_hash p)) SNone (gw_memory gw') = Inr (SDict (result_value p d res))"
proof (cases rule: run_action_cases [of env rule handler p d gw])
  case (1 gw1)
  then show ?thesis using assms(2) by auto
next
  case (2 u gw1 gw2)
  let ?gw3 = "gw2\<lparr>gw_invoked := gw_invoked gw2 @ [p]\<rparr>" and ?k = "(ns_system, intent_key (pr_action_hash p))"
  obtain res' where res': "record_result env rule p d res' ?gw3 = (Inr res, gw')"
    using assms(2) record_failure_error unfolding 2(4) by (cases "handler (length (gw_invoked gw2)) p") auto
  have "memory_set ns_system (intent_key (pr_action_hash p)) (SDict (intent_value p d)) (gw_memory gw) = (Inr u, gw_memory gw1)"
    using 2(1) by (auto simp: gw_set_def split: prod.splits)
  then have "safe_memory (gw_memory gw1)"
    using memory_set_journal(1) [OF assms(1), of ?k "SDict (intent_value p d)"] by (simp add: gateway_record_def)
  then have "safe_memory (gw_memory ?gw3)"
    using 2(2) by (auto simp: barrier_if_def checkpoint_barrier_def split: if_splits sum.splits)
  note stored = record_result_stored [OF this res']
  moreover have "gw_frame (gw\<lparr>gw_invoked := gw_invoked gw @ [p]\<rparr>) ?gw3" using 2(3) by (simp add: gw_frame_def)
  ultimately show ?thesis using gw_frame_trans by blast
qed

text \<open>C37. Completed actions are replayed from their record: when executing an action returned a result, executing it
  again while the machine has not moved calls no handler and changes nothing. The decision is taken anew:
  when the action is allowed again, which is certain without an external authoriser, the repeat
  returns the same result, and otherwise it is refused.\<close>

theorem completed_action_replayed:
  assumes "safe_memory (gw_memory gw)" "gw_execute env t approval c gw = (Inr res, gw')"
  shows "\<exists>p d. propose env c gw' = Inr p \<and> authorize env t' approval' p gw' = Inr d \<and>
    (ge_authorizer env = None \<longrightarrow> dc_verdict d = Allow) \<and>
    gw_execute env t' approval' c gw' =
      (if dc_verdict d = Allow then Inr res
       else Inl (PermissionError (verdict_text (dc_verdict d) @ '': '' @ dc_reason d)), gw')"
proof -
  obtain p d0 where first: "propose env c gw = Inr p" "authorize env t approval p gw = Inr d0" "dc_verdict d0 = Allow"
    and gw': "propose env c gw' = propose env c gw"
      "\<And>s a q. authorize env s a q gw' = authorize env s a q gw"
      "\<exists>v. v \<noteq> SNone \<and> memory_get ns_results (result_key (pr_action_hash p)) SNone (gw_memory gw') = Inr v \<and>
         reuse_result v p = Inr res"
  proof (cases rule: gw_execute_cases [of env t approval c gw])
    case (1 r)
    then have r: "gw_check env t approval c gw = Inl (Inr res)" "gw' = gw" using assms(2) by simp_all
    then obtain p d where pd: "propose env c gw = Inr p" "authorize env t approval p gw = Inr d"
      by (cases "rbind (propose env c gw) (\<lambda>p. rbind (authorize env t approval p gw) (\<lambda>d. Inr (p, d)))")
        (auto simp: gw_check_def)
    moreover have "dc_verdict d = Allow" using r(1) pd by (auto simp: gw_check_def split: if_splits)
    moreover have "\<exists>v. v \<noteq> SNone \<and> memory_get ns_results (result_key (pr_action_hash p)) SNone (gw_memory gw) = Inr v \<and>
         reuse_result v p = Inr res"
      using r(1) pd \<open>dc_verdict d = Allow\<close>
      by (auto simp: gw_check_def split: sum.splits if_splits option.splits)
    ultimately show thesis using that r(2) by blast
  next
    case (2 p d rule handler)
    note c = gw_check_Inr [OF 2(1)]
    have stored: "gw_frame (gw\<lparr>gw_invoked := gw_invoked gw @ [p]\<rparr>) gw'"
        "memory_get ns_results (result_key (pr_action_hash p)) SNone (gw_memory gw') = Inr (SDict (result_value p d res))"
      using run_action_stored [OF assms(1)] assms(2) unfolding 2(2) by blast+
    have "propose env c gw' = propose env c gw" "authorize env s a q gw' = authorize env s a q gw" for s a q
      using stored(1) by (auto simp: gw_frame_def intro: same_machine)
    then show thesis using that [of p d] c(1-3) stored reuse_stored by auto
  qed
  obtain d where d: "authorize env t' approval' p gw = Inr d" "ge_authorizer env = None \<longrightarrow> dc_verdict d = Allow"
    using authorize_again [OF first(2,3)] by blast
  then show ?thesis using first(1) gw' by (auto simp: gw_execute_def gw_check_def)
qed

section \<open>Examples\<close>

definition demo_policy :: tool_policy where
  "demo_policy = \<lparr>tp_id = ''p'', tp_rules = [\<lparr>tr_tool = ''t'', tr_operations = [''run''], tr_prefixes = [], tr_barrier = True\<rparr>]\<rparr>"

definition demo_gw_env :: gw_env where
  "demo_gw_env = \<lparr>ge_sha = (\<lambda>_. []), ge_handlers = [(''t'', \<lambda>n p. Inr (SInt (int n)))], ge_authorizer = None,
     ge_commit = (\<lambda>_ _. Inr ())\<rparr>"

definition demo_call :: tool_call where
  "demo_call = \<lparr>tc_tool = ''t'', tc_operation = ''run'', tc_resource = [], tc_arguments = [], tc_idempotency_key = ''k''\<rparr>"

definition system_policy :: "ustr \<Rightarrow> ns_policy" where
  "system_policy n = \<lparr>np_name = n, np_max_bytes = 4000, np_max_entries = 8, np_eviction = ascii ''reject''\<rparr>"

definition demo_agent_memory :: agent_memory where
  "demo_agent_memory = \<lparr>am_store = roomy_store\<lparr>sp_layout := demo_store_layout\<lparr>lheight := 401\<rparr>\<rparr>, am_closed = False, am_dirty = False,
     am_rest = [], am_version = SInt 1, am_next = 2,
     am_policies = [(ns_system, system_policy ns_system), (ns_results, system_policy ns_results)],
     am_spaces = [(ns_system, [(ascii ''tool-policy'', \<lparr>me_sequence = 1, me_value = policy_record demo_gw_env demo_policy\<rparr>)]),
       (ns_results, [])]\<rparr>"

definition demo_gateway :: gateway where
  "demo_gateway = \<lparr>gw_policy = demo_policy, gw_memory = demo_agent_memory, gw_durable = demo_agent_memory, gw_generation = 3,
     gw_checkpoint_hash = ''c'', gw_commits = 0, gw_invoked = []\<rparr>"

lemma ns_distinct [simp]: "ns_system \<noteq> ns_results" "ns_results \<noteq> ns_system"
  by (simp_all add: ns_system_def ns_results_def)

lemma ns_names: "namespace_name ns_system" "namespace_name ns_results"
  by (simp_all add: ns_system_def ns_results_def namespace_name_def ascii_def lower_code_def)

lemma policy_key: "memory_key (ascii ''tool-policy'')"
  by (simp add: memory_key_def ascii_def lower_code_def)

lemma demo_memory_ok: "root_ok demo_agent_memory"
  by (auto simp: root_ok_def demo_agent_memory_def is_one_def dict_ok_def policy_ok_def system_policy_def ns_names spaces_ok_def
      bucket_ok_def seqs_def policy_key)

lemma demo_gateway_init: "gateway_init demo_gw_env demo_policy demo_agent_memory demo_agent_memory 3 ''c'' = Inr demo_gateway"
proof -
  have "memory_get ns_system (ascii ''tool-policy'') SNone demo_agent_memory = Inr (policy_record demo_gw_env demo_policy)"
    using memory_get_entry [OF demo_memory_ok _ policy_key, of ns_system "system_policy ns_system"
        "[(ascii ''tool-policy'', \<lparr>me_sequence = 1, me_value = policy_record demo_gw_env demo_policy\<rparr>)]" SNone]
    by (simp add: demo_agent_memory_def)
  moreover have "policy_record demo_gw_env demo_policy \<noteq> SNone" by (simp add: policy_record_def)
  ultimately show ?thesis
    by (auto simp: gateway_init_def demo_gateway_def demo_agent_memory_def namespaces_def system_policy_def)
qed

text \<open>A first call that runs the handler.\<close>

definition demo_proposal :: proposal where
  "demo_proposal = \<lparr>pr_tool = ''t'', pr_operation = ''run'', pr_resource = [], pr_arguments = JObj [], pr_idempotency_key = ''k'',
     pr_generation = 3, pr_checkpoint_hash = ''c'', pr_policy_hash = [], pr_action_hash = []\<rparr>"

lemma demo_hashes: "policy_hash (\<lambda>_. []) p = []" "action_digest (\<lambda>_. []) q = []"
  by (simp_all add: policy_hash_def action_digest_def hexdigest_def)

lemma demo_names: "tool_name ''t''" "tool_name ''run''" "tool_name ''k''"
  by (simp_all add: tool_name_def name_char_def lower_code_def)

lemma demo_action_size: "length (encoded_action (demo_proposal\<lparr>pr_arguments := JObj []\<rparr>)) \<le> MAX_ACTION_BYTES"
  by (simp add: encoded_action_def proposal_payload_def demo_proposal_def MAX_ACTION_BYTES_def join_def json_string_def json_char_def
      char_code_def int_str_def nat_str.simps Let_def)

lemma demo_canonical: "canonical_arguments 0 (AMap []) MAX_ARGUMENT_ITEMS = Inr (JObj [], 2047)"
  by (subst canonical_arguments.simps) (simp add: MAX_ARGUMENT_ITEMS_def)

lemma demo_propose: "propose demo_gw_env demo_call demo_gateway = Inr demo_proposal"
  using demo_action_size demo_canonical
  by (simp add: propose_def demo_call_def demo_names demo_hashes demo_gw_env_def demo_gateway_def demo_proposal_def Let_def)

lemma demo_authorize: "authorize demo_gw_env t SNone demo_proposal demo_gateway =
    Inr (bound_decision Allow ''local capability rule matched'' demo_proposal)"
  using demo_action_size demo_canonical
  by (simp add: authorize_def validate_proposal_def demo_hashes demo_gw_env_def demo_gateway_def demo_proposal_def local_decision_def
      rule_for_def demo_policy_def)

abbreviation demo_decision :: decision where
  "demo_decision \<equiv> bound_decision Allow ''local capability rule matched'' demo_proposal"

abbreviation demo_intent_bucket :: bucket where
  "demo_intent_bucket \<equiv>
     [(ascii ''tool-policy'', \<lparr>me_sequence = 1, me_value = policy_record demo_gw_env demo_policy\<rparr>),
      (intent_key [], \<lparr>me_sequence = 2, me_value = SDict (intent_value demo_proposal demo_decision)\<rparr>)]"

lemmas demo_record_simps = policy_record_def policy_json_def rule_json_def demo_policy_def demo_hashes demo_gw_env_def
  intent_value_def proposal_value_def demo_proposal_def decision_value_def bound_decision_def verdict_text_def
  intent_key_def result_key_def result_value_def ns_system_def ns_results_def

lemma demo_intent_fits: "over_quota (system_policy ns_system) demo_intent_bucket = Inr False"
  by (simp add: over_quota_def system_policy_def estimate_value_size_def bucket_value_def entry_value_def demo_record_simps encode_simps)

lemma demo_keys: "memory_key (intent_key [])" "memory_key (result_key [])"
    "take (length APPEND_KEY_PREFIX) (intent_key []) \<noteq> APPEND_KEY_PREFIX"
    "take (length APPEND_KEY_PREFIX) (result_key []) \<noteq> APPEND_KEY_PREFIX"
  by (simp_all add: intent_key_def result_key_def memory_key_def ascii_def lower_code_def APPEND_KEY_PREFIX_def)

lemma demo_memory_capacity: "capacity_bytes (am_store demo_agent_memory) = Inr 9600"
  by (simp add: demo_agent_memory_def capacity_bytes_def roomy_store_def demo_store_def layout_region_def Let_def storage_region_def
      demo_store_layout_def region_capacity_bytes_def region_cells_def)

abbreviation demo_result_bucket :: bucket where
  "demo_result_bucket \<equiv>
     [(result_key [], \<lparr>me_sequence = 3, me_value = SDict (result_value demo_proposal demo_decision (SInt 0))\<rparr>)]"

text \<open>The memory once the intent is written, and once the result is.\<close>

definition demo_pending :: agent_memory where
  "demo_pending = demo_agent_memory\<lparr>am_dirty := True, am_next := 3, am_spaces := [(ns_system, demo_intent_bucket), (ns_results, [])]\<rparr>"

definition demo_done :: agent_memory where
  "demo_done = demo_pending\<lparr>am_next := 4, am_spaces := [(ns_system, demo_intent_bucket), (ns_results, demo_result_bucket)]\<rparr>"

lemmas demo_memory_simps = estimate_document_size_def session_values_def root_value_def policy_value_def bucket_value_def
  entry_value_def system_policy_def MEMORY_ROOT_KEY_def HEADER_SIZE_def demo_record_simps encode_simps

lemma demo_pending_size: "\<exists>n. estimate_document_size (session_values (demo_pending\<lparr>am_dirty := False\<rparr>)) = Inr n \<and> int n \<le> 9600"
  by (simp add: demo_pending_def demo_agent_memory_def demo_memory_simps)

lemma demo_done_size: "\<exists>n. estimate_document_size (session_values demo_done) = Inr n \<and> int n \<le> 9600"
  by (simp add: demo_done_def demo_pending_def demo_agent_memory_def demo_memory_simps)

lemma demo_result_fits: "over_quota (system_policy ns_results) demo_result_bucket = Inr False"
  by (simp add: over_quota_def estimate_value_size_def demo_memory_simps)

lemma demo_set_intent: "memory_set ns_system (intent_key []) (SDict (intent_value demo_proposal demo_decision)) demo_agent_memory =
    (Inr (), demo_pending)"
proof -
  have eq: "put_bucket ns_system demo_intent_bucket (demo_agent_memory\<lparr>am_next := am_next demo_agent_memory + 1\<rparr>) =
      demo_pending\<lparr>am_dirty := False\<rparr>"
    by (simp add: put_bucket_def demo_pending_def demo_agent_memory_def)
  have "demo_intent_bucket = dset (intent_key []) \<lparr>me_sequence = am_next demo_agent_memory, me_value = SDict (intent_value demo_proposal demo_decision)\<rparr>
      [(ascii ''tool-policy'', \<lparr>me_sequence = 1, me_value = policy_record demo_gw_env demo_policy\<rparr>)]"
    by (simp add: demo_agent_memory_def intent_key_def ascii_def)
  from memory_set_fits [OF _ _ _ demo_keys(1,3) this demo_intent_fits _ demo_memory_capacity, of ns_system] demo_pending_size eq
  show ?thesis by (simp add: demo_agent_memory_def demo_pending_def)
qed

lemma demo_set_result: "memory_set ns_results (result_key []) (SDict (result_value demo_proposal demo_decision (SInt 0))) demo_pending =
    (Inr (), demo_done)"
proof -
  have eq: "put_bucket ns_results demo_result_bucket (demo_pending\<lparr>am_next := am_next demo_pending + 1\<rparr>) = demo_done"
    by (simp add: put_bucket_def demo_done_def demo_pending_def demo_agent_memory_def)
  have "demo_result_bucket = dset (result_key [])
      \<lparr>me_sequence = am_next demo_pending, me_value = SDict (result_value demo_proposal demo_decision (SInt 0))\<rparr> []"
    by (simp add: demo_pending_def demo_agent_memory_def)
  from memory_set_fits [OF _ _ _ demo_keys(2,4) this demo_result_fits, of ns_results 9600] demo_done_size eq demo_memory_capacity
  show ?thesis by (simp add: demo_agent_memory_def demo_pending_def demo_done_def)
qed

lemma demo_safe: "safe_memory demo_agent_memory" "safe_memory demo_pending" "safe_memory demo_done"
proof -
  show a: "safe_memory demo_agent_memory"
    using demo_memory_ok by (simp add: safe_memory_def rejecting_def demo_agent_memory_def system_policy_def)
  show b: "safe_memory demo_pending"
    by (rule memory_set_journal(1) [OF a, of "(ns_system, intent_key [])", unfolded fst_conv snd_conv, OF _ demo_set_intent])
      (simp add: gateway_record_def)
  show "safe_memory demo_done"
    by (rule memory_set_journal(1) [OF b, of "(ns_results, result_key [])", unfolded fst_conv snd_conv, OF _ demo_set_result])
      (simp add: gateway_record_def)
qed

definition demo_after :: agent_memory where
  "demo_after = (put_bucket ns_system [(ascii ''tool-policy'', \<lparr>me_sequence = 1, me_value = policy_record demo_gw_env demo_policy\<rparr>)] demo_done)"

lemma demo_del_intent: "memory_delete ns_system (intent_key []) demo_done = (Inr True, demo_after)"
proof -
  have "checked_root demo_done = Inr ()" using demo_safe(3) checked_root_ok by (simp add: safe_memory_def)
  moreover have "intent_key [] \<noteq> ascii ''tool-policy''" by (simp add: intent_key_def ascii_def)
  ultimately show ?thesis
    by (simp add: memory_delete_def committed_def require_namespace_def validate_key_def demo_keys open_bucket_def ensure_open_def
        bucket_of_def demo_done_def demo_pending_def demo_agent_memory_def demo_after_def put_bucket_def)
qed

lemma demo_absent: "memory_get ns_results (result_key []) SNone demo_agent_memory = Inr SNone"
    "memory_get ns_system (intent_key []) SNone demo_agent_memory = Inr SNone"
proof -
  have "intent_key [] \<noteq> ascii ''tool-policy''" by (simp add: intent_key_def ascii_def)
  then show "memory_get ns_results (result_key []) SNone demo_agent_memory = Inr SNone"
    "memory_get ns_system (intent_key []) SNone demo_agent_memory = Inr SNone"
    using memory_get_entry [OF demo_memory_ok _ demo_keys(2), of ns_results "system_policy ns_results" "[]" SNone]
      memory_get_entry [OF demo_memory_ok _ demo_keys(1), of ns_system "system_policy ns_system"
        "[(ascii ''tool-policy'', \<lparr>me_sequence = 1, me_value = policy_record demo_gw_env demo_policy\<rparr>)]" SNone]
    by (simp_all add: demo_agent_memory_def)
qed

definition demo_called :: gateway where
  "demo_called = demo_gateway\<lparr>gw_memory := demo_after, gw_durable := demo_after, gw_commits := 2, gw_invoked := [demo_proposal]\<rparr>"

abbreviation demo_rule :: tool_rule where
  "demo_rule \<equiv> hd (tp_rules demo_policy)"

abbreviation demo_handler :: "nat \<Rightarrow> proposal \<Rightarrow> (string \<times> string) + sval" where
  "demo_handler \<equiv> \<lambda>n p. Inr (SInt (int n))"

lemma demo_gw_facts:
  "rule_for demo_policy ''t'' = Some demo_rule" "tr_barrier demo_rule" "get_tool ''t'' (ge_handlers demo_gw_env) = Inr demo_handler"
  "ge_commit demo_gw_env = (\<lambda>_ _. Inr ())" "pr_action_hash demo_proposal = []" "pr_tool demo_proposal = ''t''"
  "dc_verdict demo_decision = Allow"
  by (simp_all add: rule_for_def demo_policy_def get_tool_def demo_gw_env_def demo_proposal_def)

lemma demo_fields:
  "gw_policy demo_gateway = demo_policy" "gw_memory demo_gateway = demo_agent_memory" "gw_commits demo_gateway = 0"
  "gw_invoked demo_gateway = []"
  by (simp_all add: demo_gateway_def)

lemma demo_check: "gw_check demo_gw_env t SNone demo_call demo_gateway = Inr (demo_proposal, demo_decision, demo_rule, demo_handler)"
  by (simp add: gw_check_def demo_propose demo_authorize demo_absent demo_gw_facts demo_fields)

lemma demo_run: "run_action demo_gw_env demo_rule demo_handler demo_proposal demo_decision demo_gateway = (Inr (SInt 0), demo_called)"
  by (simp add: run_action_def and_then_def gw_set_def demo_set_intent barrier_if_def checkpoint_barrier_def Let_def record_result_def
      demo_set_result demo_del_intent demo_called_def demo_gw_facts demo_fields)

lemma demo_first_call: "gw_execute demo_gw_env t SNone demo_call demo_gateway = (Inr (SInt 0), demo_called)"
  by (simp add: gw_execute_def demo_check demo_run)

theorem completed_action_replayed_witness:
  "\<exists>d. authorize demo_gw_env 1 SNone demo_proposal demo_called = Inr d \<and> dc_verdict d = Allow \<and>
     gw_execute demo_gw_env 1 SNone demo_call demo_called = (Inr (SInt 0), demo_called)"
proof -
  have "propose demo_gw_env demo_call demo_called = Inr demo_proposal"
    using demo_propose same_machine(1) [of demo_called demo_gateway] by (simp add: demo_called_def)
  moreover have "safe_memory (gw_memory demo_gateway)" "ge_authorizer demo_gw_env = None"
    by (simp_all add: demo_gateway_def demo_safe demo_gw_env_def)
  ultimately show ?thesis
    using completed_action_replayed [OF _ demo_first_call, of 1 SNone] by auto
qed

lemma demo_invoked: "demo_proposal \<in> set (gw_invoked (foldl (gw_next demo_gw_env) demo_gateway [Call 0 SNone demo_call]))"
  by (simp add: gw_next_def demo_first_call) (simp add: demo_called_def)

theorem only_granted_actions_run_witness:
  "\<exists>r. rule_for demo_policy ''t'' = Some r \<and> ''run'' \<in> set (tr_operations r)"
  using only_granted_actions_run [OF demo_gateway_init demo_invoked] by (auto simp: demo_proposal_def demo_policy_def)

lemma demo_after_safe: "safe_memory demo_after"
  using memory_delete_journal(1) [of demo_done "(ns_system, intent_key [])"] demo_del_intent demo_safe(3) by simp

lemma demo_after_fields:
  "am_policies demo_after = am_policies demo_agent_memory" "am_store demo_after = am_store demo_agent_memory" "\<not> am_closed demo_after"
  "am_next demo_after = 4" "am_spaces demo_after =
     [(ns_system, [(ascii ''tool-policy'', \<lparr>me_sequence = 1, me_value = policy_record demo_gw_env demo_policy\<rparr>)]), (ns_results, demo_result_bucket)]"
  by (simp_all add: demo_after_def demo_done_def demo_pending_def demo_agent_memory_def put_bucket_def)

text \<open>After the call the memory is used for something else, the process restarts, and the call is repeated.\<close>

theorem actions_run_at_most_once_witness:
  "distinct (map pr_action_hash (gw_invoked (foldl (gw_next demo_gw_env) demo_gateway
     [Call 0 SNone demo_call, Other (demo_after\<lparr>am_next := 9\<rparr>), Checkpoint, Crash, Call 1 SNone demo_call])))"
proof (rule actions_run_at_most_once [OF demo_gateway_init demo_memory_ok])
  have "root_ok (demo_after\<lparr>am_next := 9\<rparr>)"
    using demo_after_safe by (auto simp: safe_memory_def root_ok_def demo_after_fields spaces_ok_def bucket_ok_def)
  then show "undisturbed_run demo_gw_env demo_gateway
     [Call 0 SNone demo_call, Other (demo_after\<lparr>am_next := 9\<rparr>), Checkpoint, Crash, Call 1 SNone demo_call]"
    by (simp add: gw_next_def demo_first_call undisturbed_def) (simp add: demo_called_def)
qed (simp add: demo_policy_def)

section \<open>What at most once rests on\<close>

text \<open>
  The two assumptions of \<open>actions_run_at_most_once\<close> that the code does not enforce. The memory manager lets
  any caller clear or delete in the namespaces of the gateway, and \<open>execute\<close> holds no lock between its
  look at the records and the intent it writes. In both situations the same action is handed to its handler twice.
\<close>

abbreviation demo_again_bucket :: bucket where
  "demo_again_bucket \<equiv>
     [(ascii ''tool-policy'', \<lparr>me_sequence = 1, me_value = policy_record demo_gw_env demo_policy\<rparr>),
      (intent_key [], \<lparr>me_sequence = 4, me_value = SDict (intent_value demo_proposal demo_decision)\<rparr>)]"

lemma demo_again_fits: "over_quota (system_policy ns_system) demo_again_bucket = Inr False"
  by (simp add: over_quota_def system_policy_def estimate_value_size_def bucket_value_def entry_value_def demo_record_simps encode_simps)

definition demo_cleared :: agent_memory where
  "demo_cleared = demo_after\<lparr>am_spaces := dset ns_results [] (am_spaces demo_after), am_dirty := True\<rparr>"

lemma demo_clear: "mem_step demo_after (OClear ns_results) = demo_cleared"
  by (simp add: memory_clear_def committed_def require_namespace_def ensure_open_def bucket_of_def demo_after_fields
      demo_agent_memory_def demo_cleared_def put_bucket_def)

lemma demo_again_size:
  assumes "m = demo_after \<or> m = demo_cleared"
  shows "\<exists>n. estimate_document_size (session_values (put_bucket ns_system demo_again_bucket (m\<lparr>am_next := am_next m + 1\<rparr>))) = Inr n \<and>
    int n \<le> 9600"
  using assms
proof
  assume "m = demo_after"
  then show ?thesis
    by (simp add: demo_after_def demo_done_def demo_pending_def demo_agent_memory_def put_bucket_def demo_memory_simps)
next
  assume "m = demo_cleared"
  then show ?thesis
    by (simp add: demo_cleared_def demo_after_def demo_done_def demo_pending_def demo_agent_memory_def put_bucket_def demo_memory_simps)
qed

lemma demo_set_again:
  assumes "m = demo_after \<or> m = demo_cleared"
  shows "\<exists>m'. memory_set ns_system (intent_key []) (SDict (intent_value demo_proposal demo_decision)) m = (Inr (), m')"
proof -
  have m: "am_next m = 4" "\<not> am_closed m" "dget (am_policies m) ns_system = Some (system_policy ns_system)"
    "dget (am_spaces m) ns_system = Some [(ascii ''tool-policy'', \<lparr>me_sequence = 1, me_value = policy_record demo_gw_env demo_policy\<rparr>)]"
    "capacity_bytes (am_store m) = Inr 9600"
    using assms demo_memory_capacity by (auto simp: demo_cleared_def demo_after_fields demo_agent_memory_def)
  have "demo_again_bucket = dset (intent_key []) \<lparr>me_sequence = am_next m, me_value = SDict (intent_value demo_proposal demo_decision)\<rparr>
      [(ascii ''tool-policy'', \<lparr>me_sequence = 1, me_value = policy_record demo_gw_env demo_policy\<rparr>)]"
    by (simp add: m(1) intent_key_def)
  from memory_set_fits [OF m(3,4,2) demo_keys(1,3) this demo_again_fits demo_again_size [OF assms] m(5)]
  show ?thesis by blast
qed

lemma demo_run_again:
  assumes "gw_memory gw = demo_after \<or> gw_memory gw = demo_cleared"
  shows "gw_invoked (snd (run_action demo_gw_env demo_rule demo_handler demo_proposal demo_decision gw)) = gw_invoked gw @ [demo_proposal]"
proof -
  obtain m' where m': "memory_set ns_system (intent_key []) (SDict (intent_value demo_proposal demo_decision)) (gw_memory gw) = (Inr (), m')"
    using demo_set_again [OF assms] by blast
  let ?gw3 = "gw\<lparr>gw_memory := m', gw_commits := Suc (gw_commits gw), gw_durable := m', gw_invoked := gw_invoked gw @ [demo_proposal]\<rparr>"
  have "run_action demo_gw_env demo_rule demo_handler demo_proposal demo_decision gw =
      record_result demo_gw_env demo_rule demo_proposal demo_decision (SInt (int (length (gw_invoked gw)))) ?gw3"
    by (simp add: run_action_def and_then_def gw_set_def m' barrier_if_def checkpoint_barrier_def Let_def demo_gw_facts)
  then show ?thesis using record_result_frame [of ?gw3] by (simp add: gw_frame_def)
qed

lemma cleared_records_run_twice:
  "gw_invoked (foldl (gw_next demo_gw_env) demo_gateway
     [Call 0 SNone demo_call, Other (mem_step demo_after (OClear ns_results)), Call 1 SNone demo_call]) = [demo_proposal, demo_proposal]"
proof -
  let ?gw = "demo_called\<lparr>gw_memory := demo_cleared\<rparr>"
  have root: "root_ok demo_cleared"
    using root_ok_shrink [of demo_after ns_results demo_result_bucket "[]"] demo_after_safe
    by (simp add: safe_memory_def demo_after_fields demo_cleared_def put_bucket_def dict_ok_def)
  have "memory_get ns_results (result_key []) SNone demo_cleared = Inr SNone"
    using memory_get_entry [OF root _ demo_keys(2), of ns_results "system_policy ns_results" "[]" SNone]
    by (simp add: demo_cleared_def demo_after_fields demo_agent_memory_def)
  moreover have "memory_get ns_system (intent_key []) SNone demo_cleared = Inr SNone"
    using memory_get_entry [OF root _ demo_keys(1), of ns_system "system_policy ns_system"
        "[(ascii ''tool-policy'', \<lparr>me_sequence = 1, me_value = policy_record demo_gw_env demo_policy\<rparr>)]" SNone]
    by (simp add: demo_cleared_def demo_after_fields demo_agent_memory_def intent_key_def)
  moreover have "propose demo_gw_env demo_call ?gw = Inr demo_proposal"
      "authorize demo_gw_env 1 SNone demo_proposal ?gw = Inr demo_decision"
    using demo_propose demo_authorize same_machine [of ?gw demo_gateway] by (simp_all add: demo_called_def)
  ultimately have "gw_check demo_gw_env 1 SNone demo_call ?gw = Inr (demo_proposal, demo_decision, demo_rule, demo_handler)"
    by (simp add: gw_check_def demo_gw_facts) (simp add: demo_called_def demo_fields demo_gw_facts)
  then have "gw_invoked (snd (gw_execute demo_gw_env 1 SNone demo_call ?gw)) = gw_invoked demo_called @ [demo_proposal]"
    using demo_run_again [of ?gw] by (simp add: gw_execute_def)
  then show ?thesis
    unfolding demo_clear by (simp add: gw_next_def demo_first_call) (simp add: demo_called_def)
qed

text \<open>Two threads call \<open>execute\<close>: both find no record, and then both go on to the handler.\<close>

lemma overlapping_calls_run_twice:
  "\<exists>p d rule handler. gw_check demo_gw_env 0 SNone demo_call demo_gateway = Inr (p, d, rule, handler) \<and>
     gw_invoked (snd (run_action demo_gw_env rule handler p d (snd (run_action demo_gw_env rule handler p d demo_gateway)))) = [p, p]"
proof -
  have "gw_invoked (snd (run_action demo_gw_env demo_rule demo_handler demo_proposal demo_decision demo_called)) = [demo_proposal, demo_proposal]"
    using demo_run_again [of demo_called] by (simp add: demo_called_def)
  then show ?thesis using demo_check demo_run by fastforce
qed

end
