(* ===== verification/Checkpoint.thy ===== *)
theory Checkpoint
  imports Spatial_Store Agent_Memory
begin

text \<open>
  Checkpoints of a resident agent, from \<^verbatim>\<open>zdx_checkpoint.py\<close>: the hash of the machine state inside a memory
  document, and \<open>SpatialCheckpointManager\<close>, whose single worker thread writes the latest submitted
  snapshot to the spatial store.

  \<^item> \<^verbatim>\<open>ckpt\<close> is the manager's object state; \<open>ck_writing\<close> is the local variable \<open>request\<close> of the worker thread
    and \<open>ck_stopped\<close> says that the thread has returned. The store and the manifest file are fields.
  \<^item> Every block the code runs under its condition variable is one function; a thread blocked in
    \<open>wait_for\<close> is a member of \<open>cs_slot\<close> (inside \<open>submit\<close>, waiting for the pending slot) or \<open>cs_barrier\<close>
    (inside \<open>wait_for_request\<close>) of \<^verbatim>\<open>ckpt_system\<close>. \<^verbatim>\<open>ckpt_step\<close> interleaves any number of callers
    with the worker; \<open>cs_log\<close> lists the requests that were committed, which no code reads.
  \<^item> \<open>int\<close> of text is modelled for code points below 256.

  The lemmas show that barriers are never skipped, that serialised callers (the session submits under
  its lock) get what a barrier promises, and what goes wrong without that lock.
\<close>

section \<open>The hash of a snapshot\<close>

text \<open>\<open>json.dumps\<close> of text, on code points: the escapes of \<^const>\<open>json_char\<close> below 256, one or two \<open>\u\<close> escapes above.\<close>

definition hex4 :: "nat \<Rightarrow> string" where
  "hex4 n = [hex_digit (n div 4096 mod 16), hex_digit (n div 256 mod 16), hex_digit (n div 16 mod 16), hex_digit (n mod 16)]"

definition json_code :: "nat \<Rightarrow> string" where
  "json_code n =
     (if n < 256 then json_char (char_of n)
      else if n < 65536 then [CHR 0x5C, CHR ''u''] @ hex4 n
      else [CHR 0x5C, CHR ''u''] @ hex4 (55296 + (n - 65536) div 1024) @ [CHR 0x5C, CHR ''u''] @ hex4 (56320 + (n - 65536) mod 1024))"

definition json_utext :: "ustr \<Rightarrow> string" where
  "json_utext s = [CHR 0x22] @ concat (map json_code s) @ [CHR 0x22]"

definition json_members :: "(ustr \<times> string) list \<Rightarrow> string" where
  "json_members kvs = ''{'' @ join '','' (map (\<lambda>p. json_utext (fst p) @ '':'' @ snd p) kvs) @ ''}''"

text \<open>\<open>int(x)\<close> of a double, rounded towards zero.\<close>

definition float_int :: "64 word \<Rightarrow> int result" where
  "float_int w =
     (let e = unat (drop_bit 52 w AND 0x7FF); m = unat (w AND 0xFFFFFFFFFFFFF);
          k = (if e = 0 then 0 else if e \<ge> 1075 then (m + 2 ^ 52) * 2 ^ (e - 1075) else (m + 2 ^ 52) div 2 ^ (1075 - e))
      in if e = 2047 then Inl (if m = 0 then OverflowError ''cannot convert float infinity to integer''
                               else ValueError ''cannot convert float NaN to integer'')
         else Inr (if bit w 63 then - int k else int k))"

definition text_int :: "string \<Rightarrow> int result" where
  "text_int s = (case py_int s of None \<Rightarrow> Inl (ValueError ''invalid literal for int()'') | Some i \<Rightarrow> Inr i)"

fun value_int :: "sval \<Rightarrow> int result" where
  "value_int (SInt i) = Inr i"
| "value_int (SBool b) = Inr (if b then 1 else 0)"
| "value_int (SFloat w) = float_int w"
| "value_int (SStr s) = text_int (map char_of s)"
| "value_int (SBytes b) = text_int (map (char_of \<circ> unat) b)"
| "value_int _ = Inl (TypeError ''int() argument must be a string, a bytes-like object or a real number'')"

fun int_members :: "(ustr \<times> sval) list \<Rightarrow> (ustr \<times> string) list result" where
  "int_members [] = Inr []"
| "int_members ((k, v) # kvs) = rbind (value_int v) (\<lambda>i. rbind (int_members kvs) (\<lambda>ms. Inr ((k, int_str i) # ms)))"

fun register_members :: "(ustr \<times> sval) list \<Rightarrow> (ustr \<times> string) list result" where
  "register_members [] = Inr []"
| "register_members ((k, SDict d) # kvs) =
     rbind (int_members (sort_key fst d)) (\<lambda>ms. rbind (register_members kvs) (\<lambda>rs. Inr ((k, json_members ms) # rs)))"
| "register_members (_ # kvs) = Inl (AttributeError ''items'')"

text \<open>\<open>compute_vm_checkpoint_hash\<close> on the values of a document\<close>

definition document_hash ::
    "(bytes \<Rightarrow> bytes) \<Rightarrow> sval \<Rightarrow> sval \<Rightarrow> (ustr \<times> sval) list \<Rightarrow> (ustr \<times> sval) list \<Rightarrow> string result" where
  "document_hash sha generation clk regs sh =
     (case generation of
        SInt g \<Rightarrow>
          if g < 0 then Inl (ValueError ''generation must be a non-negative integer'')
          else
            rbind (value_int clk) (\<lambda>c.
            rbind (register_members (sort_key fst regs)) (\<lambda>rs.
            rbind (int_members (sort_key fst sh)) (\<lambda>ss.
              Inr (hexdigest (sha (CHECKPOINT_HASH_DOMAIN @ encode_ascii (json_members
                [(ascii ''clock'', int_str c), (ascii ''generation'', int_str g),
                 (ascii ''registers'', json_members rs), (ascii ''shared'', json_members ss)])))))))
      | _ \<Rightarrow> Inl (ValueError ''generation must be a non-negative integer''))"

definition checkpoint_hash_from_memory :: "(bytes \<Rightarrow> bytes) \<Rightarrow> mem_values \<Rightarrow> string result" where
  "checkpoint_hash_from_memory sha vs =
     (case (sget vs ''vm_checkpoint'', sget vs ''register_state'', sget vs ''shared_state'') of
        (SDict marker, SDict regs, SDict sh) \<Rightarrow>
          document_hash sha (sget marker ''generation'')
            (case dget marker (ascii ''clock'') of None \<Rightarrow> SInt 0 | Some v \<Rightarrow> v) regs sh
      | _ \<Rightarrow> Inl (ValueError ''checkpoint snapshot is missing VM marker/state''))"

section \<open>The manager\<close>

record request =
  rq_id :: nat
  rq_frame :: frame
  rq_values :: mem_values
  rq_generation :: int
  rq_hash :: string
  rq_barrier :: bool

record ckpt_manifest =
  mf_request :: nat
  mf_generation :: int
  mf_hash :: string
  mf_artifact :: string

record ckpt =
  ck_store :: store
  ck_interval :: int
  ck_pending :: "request option"
  ck_writing :: "request option"
  ck_stopped :: bool
  ck_closed :: bool
  ck_generation :: int
  ck_hash :: string
  ck_next :: nat
  ck_submitted :: nat
  ck_committed :: nat
  ck_error :: "py_error option"
  ck_artifact :: "string option"
  ck_manifest :: "ckpt_manifest option"

definition ckpt_init :: "store \<Rightarrow> int \<Rightarrow> string option \<Rightarrow> ckpt_manifest option \<Rightarrow> ckpt result" where
  "ckpt_init st interval artifact manifest =
     (if interval < 1 then Inl (ValueError ''checkpoint interval must be a positive integer'')
      else Inr \<lparr>ck_store = st, ck_interval = interval, ck_pending = None, ck_writing = None, ck_stopped = False,
        ck_closed = False, ck_generation = 0, ck_hash = [], ck_next = 1, ck_submitted = 0, ck_committed = 0,
        ck_error = None, ck_artifact = artifact, ck_manifest = manifest\<rparr>)"

definition due :: "int \<Rightarrow> ckpt \<Rightarrow> bool" where
  "due generation m \<longleftrightarrow> generation > 0 \<and> generation mod ck_interval m = 0"

definition worker_failed :: py_error where "worker_failed = RuntimeError ''checkpoint worker failed''"
definition manager_closed :: py_error where "manager_closed = RuntimeError ''checkpoint manager is closed''"

text \<open>\<open>self._pending = request; self._last_submitted_request_id = request_id\<close>\<close>

definition place :: "request \<Rightarrow> ckpt \<Rightarrow> ckpt" where
  "place r m = m\<lparr>ck_pending := Some r, ck_submitted := rq_id r\<rparr>"

text \<open>\<open>submit\<close> up to the point where it has placed its request (\<open>True\<close>) or blocks for the slot (\<open>False\<close>).\<close>

definition submit_start ::
    "png_env \<Rightarrow> frame \<Rightarrow> mem_values \<Rightarrow> int \<Rightarrow> string \<Rightarrow> bool \<Rightarrow> ckpt \<Rightarrow> (request \<times> bool) result \<times> ckpt" where
  "submit_start env f vs generation chash barrier m =
     (case checkpoint_hash_from_memory (e_sha env) vs of
        Inl e \<Rightarrow> (Inl e, m)
      | Inr actual \<Rightarrow>
          if actual \<noteq> chash then (Inl (ValueError ''VM checkpoint hash does not match frozen snapshot state''), m)
          else if ck_closed m then (Inl manager_closed, m)
          else if ck_error m \<noteq> None then (Inl worker_failed, m)
          else if generation < ck_generation m
            then (Inl (ValueError ''checkpoint generation cannot precede committed generation''), m)
          else
            (let r = \<lparr>rq_id = ck_next m, rq_frame = f, rq_values = vs, rq_generation = generation, rq_hash = chash,
                      rq_barrier = barrier\<rparr>;
                 m1 = m\<lparr>ck_next := Suc (ck_next m)\<rparr>
             in case ck_pending m of
                  None \<Rightarrow> (Inr (r, True), place r m1)
                | Some p \<Rightarrow>
                    if rq_barrier p then (Inr (r, False), m1)
                    else if barrier then (Inr (r, True), place r m1)
                    else if generation < rq_generation p
                      then (Inl (ValueError ''checkpoint generation cannot move backward''), m1)
                    else (Inr (r, True), place r m1)))"

text \<open>The end of the wait for the slot inside \<open>submit\<close>; \<open>None\<close> while it goes on.\<close>

definition submit_resume :: "request \<Rightarrow> ckpt \<Rightarrow> (unit result \<times> ckpt) option" where
  "submit_resume r m =
     (if ck_pending m = None \<or> ck_error m \<noteq> None \<or> ck_closed m then
        Some (if ck_error m \<noteq> None then (Inl worker_failed, m)
              else if ck_closed m then (Inl manager_closed, m)
              else (Inr (), place r m))
      else None)"

text \<open>\<open>timed_out\<close> says that the timeout of the wait has passed.\<close>

definition wait_outcome :: "bool \<Rightarrow> bool \<Rightarrow> ckpt \<Rightarrow> bool result option" where
  "wait_outcome reached timed_out m =
     (if reached \<or> ck_error m \<noteq> None \<or> timed_out
      then Some (if ck_error m \<noteq> None then Inl worker_failed else Inr reached) else None)"

definition wait_for_request :: "nat \<Rightarrow> bool \<Rightarrow> ckpt \<Rightarrow> bool result option" where
  "wait_for_request i timed_out m = wait_outcome (ck_committed m \<ge> i) timed_out m"

definition wait_for_generation :: "int \<Rightarrow> bool \<Rightarrow> ckpt \<Rightarrow> bool result option" where
  "wait_for_generation generation timed_out m = wait_outcome (ck_generation m \<ge> generation) timed_out m"

text \<open>\<open>target\<close> is the last submitted request when \<open>flush\<close> was entered.\<close>

definition ckpt_flush :: "nat \<Rightarrow> bool \<Rightarrow> ckpt \<Rightarrow> bool result option" where
  "ckpt_flush target timed_out m = (if target = 0 then Some (Inr True) else wait_for_request target timed_out m)"

text \<open>\<open>close\<close> after its flush, and the outcome of joining the worker.\<close>

definition ckpt_close :: "ckpt \<Rightarrow> ckpt" where
  "ckpt_close m = m\<lparr>ck_closed := True\<rparr>"

definition close_outcome :: "bool \<Rightarrow> ckpt \<Rightarrow> unit result option" where
  "close_outcome timed_out m =
     (if ck_stopped m then Some (if ck_error m \<noteq> None then Inl worker_failed else Inr ())
      else if timed_out then Some (Inl (TimeoutError ''checkpoint worker did not stop'')) else None)"

text \<open>The worker: taking the pending request or returning, and writing the request it took.\<close>

definition worker_take :: "ckpt \<Rightarrow> ckpt option" where
  "worker_take m =
     (if ck_stopped m \<or> ck_writing m \<noteq> None then None
      else case ck_pending m of
        Some r \<Rightarrow> Some (m\<lparr>ck_writing := Some r, ck_pending := None\<rparr>)
      | None \<Rightarrow> if ck_closed m then Some (m\<lparr>ck_stopped := True\<rparr>) else None)"

text \<open>\<open>saved\<close> is the outcome of writing the manifest file.\<close>

definition worker_write :: "png_env \<Rightarrow> request \<Rightarrow> unit result \<Rightarrow> ckpt \<Rightarrow> commit_receipt result \<times> ckpt" where
  "worker_write env r saved m =
     (case rbind (checkpoint_hash_from_memory (e_sha env) (rq_values r)) (\<lambda>actual.
             raise_if (actual \<noteq> rq_hash r) (ValueError ''checkpoint worker hash verification failed'')) of
        Inl e \<Rightarrow> (Inl e, m)
      | Inr _ \<Rightarrow>
          (case commit_snapshot env (rq_frame r) (rq_values r) (nat (rq_generation r)) (rq_hash r) (ck_artifact m) (ck_store m) of
             (Inl e, st) \<Rightarrow> (Inl e, m\<lparr>ck_store := st\<rparr>)
           | (Inr receipt, st) \<Rightarrow>
               (case saved of
                  Inl e \<Rightarrow> (Inl e, m\<lparr>ck_store := st\<rparr>)
                | Inr _ \<Rightarrow> (Inr receipt, m\<lparr>ck_store := st, ck_manifest := Some \<lparr>mf_request = rq_id r,
                    mf_generation = rq_generation r, mf_hash = rq_hash r, mf_artifact = cr_artifact_sha256 receipt\<rparr>\<rparr>))))"

definition worker_commit :: "png_env \<Rightarrow> unit result \<Rightarrow> ckpt \<Rightarrow> ckpt option" where
  "worker_commit env saved m =
     (case ck_writing m of
        None \<Rightarrow> None
      | Some r \<Rightarrow>
          Some (case worker_write env r saved m of
            (Inl e, m') \<Rightarrow> m'\<lparr>ck_writing := None, ck_error := Some e, ck_stopped := True\<rparr>
          | (Inr receipt, m') \<Rightarrow> m'\<lparr>ck_writing := None, ck_generation := rq_generation r, ck_hash := rq_hash r,
              ck_committed := rq_id r, ck_artifact := Some (cr_artifact_sha256 receipt)\<rparr>))"

section \<open>Callers and the worker\<close>

record ckpt_system =
  cs_manager :: ckpt
  cs_slot :: "request list"
  cs_barrier :: "request list"
  cs_log :: "request list"

datatype ckpt_event =
    Submit frame mem_values int string bool
  | Resume request
  | Return request "bool result"
  | Take
  | Commit "unit result"
  | Close

text \<open>A caller whose request was placed goes on to wait for it when it asked for a barrier.\<close>

definition enter_barrier :: "request \<Rightarrow> ckpt_system \<Rightarrow> ckpt_system" where
  "enter_barrier r s = (if rq_barrier r then s\<lparr>cs_barrier := cs_barrier s @ [r]\<rparr> else s)"

definition on_manager :: "ckpt \<Rightarrow> ckpt_system \<Rightarrow> ckpt_system" where
  "on_manager m s = s\<lparr>cs_manager := m\<rparr>"

inductive ckpt_step :: "png_env \<Rightarrow> ckpt_system \<Rightarrow> ckpt_event \<Rightarrow> ckpt_system \<Rightarrow> bool" for env where
  submit_rejected: "submit_start env f vs g h b (cs_manager s) = (Inl e, m) \<Longrightarrow>
    ckpt_step env s (Submit f vs g h b) (on_manager m s)"
| submit_placed: "submit_start env f vs g h b (cs_manager s) = (Inr (r, True), m) \<Longrightarrow>
    ckpt_step env s (Submit f vs g h b) (enter_barrier r (on_manager m s))"
| submit_blocked: "submit_start env f vs g h b (cs_manager s) = (Inr (r, False), m) \<Longrightarrow>
    ckpt_step env s (Submit f vs g h b) ((on_manager m s)\<lparr>cs_slot := cs_slot s @ [r]\<rparr>)"
| resume_raises: "r \<in> set (cs_slot s) \<Longrightarrow> submit_resume r (cs_manager s) = Some (Inl e, m) \<Longrightarrow>
    ckpt_step env s (Resume r) ((on_manager m s)\<lparr>cs_slot := remove1 r (cs_slot s)\<rparr>)"
| resume_places: "r \<in> set (cs_slot s) \<Longrightarrow> submit_resume r (cs_manager s) = Some (Inr u, m) \<Longrightarrow>
    ckpt_step env s (Resume r) (enter_barrier r ((on_manager m s)\<lparr>cs_slot := remove1 r (cs_slot s)\<rparr>))"
| barrier_returns: "r \<in> set (cs_barrier s) \<Longrightarrow> wait_for_request (rq_id r) False (cs_manager s) = Some res \<Longrightarrow>
    ckpt_step env s (Return r res) (s\<lparr>cs_barrier := remove1 r (cs_barrier s)\<rparr>)"
| takes: "worker_take (cs_manager s) = Some m \<Longrightarrow> ckpt_step env s Take (on_manager m s)"
| commits: "worker_commit env saved (cs_manager s) = Some m \<Longrightarrow> ck_writing (cs_manager s) = Some r \<Longrightarrow>
    ckpt_step env s (Commit saved)
      ((on_manager m s)\<lparr>cs_log := (if ck_error m = None then cs_log s @ [r] else cs_log s)\<rparr>)"
| closes: "ckpt_step env s Close (on_manager (ckpt_close (cs_manager s)) s)"

inductive_cases ckpt_returnE: "ckpt_step env s (Return r res) s'"

text \<open>Histories; \<open>A\<close> says which events the callers allow themselves in a state.\<close>

inductive ckpt_reach ::
    "png_env \<Rightarrow> (ckpt_system \<Rightarrow> ckpt_event \<Rightarrow> bool) \<Rightarrow> ckpt_system \<Rightarrow> ckpt_system \<Rightarrow> bool" for env A where
  reach_refl: "ckpt_reach env A s s"
| reach_step: "ckpt_reach env A s t \<Longrightarrow> A t ev \<Longrightarrow> ckpt_step env t ev u \<Longrightarrow> ckpt_reach env A s u"

definition ckpt_start :: "ckpt \<Rightarrow> ckpt_system" where
  "ckpt_start m = \<lparr>cs_manager = m, cs_slot = [], cs_barrier = [], cs_log = []\<rparr>"

text \<open>Callers that submit under one lock, as \<open>SpatialAgentSession\<close> does: a call of \<open>submit\<close> begins only when no other
  is under way. What is submitted is a well-formed frame of the store's layout with a well-formed document.\<close>

definition well_submitted :: "layout \<Rightarrow> ckpt_event \<Rightarrow> bool" where
  "well_submitted L ev \<longleftrightarrow> (case ev of Submit f vs g h b \<Rightarrow> frame_ok f \<and> f_layout f = L \<and> sval_ok (SDict vs) | _ \<Rightarrow> True)"

definition serial :: "ckpt_system \<Rightarrow> ckpt_event \<Rightarrow> bool" where
  "serial s ev \<longleftrightarrow> well_submitted (sp_layout (ck_store (cs_manager s))) ev \<and>
     (case ev of Submit f vs g h b \<Rightarrow> cs_slot s = [] \<and> cs_barrier s = [] | _ \<Rightarrow> True)"

section \<open>The invariant of serialised callers\<close>

text \<open>The requests the system knows, oldest first: committed, being written, pending.\<close>

definition known :: "ckpt_system \<Rightarrow> request list" where
  "known s = cs_log s @ (case ck_writing (cs_manager s) of None \<Rightarrow> [] | Some r \<Rightarrow> [r]) @
     (case ck_pending (cs_manager s) of None \<Rightarrow> [] | Some r \<Rightarrow> [r])"

definition request_ok :: "layout \<Rightarrow> request \<Rightarrow> bool" where
  "request_ok L r \<longleftrightarrow> frame_ok (rq_frame r) \<and> f_layout (rq_frame r) = L \<and> sval_ok (SDict (rq_values r))"

definition last_id :: "request list \<Rightarrow> nat" where
  "last_id rs = (if rs = [] then 0 else rq_id (last rs))"

text \<open>What the file holds once something was committed.\<close>

definition on_disk :: "png_env \<Rightarrow> store \<Rightarrow> request \<Rightarrow> bool" where
  "on_disk env st r \<longleftrightarrow> (\<exists>g. holds env st (canon_values (rq_values r)) g)"

definition serial_inv :: "png_env \<Rightarrow> layout \<Rightarrow> ckpt_system \<Rightarrow> bool" where
  "serial_inv env L s \<longleftrightarrow> (let m = cs_manager s in
     sp_layout (ck_store m) = L \<and> cs_slot s = [] \<and>
     (ck_error m \<noteq> None \<longrightarrow> ck_stopped m) \<and> (ck_stopped m \<longrightarrow> ck_writing m = None) \<and>
     (ck_error m = None \<longrightarrow> (\<forall>r. ck_pending m = Some r \<longrightarrow> rq_barrier r \<longrightarrow> cs_barrier s = [r])) \<and>
     list_all (request_ok L) (known s) \<and>
     sorted_wrt (<) (map rq_id (known s)) \<and> 0 < ck_next m \<and> (\<forall>r \<in> set (known s). 0 < rq_id r \<and> rq_id r < ck_next m) \<and>
     ck_committed m = last_id (cs_log s) \<and>
     (ck_error m = None \<longrightarrow> cs_log s \<noteq> [] \<longrightarrow> on_disk env (ck_store m) (last (cs_log s))) \<and>
     (cs_barrier s = [] \<or> (\<exists>r. cs_barrier s = [r] \<and> Suc (rq_id r) = ck_next m \<and> (ck_error m \<noteq> None \<or> r \<in> set (known s)))))"

lemma commit_snapshot_cases:
  assumes "commit_snapshot env f vs vg h expected st = (res, st')"
  obtains (failed) e where "res = Inl e" "st' = st"
  | (written) receipt g f' where "res = Inr receipt" "write_frame env vs g st f = Inr f'"
      "st' = atomic_write_bytes True (to_png_bytes env f') st"
      "cr_artifact_sha256 receipt = hexdigest (e_sha env (to_png_bytes env f'))"
proof -
  define g where "g = (case rbind (open_frame env (sp_primary st) st) (decode_document env st) of Inl e \<Rightarrow> 0 | Inr (_, g) \<Rightarrow> g)"
  define guard where "guard = (case expected of
              None \<Rightarrow> Inr ()
            | Some h \<Rightarrow>
                (case sp_primary st of
                   None \<Rightarrow> Inl (FileNotFoundError ''spatial memory file'')
                 | Some raw \<Rightarrow> raise_if (hexdigest (e_sha env raw) \<noteq> h)
                     (RuntimeError ''spatial checkpoint parent artifact changed concurrently'')))"
  have c: "(case guard of Inl e \<Rightarrow> (Inl e, st)
      | Inr _ \<Rightarrow> (case write_frame env vs g st f of Inl e \<Rightarrow> (Inl e, st)
          | Inr f' \<Rightarrow> (Inr \<lparr>cr_vm_generation = vg, cr_vm_checkpoint_hash = h,
              cr_artifact_sha256 = hexdigest (e_sha env (to_png_bytes env f'))\<rparr>, atomic_write_bytes True (to_png_bytes env f') st))) =
      (res, st')"
    using assms unfolding commit_snapshot_def Let_def g_def guard_def .
  show ?thesis
  proof (cases guard)
    case (Inl e)
    then show ?thesis using c by (intro failed [of e]) simp_all
  next
    case guarded: (Inr u)
    show ?thesis
    proof (cases "write_frame env vs g st f")
      case (Inl e)
      then show ?thesis using c guarded by (intro failed [of e]) simp_all
    next
      case (Inr f')
      then show ?thesis using c guarded by (intro written [OF _ Inr]) auto
    qed
  qed
qed

lemma written_holds:
  assumes "sha_ok env" "png_lossless env (sp_layout st)" "sval_ok (SDict vs)" "frame_ok f" "f_layout f = sp_layout st"
    and "write_frame env vs g st f = Inr f'"
  shows "holds env (atomic_write_bytes True (to_png_bytes env f') st) (canon_values vs) (Suc g)"
proof -
  let ?st = "atomic_write_bytes True (to_png_bytes env f') st"
  note w = write_frame_spec [OF assms(1,3-6)]
  have st: "sp_layout ?st = sp_layout st" "sp_region ?st = sp_region st" "sp_primary ?st = Some (to_png_bytes env f')"
    by (simp_all add: atomic_write_bytes_def)
  have "open_frame env (sp_primary ?st) ?st = Inr (f'\<lparr>f_dirty := []\<rparr>)"
    unfolding open_decode_cong(1) [OF st(1)] st(3) by (rule open_written [OF assms(2) w(2,3)])
  moreover have "sval_ok (SDict (canon_values vs))" using sval_ok_canon [OF assms(3)] unfolding canon_dict .
  ultimately show ?thesis
    using w(1) frame_ok_clean [OF w(2)] by (auto simp: holds_def file_holds_def open_decode_cong(2) [OF st(1,2)])
qed

lemma atomic_write_layout [simp]: "sp_layout (atomic_write_bytes b p st) = sp_layout st"
  by (simp add: atomic_write_bytes_def)

text \<open>The worker either stops with an error, whatever the store then holds, or has the request on the disk.\<close>

lemma worker_commit_spec:
  assumes env: "sha_ok env" "png_lossless env (sp_layout (ck_store m))" and r: "request_ok (sp_layout (ck_store m)) r"
    and c: "worker_commit env saved m = Some m'" "ck_writing m = Some r"
  shows "ck_writing m' = None \<and> ck_pending m' = ck_pending m \<and> ck_next m' = ck_next m \<and> ck_closed m' = ck_closed m \<and>
    ck_submitted m' = ck_submitted m \<and> sp_layout (ck_store m') = sp_layout (ck_store m) \<and>
    ((\<exists>e. ck_error m' = Some e) \<and> ck_stopped m' \<and> ck_committed m' = ck_committed m \<and> ck_generation m' = ck_generation m \<or>
     ck_error m' = ck_error m \<and> ck_stopped m' = ck_stopped m \<and> ck_committed m' = rq_id r \<and>
       ck_generation m' = rq_generation r \<and> on_disk env (ck_store m') r)"
proof -
  obtain res st' where s: "commit_snapshot env (rq_frame r) (rq_values r) (nat (rq_generation r)) (rq_hash r) (ck_artifact m) (ck_store m) = (res, st')"
    by (meson surj_pair)
  have store: "sp_layout st' = sp_layout (ck_store m)" "\<And>x. res = Inr x \<Longrightarrow> on_disk env st' r"
    using written_holds [OF env, of "rq_values r" "rq_frame r"] r
    by (cases rule: commit_snapshot_cases [OF s]; auto simp: request_ok_def on_disk_def simp del: sval_ok.simps)+
  show ?thesis
    using c(1) unfolding worker_commit_def worker_write_def c(2) option.case s
    by (auto simp: store split: sum.splits)
qed

lemma submit_start_cases:
  assumes "submit_start env f vs g h b m = (res, m')"
  obtains (rejected) e where "res = Inl e" "m' = m \<or> m' = m\<lparr>ck_next := Suc (ck_next m)\<rparr>"
  | (blocked) r p where "res = Inr (r, False)" "m' = m\<lparr>ck_next := Suc (ck_next m)\<rparr>" "ck_pending m = Some p" "rq_barrier p"
      "ck_error m = None"
  | (placed) r where "res = Inr (r, True)" "m' = place r (m\<lparr>ck_next := Suc (ck_next m)\<rparr>)" "rq_id r = ck_next m" "rq_frame r = f"
      "rq_values r = vs" "rq_barrier r = b" "rq_generation r = g" "ck_error m = None" "ck_generation m \<le> g"
      "\<And>p. ck_pending m = Some p \<Longrightarrow> \<not> rq_barrier p"
proof (cases "checkpoint_hash_from_memory (e_sha env) vs")
  case (Inl e)
  then show ?thesis using assms rejected [of e] by (simp add: submit_start_def)
next
  case (Inr actual)
  let ?r = "\<lparr>rq_id = ck_next m, rq_frame = f, rq_values = vs, rq_generation = g, rq_hash = h, rq_barrier = b\<rparr>"
  show ?thesis
  proof (cases "actual \<noteq> h \<or> ck_closed m \<or> ck_error m \<noteq> None \<or> g < ck_generation m")
    case True
    then have "\<exists>e. res = Inl e \<and> m' = m" using assms Inr by (auto simp: submit_start_def split: if_splits)
    then show ?thesis using rejected by blast
  next
    case False
    note * = assms [unfolded submit_start_def Inr sum.case Let_def]
    show ?thesis
    proof (cases "ck_pending m")
      case None
      then show ?thesis using * False placed [of ?r] by auto
    next
      case (Some p)
      show ?thesis
      proof (cases "rq_barrier p")
        case True
        then show ?thesis using * False Some blocked [of ?r p] by auto
      next
        case nb: False
        show ?thesis
        proof (cases "\<not> b \<and> g < rq_generation p")
          case True
          then have "\<exists>e. res = Inl e \<and> m' = m\<lparr>ck_next := Suc (ck_next m)\<rparr>" using * False Some nb by auto
          then show ?thesis using rejected by blast
        next
          case okay: False
          have "res = Inr (?r, True)" "m' = place ?r (m\<lparr>ck_next := Suc (ck_next m)\<rparr>)"
            using * False Some nb okay by (auto split: if_splits)
          then show ?thesis using placed [of ?r] False Some nb by simp
        qed
      qed
    qed
  qed
qed

lemma serial_invI:
  assumes "sp_layout (ck_store (cs_manager s)) = L" "cs_slot s = []"
    and "ck_error (cs_manager s) \<noteq> None \<Longrightarrow> ck_stopped (cs_manager s)"
    and "ck_stopped (cs_manager s) \<Longrightarrow> ck_writing (cs_manager s) = None"
    and "\<And>r. ck_error (cs_manager s) = None \<Longrightarrow> ck_pending (cs_manager s) = Some r \<Longrightarrow> rq_barrier r \<Longrightarrow> cs_barrier s = [r]"
    and "list_all (request_ok L) (known s)" "sorted_wrt (<) (map rq_id (known s))"
    and "\<And>r. r \<in> set (known s) \<Longrightarrow> 0 < rq_id r \<and> rq_id r < ck_next (cs_manager s)" "0 < ck_next (cs_manager s)" "ck_committed (cs_manager s) = last_id (cs_log s)"
    and "ck_error (cs_manager s) = None \<Longrightarrow> cs_log s \<noteq> [] \<Longrightarrow> on_disk env (ck_store (cs_manager s)) (last (cs_log s))"
    and "cs_barrier s = [] \<or> (\<exists>r. cs_barrier s = [r] \<and> Suc (rq_id r) = ck_next (cs_manager s) \<and>
           (ck_error (cs_manager s) \<noteq> None \<or> r \<in> set (known s)))"
  shows "serial_inv env L s"
  using assms unfolding serial_inv_def Let_def by blast

lemma serial_invD:
  assumes "serial_inv env L s"
  shows "sp_layout (ck_store (cs_manager s)) = L" "cs_slot s = []"
    and "ck_error (cs_manager s) \<noteq> None \<Longrightarrow> ck_stopped (cs_manager s)"
    and "ck_stopped (cs_manager s) \<Longrightarrow> ck_writing (cs_manager s) = None"
    and "ck_error (cs_manager s) = None \<Longrightarrow> ck_pending (cs_manager s) = Some r \<Longrightarrow> rq_barrier r \<Longrightarrow> cs_barrier s = [r]"
    and "list_all (request_ok L) (known s)" "sorted_wrt (<) (map rq_id (known s))"
    and "r \<in> set (known s) \<Longrightarrow> 0 < rq_id r \<and> rq_id r < ck_next (cs_manager s)" "ck_committed (cs_manager s) = last_id (cs_log s)"
    and "ck_error (cs_manager s) = None \<Longrightarrow> cs_log s \<noteq> [] \<Longrightarrow> on_disk env (ck_store (cs_manager s)) (last (cs_log s))"
    and "cs_barrier s = [] \<or> (\<exists>r. cs_barrier s = [r] \<and> Suc (rq_id r) = ck_next (cs_manager s) \<and>
           (ck_error (cs_manager s) \<noteq> None \<or> r \<in> set (known s)))" "0 < ck_next (cs_manager s)"
  using assms unfolding serial_inv_def Let_def by blast+

lemma known_simps [simp]:
  "known (s\<lparr>cs_barrier := bs\<rparr>) = known s" "known (s\<lparr>cs_slot := ss\<rparr>) = known s"
  by (simp_all add: known_def)

lemma manager_simps [simp]:
  "cs_manager (on_manager m s) = m" "cs_slot (on_manager m s) = cs_slot s" "cs_barrier (on_manager m s) = cs_barrier s"
  "cs_log (on_manager m s) = cs_log s"
  by (simp_all add: on_manager_def)

lemma barrier_simps [simp]:
  "cs_manager (enter_barrier r s) = cs_manager s" "cs_slot (enter_barrier r s) = cs_slot s" "cs_log (enter_barrier r s) = cs_log s"
  "known (enter_barrier r s) = known s" "cs_barrier (enter_barrier r s) = (if rq_barrier r then cs_barrier s @ [r] else cs_barrier s)"
  by (simp_all add: enter_barrier_def)

text \<open>A new request takes the place of the pending one.\<close>

lemma known_place:
  "known (on_manager (place r (cs_manager s\<lparr>ck_next := n\<rparr>)) s) =
    cs_log s @ (case ck_writing (cs_manager s) of None \<Rightarrow> [] | Some r \<Rightarrow> [r]) @ [r]"
  by (simp add: known_def place_def)

lemma known_prefix: "known s = cs_log s @ (case ck_writing (cs_manager s) of None \<Rightarrow> [] | Some r \<Rightarrow> [r]) @
    (case ck_pending (cs_manager s) of None \<Rightarrow> [] | Some r \<Rightarrow> [r])"
  by (simp add: known_def)

lemma submit_keeps:
  assumes inv: "serial_inv env L s" and ok: "serial s (Submit f vs g h b)"
    and placed: "submit_start env f vs g h b (cs_manager s) = (Inr (r, True), m)"
  shows "serial_inv env L (enter_barrier r (on_manager m s))"
proof -
  note i = serial_invD [OF inv]
  have q: "cs_barrier s = []" "frame_ok f" "f_layout f = L" "sval_ok (SDict vs)"
    using ok i(1) by (simp_all add: serial_def well_submitted_def)
  from placed obtain m_def: "m = place r (cs_manager s\<lparr>ck_next := Suc (ck_next (cs_manager s))\<rparr>)"
    and r: "rq_id r = ck_next (cs_manager s)" "rq_frame r = f" "rq_values r = vs" "ck_error (cs_manager s) = None"
    by (cases rule: submit_start_cases) auto
  have m: "ck_next m = Suc (ck_next (cs_manager s))" "ck_pending m = Some r" "ck_writing m = ck_writing (cs_manager s)"
      "ck_store m = ck_store (cs_manager s)" "ck_error m = None" "ck_stopped m = ck_stopped (cs_manager s)"
      "ck_committed m = ck_committed (cs_manager s)"
    using r(4) by (simp_all add: m_def place_def)
  let ?ws = "cs_log s @ (case ck_writing (cs_manager s) of None \<Rightarrow> [] | Some r \<Rightarrow> [r])"
  have k: "known (on_manager m s) = ?ws @ [r]" by (simp add: m_def known_place)
  have ws: "set ?ws \<subseteq> set (known s)" "sorted_wrt (<) (map rq_id ?ws)" "list_all (request_ok L) ?ws"
    using i(6,7) by (auto simp: known_def sorted_wrt_append)
  have old: "0 < rq_id x \<and> rq_id x < ck_next (cs_manager s)" if "x \<in> set ?ws" for x using ws(1) i(8) that by blast
  show ?thesis
  proof (rule serial_invI)
    show "sorted_wrt (<) (map rq_id (known (enter_barrier r (on_manager m s))))"
      using ws(2) old r(1) by (auto simp: k sorted_wrt_append)
    show "0 < rq_id x \<and> rq_id x < ck_next (cs_manager (enter_barrier r (on_manager m s)))" if "x \<in> set (known (enter_barrier r (on_manager m s)))" for x
      using that old [of x] r(1) i(12) by (auto simp: k m)
    show "list_all (request_ok L) (known (enter_barrier r (on_manager m s)))"
      using ws(3) q r by (simp add: k request_ok_def del: sval_ok.simps)
    show "on_disk env (ck_store (cs_manager (enter_barrier r (on_manager m s)))) (last (cs_log (enter_barrier r (on_manager m s))))"
      if "cs_log (enter_barrier r (on_manager m s)) \<noteq> []"
      using that i(10) r(4) by (simp add: m)
    show "cs_barrier (enter_barrier r (on_manager m s)) = [] \<or> (\<exists>r'. cs_barrier (enter_barrier r (on_manager m s)) = [r'] \<and>
        Suc (rq_id r') = ck_next (cs_manager (enter_barrier r (on_manager m s))) \<and>
        (ck_error (cs_manager (enter_barrier r (on_manager m s))) \<noteq> None \<or> r' \<in> set (known (enter_barrier r (on_manager m s)))))"
      using q(1) r(1) by (simp add: k m)
  qed (use i(1,2,4,9) q(1) in \<open>simp_all add: m\<close>)
qed

lemma rejected_keeps:
  assumes inv: "serial_inv env L s" and "cs_barrier s = []" and m: "m = cs_manager s \<or> m = cs_manager s\<lparr>ck_next := Suc (ck_next (cs_manager s))\<rparr>"
  shows "serial_inv env L (on_manager m s)"
proof -
  note i = serial_invD [OF inv]
  have k: "known (on_manager m s) = known s" using m by (auto simp: known_def)
  have "ck_next (cs_manager s) \<le> ck_next m" using m by auto
  then have n: "0 < rq_id x \<and> rq_id x < ck_next m" if "x \<in> set (known s)" for x using i(8) [OF that] by simp
  show ?thesis
    by (rule serial_invI) (use i m n assms(2) in \<open>auto simp: k\<close>)
qed

lemma take_keeps:
  assumes inv: "serial_inv env L s" and t: "worker_take (cs_manager s) = Some m"
  shows "serial_inv env L (on_manager m s)"
proof -
  note i = serial_invD [OF inv]
  have k: "known (on_manager m s) = known s"
    using t by (auto simp: worker_take_def known_def split: if_splits option.splits)
  have m: "ck_store m = ck_store (cs_manager s)" "ck_error m = ck_error (cs_manager s)" "ck_next m = ck_next (cs_manager s)"
      "ck_committed m = ck_committed (cs_manager s)" "ck_error (cs_manager s) = None" "ck_stopped m \<longrightarrow> ck_writing m = None"
      "ck_pending m = None"
    using t i(3) by (cases "ck_error (cs_manager s)"; auto simp: worker_take_def split: if_splits option.splits)+
  show ?thesis
    by (rule serial_invI) (use i m in \<open>auto simp: k\<close>)
qed

lemma commit_keeps:
  assumes env: "sha_ok env" "png_lossless env L" and inv: "serial_inv env L s"
    and c: "worker_commit env saved (cs_manager s) = Some m" "ck_writing (cs_manager s) = Some r"
  shows "serial_inv env L ((on_manager m s)\<lparr>cs_log := (if ck_error m = None then cs_log s @ [r] else cs_log s)\<rparr>)" (is "serial_inv env L ?s")
proof -
  note i = serial_invD [OF inv]
  have "\<not> ck_stopped (cs_manager s)" using i(4) c(2) by auto
  then have none: "ck_error (cs_manager s) = None" "\<not> ck_stopped (cs_manager s)" using i(3) by blast+
  have "request_ok L r" using i(6) c(2) by (simp add: known_def)
  note w = worker_commit_spec [OF env(1) _ _ c, unfolded i(1), OF env(2) this]
  have k: "known ?s = (if ck_error m = None then known s else cs_log s @ (case ck_pending m of None \<Rightarrow> [] | Some p \<Rightarrow> [p]))"
    using w c(2) by (simp add: known_def)
  have sub: "set (known ?s) \<subseteq> set (known s)" using w c(2) by (auto simp: k known_def)
  have "sorted_wrt (<) (map rq_id (known ?s))" "list_all (request_ok L) (known ?s)"
    using i(6,7) w c(2) by (auto simp: k known_def sorted_wrt_append split: option.splits)
  moreover have "0 < rq_id x \<and> rq_id x < ck_next (cs_manager ?s)" if "x \<in> set (known ?s)" for x
    using sub i(8) that w by auto
  moreover have "cs_barrier ?s = [] \<or> (\<exists>r. cs_barrier ?s = [r] \<and> Suc (rq_id r) = ck_next (cs_manager ?s) \<and>
      (ck_error (cs_manager ?s) \<noteq> None \<or> r \<in> set (known ?s)))"
    using i(11) w none by (auto simp: k)
  moreover have "ck_committed m = last_id (cs_log ?s)" using w i(9) none by (auto simp: last_id_def)
  ultimately show ?thesis
    by (intro serial_invI) (use w i(1,2,5,10,12) none in \<open>auto\<close>)
qed

text \<open>When a barrier returns, its request was the last to be committed.\<close>

lemma barrier_committed:
  assumes inv: "serial_inv env L s" and r: "r \<in> set (cs_barrier s)" "wait_for_request (rq_id r) False (cs_manager s) = Some (Inr x)"
  shows "x \<and> cs_log s \<noteq> [] \<and> last (cs_log s) = r \<and> on_disk env (ck_store (cs_manager s)) r \<and> ck_pending (cs_manager s) = None"
proof -
  note i = serial_invD [OF inv]
  have e: "ck_error (cs_manager s) = None" "rq_id r \<le> ck_committed (cs_manager s)" "x"
    using r(2) by (auto simp: wait_for_request_def wait_outcome_def split: if_splits)
  have b: "cs_barrier s = [r]" "Suc (rq_id r) = ck_next (cs_manager s)" "r \<in> set (known s)" using i(11) r(1) e(1) by auto
  have log: "cs_log s \<noteq> []" "rq_id r \<le> rq_id (last (cs_log s))"
    using e(2) i(8) [OF b(3)] unfolding i(9) last_id_def by (auto split: if_splits)
  have "last (cs_log s) \<in> set (known s)" using log(1) by (simp add: known_def)
  then have last: "rq_id (last (cs_log s)) = rq_id r" using i(8) b(2) log(2) by (metis less_Suc_eq_le order_antisym)
  have eq: "q = last (cs_log s)" if "q \<in> set (known s)" "rq_id q = rq_id (last (cs_log s))" for q
    using that i(7) \<open>last (cs_log s) \<in> set (known s)\<close> strict_sorted_iff [of "map rq_id (known s)"] by (auto simp: distinct_map inj_on_def)
  have "ck_pending (cs_manager s) = None"
  proof (rule ccontr)
    assume "ck_pending (cs_manager s) \<noteq> None"
    then obtain p where p: "ck_pending (cs_manager s) = Some p" by blast
    then have "rq_id (last (cs_log s)) < rq_id p" using i(7) log(1) by (auto simp: known_def sorted_wrt_append)
    moreover have "rq_id p < ck_next (cs_manager s)" using i(8) [of p] p by (simp add: known_def)
    ultimately show False using last b(2) by simp
  qed
  then show ?thesis using e(3) log(1) eq [OF b(3)] last i(10) [OF e(1) log(1)] by metis
qed

lemma return_keeps:
  assumes inv: "serial_inv env L s" and r: "r \<in> set (cs_barrier s)" "wait_for_request (rq_id r) False (cs_manager s) = Some res"
  shows "serial_inv env L (s\<lparr>cs_barrier := remove1 r (cs_barrier s)\<rparr>)"
proof -
  note i = serial_invD [OF inv]
  have b: "remove1 r (cs_barrier s) = []" using i(11) r(1) by auto
  have "ck_pending (cs_manager s) = None" if "ck_error (cs_manager s) = None"
    using that barrier_committed [OF inv r(1)] r(2) by (auto simp: wait_for_request_def wait_outcome_def split: if_splits)
  then show ?thesis by (intro serial_invI) (use i in \<open>auto simp: b\<close>)
qed

lemma serial_step_inv:
  assumes env: "sha_ok env" "png_lossless env L" and inv: "serial_inv env L s" and ok: "serial s ev" and step: "ckpt_step env s ev s'"
  shows "serial_inv env L s'"
  using step
proof (cases rule: ckpt_step.cases)
  case (submit_rejected f vs g h b e m)
  then have "cs_barrier s = []" using ok by (simp add: serial_def)
  moreover have "m = cs_manager s \<or> m = cs_manager s\<lparr>ck_next := Suc (ck_next (cs_manager s))\<rparr>"
    using submit_rejected(3) by (cases rule: submit_start_cases) auto
  ultimately show ?thesis unfolding submit_rejected(2) by (rule rejected_keeps [OF inv])
next
  case (submit_placed f vs g h b r m)
  then show ?thesis using submit_keeps [OF inv, of f vs g h b r m] ok by simp
next
  case (submit_blocked f vs g h b r m)
  then have "cs_barrier s = []" using ok by (simp add: serial_def)
  moreover obtain p where "ck_pending (cs_manager s) = Some p" "rq_barrier p" "ck_error (cs_manager s) = None"
    using submit_blocked(3) by (cases rule: submit_start_cases) auto
  ultimately show ?thesis using serial_invD(5) [OF inv] by fastforce
next
  case (barrier_returns r res)
  then show ?thesis using return_keeps [OF inv] by simp
next
  case (takes m)
  then show ?thesis using take_keeps [OF inv] by simp
next
  case (commits saved m r)
  then show ?thesis using commit_keeps [OF env inv] by simp
next
  case closes
  let ?s = "on_manager (ckpt_close (cs_manager s)) s"
  have k: "known ?s = known s" by (simp add: known_def ckpt_close_def)
  have m: "ck_store (ckpt_close (cs_manager s)) = ck_store (cs_manager s)" "ck_error (ckpt_close (cs_manager s)) = ck_error (cs_manager s)"
    "ck_stopped (ckpt_close (cs_manager s)) = ck_stopped (cs_manager s)" "ck_writing (ckpt_close (cs_manager s)) = ck_writing (cs_manager s)"
    "ck_pending (ckpt_close (cs_manager s)) = ck_pending (cs_manager s)" "ck_next (ckpt_close (cs_manager s)) = ck_next (cs_manager s)"
    "ck_committed (ckpt_close (cs_manager s)) = ck_committed (cs_manager s)"
    by (simp_all add: ckpt_close_def)
  show ?thesis unfolding closes
    using inv unfolding serial_inv_def Let_def k manager_simps m .
qed (use serial_invD(2) [OF inv] in auto)

lemma serial_inv_start:
  assumes "ckpt_init st interval artifact manifest = Inr m"
  shows "serial_inv env (sp_layout st) (ckpt_start m)"
  using assms by (auto simp: ckpt_init_def serial_inv_def ckpt_start_def known_def last_id_def split: if_splits)

lemma serial_reach_inv:
  assumes env: "sha_ok env" "png_lossless env L" and "ckpt_reach env serial s s'" "serial_inv env L s"
  shows "serial_inv env L s'"
  using assms(3,4) by (induction rule: ckpt_reach.induct) (auto intro: serial_step_inv [OF env])

section \<open>Progress\<close>

text \<open>The artifact the manager expects is the file it last saw.\<close>

definition artifact_current :: "png_env \<Rightarrow> ckpt \<Rightarrow> bool" where
  "artifact_current env m \<longleftrightarrow> (case ck_artifact m of
     None \<Rightarrow> True
   | Some h \<Rightarrow> (\<exists>raw. sp_primary (ck_store m) = Some raw \<and> h = hexdigest (e_sha env raw)))"

lemma load_holds: "holds env st vs g \<Longrightarrow> \<exists>f h. load_resident_snapshot env st = (Inr (f, vs, g, h), st)"
proof -
  assume "holds env st vs g"
  then obtain f where f: "file_holds env st (sp_primary st) f vs g" by (auto simp: holds_def)
  then have "sp_primary st \<noteq> None" by (cases "sp_primary st") (auto simp: file_holds_def open_frame_def frame_open_def)
  then show ?thesis using read_frame_holds [OF f] by (auto simp: load_resident_snapshot_def)
qed

lemma commit_succeeds:
  assumes "sha_ok env" "frame_ok f" "f_layout f = sp_layout st" "holds env st vs0 g" "encode_document env vs (Suc g) st = Inr doc"
    and "case expected of None \<Rightarrow> True | Some h \<Rightarrow> (\<exists>raw. sp_primary st = Some raw \<and> h = hexdigest (e_sha env raw))"
  shows "\<exists>f'. write_frame env vs g st f = Inr f' \<and>
    commit_snapshot env f vs vg vh expected st =
      (Inr \<lparr>cr_vm_generation = vg, cr_vm_checkpoint_hash = vh, cr_artifact_sha256 = hexdigest (e_sha env (to_png_bytes env f'))\<rparr>,
       atomic_write_bytes True (to_png_bytes env f') st)"
proof -
  obtain f' where f': "write_frame env vs g st f = Inr f'" using write_frame_fits [OF assms(2,3,5,1)] by blast
  have "(case rbind (open_frame env (sp_primary st) st) (decode_document env st) of Inl e \<Rightarrow> 0 | Inr (_, g) \<Rightarrow> g) = g"
    using assms(4) by (auto simp: holds_def file_holds_def)
  with f' assms(6) show ?thesis
    by (cases expected) (auto simp: commit_snapshot_def Let_def raise_if_def)
qed

text \<open>A request that verifies and fits is committed by the worker's next write.\<close>

lemma worker_commits:
  assumes env: "sha_ok env" "png_lossless env (sp_layout (ck_store m))" and r: "request_ok (sp_layout (ck_store m)) r"
    and w: "ck_writing m = Some r" "checkpoint_hash_from_memory (e_sha env) (rq_values r) = Inr (rq_hash r)"
    and h: "holds env (ck_store m) vs0 g" "encode_document env (rq_values r) (Suc g) (ck_store m) = Inr doc" "artifact_current env m"
  shows "\<exists>st art man. worker_commit env (Inr ()) m = Some (m\<lparr>ck_store := st, ck_manifest := man, ck_writing := None,
      ck_generation := rq_generation r, ck_hash := rq_hash r, ck_committed := rq_id r, ck_artifact := Some art\<rparr>) \<and>
    holds env st (canon_values (rq_values r)) (Suc g) \<and> sp_layout st = sp_layout (ck_store m) \<and> sp_region st = sp_region (ck_store m) \<and>
    (\<exists>raw. sp_primary st = Some raw \<and> art = hexdigest (e_sha env raw))"
proof -
  have r': "frame_ok (rq_frame r)" "f_layout (rq_frame r) = sp_layout (ck_store m)" "sval_ok (SDict (rq_values r))"
    using r by (simp_all add: request_ok_def)
  obtain f' where f': "write_frame env (rq_values r) g (ck_store m) (rq_frame r) = Inr f'"
    "commit_snapshot env (rq_frame r) (rq_values r) (nat (rq_generation r)) (rq_hash r) (ck_artifact m) (ck_store m) =
      (Inr \<lparr>cr_vm_generation = nat (rq_generation r), cr_vm_checkpoint_hash = rq_hash r,
         cr_artifact_sha256 = hexdigest (e_sha env (to_png_bytes env f'))\<rparr>, atomic_write_bytes True (to_png_bytes env f') (ck_store m))"
    using commit_succeeds [OF env(1) r'(1,2) h(1,2)] h(3) unfolding artifact_current_def by blast
  let ?st = "atomic_write_bytes True (to_png_bytes env f') (ck_store m)"
  have "holds env ?st (canon_values (rq_values r)) (Suc g)" by (rule written_holds [OF env r'(3,1,2) f'(1)])
  moreover have "sp_region ?st = sp_region (ck_store m)" "sp_primary ?st = Some (to_png_bytes env f')"
    by (simp_all add: atomic_write_bytes_def)
  moreover have "worker_commit env (Inr ()) m = Some (m\<lparr>ck_store := ?st,
      ck_manifest := Some \<lparr>mf_request = rq_id r, mf_generation = rq_generation r, mf_hash = rq_hash r,
        mf_artifact = hexdigest (e_sha env (to_png_bytes env f'))\<rparr>, ck_writing := None,
      ck_generation := rq_generation r, ck_hash := rq_hash r, ck_committed := rq_id r,
      ck_artifact := Some (hexdigest (e_sha env (to_png_bytes env f')))\<rparr>)"
    using f'(2) w by (simp add: worker_commit_def worker_write_def raise_if_def)
  ultimately show ?thesis using atomic_write_layout by blast
qed

section \<open>Properties\<close>

text \<open>C38. A barrier means durability: with callers that submit under one lock, in every interleaving with the
  worker thread, when the wait for a barrier request returns it returns true, that request is the last
  one committed, and loading the store gives back exactly the document it carried; requests are
  committed in the order they were submitted in, and none is committed twice.\<close>

theorem barrier_durable:
  assumes "sha_ok env" "png_lossless env (sp_layout st)" "ckpt_init st interval artifact manifest = Inr m"
    and "ckpt_reach env serial (ckpt_start m) s" "ckpt_step env s (Return r (Inr x)) s'"
  shows "x \<and> last (cs_log s) = r \<and> sorted_wrt (<) (map rq_id (cs_log s)) \<and>
    (\<exists>f g h. load_resident_snapshot env (ck_store (cs_manager s')) = (Inr (f, canon_values (rq_values r), g, h), ck_store (cs_manager s')))"
proof -
  have inv: "serial_inv env (sp_layout st) s"
    by (rule serial_reach_inv [OF assms(1,2,4) serial_inv_start [OF assms(3)]])
  have "r \<in> set (cs_barrier s)" "wait_for_request (rq_id r) False (cs_manager s) = Some (Inr x)" "cs_manager s' = cs_manager s"
    using assms(5) by (auto elim!: ckpt_returnE)
  then have c: "x" "last (cs_log s) = r" "on_disk env (ck_store (cs_manager s')) r" using barrier_committed [OF inv] by auto
  moreover have "sorted_wrt (<) (map rq_id (cs_log s))"
    using serial_invD(7) [OF inv] by (simp add: known_def sorted_wrt_append)
  ultimately show ?thesis using load_holds unfolding on_disk_def by meson
qed

section \<open>Examples\<close>

abbreviation demo_png :: png_env where
  "demo_png \<equiv> flat_env demo_store_layout"

definition demo_doc :: "int \<Rightarrow> mem_values" where
  "demo_doc n = [(ascii ''vm_checkpoint'', SDict [(ascii ''generation'', SInt 0)]), (ascii ''register_state'', SDict []),
     (ascii ''shared_state'', SDict []), (ascii ''tag'', SInt n)]"

definition demo_state_hash :: string where
  "demo_state_hash = hexdigest (e_sha demo_png (CHECKPOINT_HASH_DOMAIN @ encode_ascii (json_members
     [(ascii ''clock'', int_str 0), (ascii ''generation'', int_str 0), (ascii ''registers'', json_members []),
      (ascii ''shared'', json_members [])])))"

definition demo_request :: "nat \<Rightarrow> request" where
  "demo_request n = \<lparr>rq_id = n, rq_frame = demo_store_frame 0, rq_values = demo_doc (int n), rq_generation = 0,
     rq_hash = demo_state_hash, rq_barrier = True\<rparr>"

definition demo_manager :: ckpt where
  "demo_manager = \<lparr>ck_store = demo_store, ck_interval = 10, ck_pending = None, ck_writing = None, ck_stopped = False,
     ck_closed = False, ck_generation = 0, ck_hash = [], ck_next = 1, ck_submitted = 0, ck_committed = 0, ck_error = None,
     ck_artifact = None, ck_manifest = None\<rparr>"

lemma demo_init: "ckpt_init demo_store 10 None None = Inr demo_manager"
  by (simp add: ckpt_init_def demo_manager_def)

lemma demo_hash_ok: "checkpoint_hash_from_memory (e_sha demo_png) (demo_doc n) = Inr demo_state_hash"
  by (simp add: checkpoint_hash_from_memory_def demo_doc_def sget_def document_hash_def demo_state_hash_def ascii_def)

lemma demo_doc_ok: "sval_ok (SDict (demo_doc n))"
  by (simp add: demo_doc_def ascii_def)

lemma demo_request_ok: "request_ok demo_store_layout (demo_request n)"
  using demo_store_frame_ok [of 0] demo_doc_ok
  by (simp add: request_ok_def demo_request_def del: sval_ok.simps) (simp add: demo_store_frame_def)

lemma demo_doc_size:
  "\<exists>bs. encode_value (SDict (demo_doc 1)) = Inr bs \<and> length bs \<le> 320"
  "\<exists>bs. encode_value (SDict (demo_doc 2)) = Inr bs \<and> length bs \<le> 320"
  "\<exists>bs. encode_value (SDict (demo_doc 3)) = Inr bs \<and> length bs \<le> 320"
  by (simp_all add: demo_doc_def encode_simps)

lemma demo_encodes:
  assumes "n = 1 \<or> n = 2 \<or> n = 3" "sp_layout st = demo_store_layout" "sp_region st = None" "g < 5"
  shows "\<exists>doc. encode_document demo_png (demo_doc n) (Suc g) st = Inr doc"
proof -
  have cap: "capacity_bytes st = Inr 384" using assms demo_store_region by (simp add: capacity_bytes_def)
  obtain bs where bs: "encode_value (SDict (demo_doc n)) = Inr bs" "length bs \<le> 320" using assms(1) demo_doc_size by metis
  have "length (demo_doc n) = 4" by (simp add: demo_doc_def)
  then show ?thesis
    unfolding encode_document_def bs(1) rbind_simps cap using bs(2) assms(4) by (simp add: HEADER_SIZE_def header_pack_def)
qed

text \<open>The worker's write of a demonstration request.\<close>

lemma demo_commits:
  assumes "n = 1 \<or> n = 2 \<or> n = 3" "ck_writing m = Some (demo_request n)" "sp_layout (ck_store m) = demo_store_layout"
    and "sp_region (ck_store m) = None" "holds demo_png (ck_store m) vs g" "g < 5" "artifact_current demo_png m"
  obtains st art man raw where "worker_commit demo_png (Inr ()) m = Some (m\<lparr>ck_store := st, ck_manifest := man, ck_writing := None,
      ck_generation := 0, ck_hash := demo_state_hash, ck_committed := n, ck_artifact := Some art\<rparr>)"
    "holds demo_png st (canon_values (demo_doc (int n))) (Suc g)" "sp_layout st = demo_store_layout" "sp_region st = None"
    "sp_primary st = Some raw" "art = hexdigest (e_sha demo_png raw)"
proof -
  have "int n = 1 \<or> int n = 2 \<or> int n = 3" using assms(1) by auto
  then obtain doc where doc: "encode_document demo_png (demo_doc (int n)) (Suc g) (ck_store m) = Inr doc"
    using demo_encodes [OF _ assms(3,4,6)] by blast
  have r: "rq_values (demo_request n) = demo_doc (int n)" "rq_generation (demo_request n) = 0" "rq_id (demo_request n) = n"
    "rq_hash (demo_request n) = demo_state_hash" by (simp_all add: demo_request_def)
  from worker_commits [of demo_png m "demo_request n", OF flat_env_ok(1) _ _ assms(2) _ assms(5) _ assms(7), unfolded r assms(3,4),
      OF flat_env_ok(2) demo_request_ok demo_hash_ok doc]
  show ?thesis using that by blast
qed

lemma demo_submit_start:
  assumes "checkpoint_hash_from_memory (e_sha demo_png) (demo_doc (int n)) = Inr demo_state_hash"
    and "\<not> ck_closed m" "ck_error m = None" "ck_generation m = 0" "ck_next m = n" "ck_pending m = None"
  shows "submit_start demo_png (demo_store_frame 0) (demo_doc (int n)) 0 demo_state_hash True m =
    (Inr (demo_request n, True), place (demo_request n) (m\<lparr>ck_next := Suc n\<rparr>))"
  using assms by (simp add: submit_start_def demo_request_def Let_def)

abbreviation demo_event :: "nat \<Rightarrow> ckpt_event" where
  "demo_event n \<equiv> Submit (demo_store_frame 0) (demo_doc (int n)) 0 demo_state_hash True"

definition demo_placed :: ckpt_system where
  "demo_placed = \<lparr>cs_manager = demo_manager\<lparr>ck_next := 2, ck_pending := Some (demo_request 1), ck_submitted := 1\<rparr>,
     cs_slot = [], cs_barrier = [demo_request 1], cs_log = []\<rparr>"

lemma demo_first_submit: "ckpt_step demo_png (ckpt_start demo_manager) (demo_event 1) demo_placed"
proof -
  have "submit_start demo_png (demo_store_frame 0) (demo_doc (int 1)) 0 demo_state_hash True (cs_manager (ckpt_start demo_manager)) =
      (Inr (demo_request 1, True), place (demo_request 1) (demo_manager\<lparr>ck_next := Suc 1\<rparr>))"
    using demo_submit_start [OF demo_hash_ok, of demo_manager 1] by (simp add: ckpt_start_def demo_manager_def)
  from ckpt_step.submit_placed [OF this] show ?thesis
    by (simp add: enter_barrier_def on_manager_def ckpt_start_def place_def demo_placed_def demo_request_def numeral_2_eq_2)
qed

lemma demo_well_submitted: "well_submitted demo_store_layout (Submit (demo_store_frame 0) (demo_doc k) 0 demo_state_hash True)"
  using demo_store_frame_ok [of 0] demo_doc_ok by (simp add: well_submitted_def del: sval_ok.simps) (simp add: demo_store_frame_def)

theorem barrier_durable_witness:
  "\<exists>s s' f g h. ckpt_reach demo_png serial (ckpt_start demo_manager) s \<and> ckpt_step demo_png s (Return (demo_request 1) (Inr True)) s' \<and>
     load_resident_snapshot demo_png (ck_store (cs_manager s')) =
       (Inr (f, canon_values (demo_doc 1), g, h), ck_store (cs_manager s'))"
proof -
  have lay: "sp_layout demo_store = demo_store_layout" "sp_region demo_store = None" by (simp_all add: demo_store_def)
  have "serial (ckpt_start demo_manager) (demo_event 1)"
    using demo_well_submitted [of 1] by (simp add: serial_def ckpt_start_def demo_manager_def lay)
  then have r1: "ckpt_reach demo_png serial (ckpt_start demo_manager) demo_placed"
    by (rule reach_step [OF reach_refl _ demo_first_submit])
  let ?m2 = "cs_manager demo_placed\<lparr>ck_writing := Some (demo_request 1), ck_pending := None\<rparr>"
  have t: "worker_take (cs_manager demo_placed) = Some ?m2" by (simp add: worker_take_def demo_placed_def demo_manager_def)
  have r2: "ckpt_reach demo_png serial (ckpt_start demo_manager) (on_manager ?m2 demo_placed)"
    by (rule reach_step [OF r1 _ ckpt_step.takes [OF t]]) (simp add: serial_def well_submitted_def)
  obtain st art man raw where c: "worker_commit demo_png (Inr ()) ?m2 = Some (?m2\<lparr>ck_store := st, ck_manifest := man, ck_writing := None,
      ck_generation := 0, ck_hash := demo_state_hash, ck_committed := 1, ck_artifact := Some art\<rparr>)"
    by (rule demo_commits [of 1 ?m2 "[]" 0])
      (use demo_store_env(2) lay in \<open>simp_all add: demo_placed_def demo_manager_def artifact_current_def\<close>)
  let ?m3 = "?m2\<lparr>ck_store := st, ck_manifest := man, ck_writing := None, ck_generation := 0, ck_hash := demo_state_hash,
      ck_committed := 1, ck_artifact := Some art\<rparr>"
  let ?s3 = "(on_manager ?m3 (on_manager ?m2 demo_placed))\<lparr>cs_log := (if ck_error ?m3 = None then cs_log (on_manager ?m2 demo_placed) @ [demo_request 1]
      else cs_log (on_manager ?m2 demo_placed))\<rparr>"
  have s3: "ckpt_step demo_png (on_manager ?m2 demo_placed) (Commit (Inr ())) ?s3"
    by (rule ckpt_step.commits) (use c in simp_all)
  have r3: "ckpt_reach demo_png serial (ckpt_start demo_manager) ?s3"
    by (rule reach_step [OF r2 _ s3]) (simp add: serial_def well_submitted_def)
  have "wait_for_request (rq_id (demo_request 1)) False (cs_manager ?s3) = Some (Inr True)" "demo_request 1 \<in> set (cs_barrier ?s3)"
    by (simp_all add: wait_for_request_def wait_outcome_def demo_request_def demo_placed_def demo_manager_def)
  then have r4: "ckpt_step demo_png ?s3 (Return (demo_request 1) (Inr True)) (?s3\<lparr>cs_barrier := remove1 (demo_request 1) (cs_barrier ?s3)\<rparr>)"
    by (intro ckpt_step.barrier_returns)
  have "png_lossless demo_png (sp_layout demo_store)" using flat_env_ok(2) lay by simp
  moreover have "rq_values (demo_request 1) = demo_doc 1" by (simp add: demo_request_def)
  ultimately show ?thesis using barrier_durable [OF flat_env_ok(1) _ demo_init r3 r4] r3 r4 by metis
qed

text \<open>
  Without the lock of the session the barrier can be lost: the second of three concurrent callers is
  overtaken in the queue for the pending slot, and the commit of the third, later request satisfies its
  wait while its own request is still pending.
\<close>

definition any_caller :: "ckpt_system \<Rightarrow> ckpt_event \<Rightarrow> bool" where
  "any_caller s ev \<longleftrightarrow> well_submitted (sp_layout (ck_store (cs_manager s))) ev"

lemma any_caller_simps [simp]:
  "any_caller s Take" "any_caller s (Commit u)" "any_caller s (Resume r)"
  "sp_layout (ck_store (cs_manager s)) = demo_store_layout \<Longrightarrow>
    any_caller s (Submit (demo_store_frame 0) (demo_doc k) 0 demo_state_hash True)"
  using demo_well_submitted by (simp_all add: any_caller_def) (simp_all add: well_submitted_def)

lemma barrier_returns_uncommitted:
  "\<exists>s s'. ckpt_reach demo_png any_caller (ckpt_start demo_manager) s \<and>
     ckpt_step demo_png s (Return (demo_request 2) (Inr True)) s' \<and> demo_request 2 \<notin> set (cs_log s')"
proof -
  let ?r = "\<lambda>s. ckpt_reach demo_png any_caller (ckpt_start demo_manager) s"
  have lay: "sp_layout demo_store = demo_store_layout" "sp_region demo_store = None" by (simp_all add: demo_store_def)
  have neq: "demo_request 1 \<noteq> demo_request 2" "demo_request 3 \<noteq> demo_request 2" "rq_barrier (demo_request n)" "rq_id (demo_request n) = n"
    "rq_generation (demo_request n) = 0" for n
    by (simp_all add: demo_request_def)
  let ?m1 = "demo_manager\<lparr>ck_next := 2, ck_pending := Some (demo_request 1), ck_submitted := 1\<rparr>"
  have r1: "?r demo_placed"
    by (rule reach_step [OF reach_refl _ demo_first_submit]) (simp add: ckpt_start_def demo_manager_def lay)
  let ?s2 = "demo_placed\<lparr>cs_manager := ?m1\<lparr>ck_next := 3\<rparr>, cs_slot := [demo_request 2]\<rparr>"
  have "submit_start demo_png (demo_store_frame 0) (demo_doc (int 2)) 0 demo_state_hash True (cs_manager demo_placed) =
      (Inr (demo_request 2, False), ?m1\<lparr>ck_next := 3\<rparr>)"
    using demo_hash_ok by (simp add: submit_start_def demo_placed_def demo_manager_def neq) (simp add: demo_request_def)
  from ckpt_step.submit_blocked [OF this] have r2: "?r ?s2"
    using reach_step [OF r1, of "demo_event 2" ?s2] by (simp add: demo_placed_def demo_manager_def on_manager_def lay)
  let ?s3 = "?s2\<lparr>cs_manager := ?m1\<lparr>ck_next := 3, ck_writing := Some (demo_request 1), ck_pending := None\<rparr>\<rparr>"
  have "worker_take (cs_manager ?s2) = Some (cs_manager ?s3)" by (simp add: worker_take_def demo_manager_def)
  from ckpt_step.takes [OF this] have r3: "?r ?s3"
    using reach_step [OF r2, of Take ?s3] by (simp add: on_manager_def)
  let ?s4 = "?s3\<lparr>cs_manager := ?m1\<lparr>ck_next := 4, ck_writing := Some (demo_request 1), ck_pending := Some (demo_request 3), ck_submitted := 3\<rparr>,
      cs_barrier := [demo_request 1, demo_request 3]\<rparr>"
  have "submit_start demo_png (demo_store_frame 0) (demo_doc (int 3)) 0 demo_state_hash True (cs_manager ?s3) =
      (Inr (demo_request 3, True), cs_manager ?s4)"
    using demo_submit_start [OF demo_hash_ok, of "cs_manager ?s3" 3] by (simp add: demo_manager_def place_def neq)
  from ckpt_step.submit_placed [OF this] have r4: "?r ?s4"
    using reach_step [OF r3, of "demo_event 3" ?s4] by (simp add: demo_placed_def demo_manager_def on_manager_def enter_barrier_def lay neq)
  obtain st art man raw where c: "worker_commit demo_png (Inr ()) (cs_manager ?s4) = Some (cs_manager ?s4\<lparr>ck_store := st, ck_manifest := man,
      ck_writing := None, ck_generation := 0, ck_hash := demo_state_hash, ck_committed := 1, ck_artifact := Some art\<rparr>)"
      "holds demo_png st (canon_values (demo_doc (int 1))) (Suc 0)" "sp_layout st = demo_store_layout" "sp_region st = None"
      "sp_primary st = Some raw" "art = hexdigest (e_sha demo_png raw)"
    by (rule demo_commits [of 1 "cs_manager ?s4" "[]" 0])
      (use demo_store_env(2) lay in \<open>simp_all add: demo_manager_def artifact_current_def\<close>)
  let ?m5 = "cs_manager ?s4\<lparr>ck_store := st, ck_manifest := man, ck_writing := None, ck_generation := 0, ck_hash := demo_state_hash,
      ck_committed := 1, ck_artifact := Some art\<rparr>"
  let ?s5 = "?s4\<lparr>cs_manager := ?m5, cs_log := [demo_request 1]\<rparr>"
  from ckpt_step.commits [OF c(1), of "demo_request 1"] have r5: "?r ?s5"
    using reach_step [OF r4, of "Commit (Inr ())" ?s5] by (simp add: demo_placed_def demo_manager_def on_manager_def)
  let ?m6 = "?m5\<lparr>ck_writing := Some (demo_request 3), ck_pending := None\<rparr>"
  have "worker_take (cs_manager ?s5) = Some ?m6" by (simp add: worker_take_def demo_manager_def)
  from ckpt_step.takes [OF this] have r6: "?r (?s5\<lparr>cs_manager := ?m6\<rparr>)"
    using reach_step [OF r5, of Take "?s5\<lparr>cs_manager := ?m6\<rparr>"] by (simp add: on_manager_def)
  let ?m7 = "?m6\<lparr>ck_pending := Some (demo_request 2), ck_submitted := 2\<rparr>"
  let ?s7 = "?s5\<lparr>cs_manager := ?m7, cs_slot := [], cs_barrier := [demo_request 1, demo_request 3, demo_request 2]\<rparr>"
  have "submit_resume (demo_request 2) ?m6 = Some (Inr (), ?m7)" by (simp add: submit_resume_def place_def neq demo_manager_def)
  then have s7: "ckpt_step demo_png (?s5\<lparr>cs_manager := ?m6\<rparr>) (Resume (demo_request 2)) ?s7"
    using ckpt_step.resume_places [of "demo_request 2" "?s5\<lparr>cs_manager := ?m6\<rparr>" "()" ?m7] by (simp add: on_manager_def enter_barrier_def neq)
  have r7: "?r ?s7" by (rule reach_step [OF r6 _ s7]) simp
  obtain st' art' man' raw' where d: "worker_commit demo_png (Inr ()) (cs_manager ?s7) = Some (cs_manager ?s7\<lparr>ck_store := st', ck_manifest := man',
      ck_writing := None, ck_generation := 0, ck_hash := demo_state_hash, ck_committed := 3, ck_artifact := Some art'\<rparr>)"
    by (rule demo_commits [of 3 "cs_manager ?s7" "canon_values (demo_doc (int 1))" 1]) (use c(2-6) in \<open>simp_all add: artifact_current_def\<close>)
  let ?s8 = "?s7\<lparr>cs_manager := ?m7\<lparr>ck_store := st', ck_manifest := man', ck_writing := None, ck_generation := 0, ck_hash := demo_state_hash,
      ck_committed := 3, ck_artifact := Some art'\<rparr>, cs_log := [demo_request 1, demo_request 3]\<rparr>"
  from ckpt_step.commits [OF d, of "demo_request 3"] have r8: "?r ?s8"
    using reach_step [OF r7, of "Commit (Inr ())" ?s8] by (simp add: demo_manager_def on_manager_def)
  have "ckpt_step demo_png ?s8 (Return (demo_request 2) (Inr True)) (?s8\<lparr>cs_barrier := remove1 (demo_request 2) (cs_barrier ?s8)\<rparr>)"
    by (rule ckpt_step.barrier_returns) (simp_all add: wait_for_request_def wait_outcome_def neq demo_manager_def)
  moreover have "demo_request 2 \<notin> set (cs_log ?s8)" using neq by auto
  ultimately show ?thesis using r8 by fastforce
qed

text \<open>C39. A barrier completes: when the worker is idle and alive, the pending request verifies, its document
  fits the region and nobody else changed the file, then the worker's next two steps commit it, its
  waiting caller returns true, the file holds its document and the manager is ready for the next one.\<close>

theorem pending_barrier_completes:
  assumes "sha_ok env" "png_lossless env (sp_layout (ck_store m))" "request_ok (sp_layout (ck_store m)) r"
    and "ck_pending m = Some r" "ck_writing m = None" "\<not> ck_stopped m" "ck_error m = None"
    and "checkpoint_hash_from_memory (e_sha env) (rq_values r) = Inr (rq_hash r)" "artifact_current env m"
    and "holds env (ck_store m) vs g" "encode_document env (rq_values r) (Suc g) (ck_store m) = Inr doc"
  shows "\<exists>m1 m2. worker_take m = Some m1 \<and> worker_commit env (Inr ()) m1 = Some m2 \<and>
    wait_for_request (rq_id r) False m2 = Some (Inr True) \<and> ck_error m2 = None \<and> ck_pending m2 = None \<and>
    holds env (ck_store m2) (canon_values (rq_values r)) (Suc g) \<and> artifact_current env m2"
proof -
  let ?m1 = "m\<lparr>ck_writing := Some r, ck_pending := None\<rparr>"
  have t: "worker_take m = Some ?m1" using assms(4-6) by (simp add: worker_take_def)
  have w: "ck_writing ?m1 = Some r" and e: "ck_store ?m1 = ck_store m" by simp_all
  have a: "artifact_current env ?m1" using assms(9) by (cases "ck_artifact m") (simp_all add: artifact_current_def)
  obtain st art man raw where c: "worker_commit env (Inr ()) ?m1 = Some (?m1\<lparr>ck_store := st, ck_manifest := man, ck_writing := None,
      ck_generation := rq_generation r, ck_hash := rq_hash r, ck_committed := rq_id r, ck_artifact := Some art\<rparr>)"
      "holds env st (canon_values (rq_values r)) (Suc g)" "sp_primary st = Some raw" "art = hexdigest (e_sha env raw)"
    using worker_commits [OF assms(1) _ _ w assms(8) _ _ a, unfolded e, OF assms(2,3,10,11)] by blast
  let ?m2 = "?m1\<lparr>ck_store := st, ck_manifest := man, ck_writing := None,
      ck_generation := rq_generation r, ck_hash := rq_hash r, ck_committed := rq_id r, ck_artifact := Some art\<rparr>"
  have "wait_for_request (rq_id r) False ?m2 = Some (Inr True)" "ck_error ?m2 = None" "ck_pending ?m2 = None"
    using assms(7) by (simp_all add: wait_for_request_def wait_outcome_def)
  moreover have "artifact_current env ?m2" using c(3,4) by (simp add: artifact_current_def)
  moreover have "holds env (ck_store ?m2) (canon_values (rq_values r)) (Suc g)" using c(2) by simp
  ultimately show ?thesis using t c(1) by blast
qed

theorem pending_barrier_completes_witness:
  "\<exists>m1 m2. worker_take (cs_manager demo_placed) = Some m1 \<and> worker_commit demo_png (Inr ()) m1 = Some m2 \<and>
     wait_for_request 1 False m2 = Some (Inr True)"
proof -
  let ?m = "cs_manager demo_placed"
  have lay: "sp_layout (ck_store ?m) = demo_store_layout" "sp_region (ck_store ?m) = None"
    by (simp_all add: demo_placed_def demo_manager_def demo_store_def)
  obtain doc where doc: "encode_document demo_png (demo_doc 1) (Suc 0) (ck_store ?m) = Inr doc"
    using demo_encodes [OF _ lay, of 1 0] by auto
  have r: "rq_values (demo_request 1) = demo_doc 1" "rq_hash (demo_request 1) = demo_state_hash" "rq_id (demo_request 1) = 1"
    by (simp_all add: demo_request_def)
  have m: "ck_pending ?m = Some (demo_request 1)" "ck_writing ?m = None" "\<not> ck_stopped ?m" "ck_error ?m = None"
      "artifact_current demo_png ?m" "holds demo_png (ck_store ?m) [] 0"
    using demo_store_env(2) by (simp_all add: demo_placed_def demo_manager_def artifact_current_def)
  from pending_barrier_completes [of demo_png ?m "demo_request 1" "[]" 0 doc, unfolded r lay,
      OF flat_env_ok demo_request_ok m(1-4) demo_hash_ok m(5,6) doc]
  show ?thesis by blast
qed

end
