(* ===== verification/Agent_Session.thy ===== *)
theory Agent_Session
  imports Checkpoint Spatial_Mailbox Agent_ABI
begin

text \<open>
  The resident agent session, \<open>SpatialAgentSession\<close> of \<^verbatim>\<open>zdx_spatial_agent_session.py\<close>: one frame, one machine, the
  memory document, the mailboxes, the memory manager and the checkpoint manager behind one lock.

  \<^item> \<^verbatim>\<open>agent_session\<close> is the object; the store of the checkpoint manager is the store of the session's memory.
    Every method runs under the session's lock, so it is one step, and only the worker thread of the
    checkpoint manager runs beside it (\<^verbatim>\<open>session_worker\<close>).
  \<^item> A method that waits for the worker lets it run: \<^verbatim>\<open>worker_finish\<close> is the worker until it is idle, and \<open>None\<close>
    is a wait that never ends. \<open>disk\<close> gives the outcome of saving the manifest of each request.
  \<^item> Machine state read from a document must have the registers \<open>A\<close>, \<open>B\<close>, \<open>OUT\<close> and \<open>T\<close> per thread; the code notices
    other sets only when the machine runs. Paths are absolute, the text of a document has code points
    below 256, and \<open>str\<close> of containers, floats and bytes is the parameter \<open>repr\<close>. Stored values are compared
    up to the order of keys; values of different types differ (Python has \<open>True == 1\<close>).

  The lemmas show that a checkpoint with a barrier makes the resident document durable, and that opening the
  stored frame again resumes the machine where it was.
\<close>

section \<open>Machine state in a document\<close>

definition regs_value :: "thread_regs \<Rightarrow> sval" where
  "regs_value r = SDict [(ascii ''A'', SInt (reg_A r)), (ascii ''B'', SInt (reg_B r)), (ascii ''OUT'', SInt (reg_OUT r)),
     (ascii ''T'', SInt (reg_T r))]"

definition marker_value :: "vm_marker \<Rightarrow> sval" where
  "marker_value mk = SDict [(ascii ''generation'', SInt (mk_generation mk)), (ascii ''clock'', SInt (mk_clock mk)),
     (ascii ''checkpoint_hash'', SStr (ascii (mk_hash mk)))]"

definition capture_vm_state :: "vm \<Rightarrow> mem_values" where
  "capture_vm_state v =
     [(ascii ''vm_checkpoint'', marker_value (checkpoint_marker v)),
      (ascii ''register_state'', SDict (map (\<lambda>p. (ascii (fst p), regs_value (snd p))) (registers_dict (registers v)))),
      (ascii ''shared_state'', SDict (map (\<lambda>p. (ascii (fst p), SInt (snd p))) (shared_dict (shared v))))]"

definition member :: "(ustr \<times> sval) list \<Rightarrow> string \<Rightarrow> sval result" where
  "member d k = (case dget d (ascii k) of None \<Rightarrow> Inl (KeyError k) | Some v \<Rightarrow> Inr v)"

definition as_dict :: "sval \<Rightarrow> (ustr \<times> sval) list result" where
  "as_dict v = (case v of SDict d \<Rightarrow> Inr d | _ \<Rightarrow> Inl (AttributeError ''items''))"

definition value_regs :: "sval \<Rightarrow> thread_regs result" where
  "value_regs v =
     rbind (as_dict v) (\<lambda>d.
     rbind (member d ''A'') (\<lambda>a. rbind (value_int a) (\<lambda>a.
     rbind (member d ''B'') (\<lambda>b. rbind (value_int b) (\<lambda>b.
     rbind (member d ''OUT'') (\<lambda>out. rbind (value_int out) (\<lambda>out.
     rbind (member d ''T'') (\<lambda>t. rbind (value_int t) (\<lambda>t.
       Inr \<lparr>reg_A = a, reg_B = b, reg_OUT = out, reg_T = t\<rparr>)))))))))"

fun collect :: "(nat \<Rightarrow> 'a result) \<Rightarrow> nat list \<Rightarrow> 'a list result" where
  "collect f [] = Inr []"
| "collect f (i # is) = rbind (f i) (\<lambda>x. rbind (collect f is) (\<lambda>xs. Inr (x # xs)))"

text \<open>\<open>vm.restore_checkpoint\<close> on a stored document\<close>

definition restore_values ::
    "(bytes \<Rightarrow> bytes) \<Rightarrow> (ustr \<times> sval) list \<Rightarrow> sval \<Rightarrow> sval \<Rightarrow> vm \<Rightarrow> vm result" where
  "restore_values sha marker regs sh v =
     rbind (member marker ''generation'') (\<lambda>generation.
     rbind (member marker ''checkpoint_hash'') (\<lambda>chash.
     rbind (as_dict regs) (\<lambda>regs.
     rbind (as_dict sh) (\<lambda>sh.
     (let clk = (case dget marker (ascii ''clock'') of None \<Rightarrow> SInt 0 | Some c \<Rightarrow> c) in
      rbind (document_hash sha generation clk regs sh) (\<lambda>actual.
        if chash \<noteq> SStr (ascii actual)
        then Inl (ValueError ''persisted VM checkpoint hash does not match checkpoint state'')
        else if dkeys regs \<noteq> ascii ` thread_name ` {0..<threads v}
        then Inl (ValueError ''persisted register set does not match VM thread geometry'')
        else if dkeys sh \<noteq> ascii ` slot_name ` {0..<length (shared v)}
        then Inl (ValueError ''persisted shared-memory set does not match VM'')
        else
          rbind (collect (\<lambda>i. rbind (member regs (thread_name i)) value_regs) [0..<threads v]) (\<lambda>rs.
          rbind (collect (\<lambda>i. rbind (member sh (slot_name i)) value_int) [0..<length (shared v)]) (\<lambda>ms.
          rbind (value_int generation) (\<lambda>g.
          rbind (value_int clk) (\<lambda>c.
            Inr (v\<lparr>registers := rs, shared := ms, execution_generation := nat g, clock := c,
                   last_checkpoint_hash := actual\<rparr>)))))))))))"

section \<open>The session\<close>

record agent_session =
  se_path :: string
  se_vm :: spatial_vm
  se_frame :: frame
  se_values :: mem_values
  se_manager :: ckpt
  se_abi :: abi
  se_mailboxes :: "(string, mailbox) dict"
  se_has_memory :: bool
  se_closed :: bool
  se_dirty :: bool

text \<open>Where the machine finds image files, and what saving each manifest does.\<close>

record session_env =
  sn_png :: png_env
  sn_load :: "string \<Rightarrow> raster option"
  sn_exists :: "string \<Rightarrow> bool"
  sn_repr :: "json \<Rightarrow> string"
  sn_text :: "sval \<Rightarrow> string"
  sn_disk :: "nat \<Rightarrow> unit result"

abbreviation sn_sha :: "session_env \<Rightarrow> bytes \<Rightarrow> bytes" where
  "sn_sha env \<equiv> e_sha (sn_png env)"

definition session_ensure_open :: "agent_session \<Rightarrow> unit result" where
  "session_ensure_open s = raise_if (se_closed s) (RuntimeError ''spatial agent session is closed'')"

text \<open>A stored value as plain data; a float or bytes is the text \<open>str\<close> makes of it.\<close>

fun value_json :: "(sval \<Rightarrow> string) \<Rightarrow> sval \<Rightarrow> json" where
  "value_json txt SNone = JNull"
| "value_json txt (SBool b) = JBool b"
| "value_json txt (SInt i) = JInt i"
| "value_json txt (SStr s) = JStr (map char_of s)"
| "value_json txt (SList xs) = JList (map (value_json txt) xs)"
| "value_json txt (SDict d) = JObj (map (\<lambda>p. (map char_of (fst p), value_json txt (snd p))) d)"
| "value_json txt v = JStr (txt v)"

definition dict_eq :: "json \<Rightarrow> json \<Rightarrow> bool" where
  "dict_eq a b \<longleftrightarrow> canon (json_sval a) = canon (json_sval b)"

definition value_eq :: "sval \<Rightarrow> sval \<Rightarrow> bool" where
  "value_eq a b \<longleftrightarrow> canon a = canon b"

definition session_metadata :: "layout \<Rightarrow> string \<Rightarrow> mem_values" where
  "session_metadata L path = [(ascii ''spatial_layout'', json_sval (layout_to_dict L)), (ascii ''source_frame'', SStr (ascii path))]"

definition dict_merge :: "('k, 'v) dict \<Rightarrow> ('k, 'v) dict \<Rightarrow> ('k, 'v) dict" where
  "dict_merge new d = foldl (\<lambda>d p. dset (fst p) (snd p) d) d new"

definition check_session_abi :: "session_env \<Rightarrow> layout \<Rightarrow> string option \<Rightarrow> abi option \<Rightarrow> abi result" where
  "check_session_abi env L region requested =
     rbind (case requested of Some a \<Rightarrow> Inr a | None \<Rightarrow> abi_infer (sn_sha env) L region) (\<lambda>a.
     rbind (abi_validate (sn_sha env) L a) (\<lambda>_.
       if region = None \<and> list_ex (\<lambda>b. b_role b \<noteq> ''persistent_memory'') (abi_bindings a)
       then Inl (ValueError ''agent ABI subregions require memory bound to a named persistent region'')
       else if region \<noteq> None \<and> region_for a ''persistent_memory'' \<noteq> region
       then Inl (ValueError ''agent ABI persistent_memory role must match the spatial memory region'')
       else Inr a))"

definition check_persisted_abi :: "session_env \<Rightarrow> layout \<Rightarrow> abi \<Rightarrow> sval \<Rightarrow> unit result" where
  "check_persisted_abi env L a persisted =
     (if persisted = SNone then Inr ()
      else rbind (abi_from_dict (sn_sha env) (sn_repr env) (value_json (sn_text env) persisted) L) (\<lambda>restored.
        raise_if (\<not> dict_eq (abi_to_dict restored) (abi_to_dict a)) (ValueError ''persisted agent ABI does not match requested ABI'')))"

text \<open>The machine as the document left it, or seeded when the document has no checkpoint.\<close>

definition resume_vm :: "session_env \<Rightarrow> mem_values \<Rightarrow> mem_values option \<Rightarrow> vm \<Rightarrow> (vm \<times> mem_values) result" where
  "resume_vm env vs initial v =
     (if sget vs ''vm_checkpoint'' \<noteq> SNone then
        rbind (as_dict (sget vs ''vm_checkpoint'')) (\<lambda>marker.
        rbind (member vs ''register_state'') (\<lambda>regs.
        rbind (member vs ''shared_state'') (\<lambda>sh.
        rbind (restore_values (sn_sha env) marker regs sh v) (\<lambda>v'.
        rbind (checkpoint_hash_from_memory (sn_sha env) vs) (\<lambda>h.
        rbind (raise_if (SStr (ascii h) \<noteq> sget marker ''checkpoint_hash'')
                 (ValueError ''resident checkpoint state failed hash verification'')) (\<lambda>_.
          Inr (v', vs)))))))
      else
        (let seed = (case initial of None \<Rightarrow> capture_vm_state v | Some d \<Rightarrow> d) in
         rbind (rbind (member seed ''vm_checkpoint'') as_dict) (\<lambda>marker.
         rbind (member seed ''register_state'') (\<lambda>regs.
         rbind (member seed ''shared_state'') (\<lambda>sh.
         rbind (restore_values (sn_sha env) marker regs sh v) (\<lambda>v'.
           Inr (v', dict_merge seed vs)))))))"

definition session_open ::
    "session_env \<Rightarrow> string \<Rightarrow> string \<Rightarrow> store \<Rightarrow> spatial_vm \<Rightarrow> int \<Rightarrow> abi option \<Rightarrow> mem_values option \<Rightarrow>
     ckpt_manifest option \<Rightarrow> agent_session result" where
  "session_open env path mem_path st vm interval requested initial manifest =
     (let L = sv_layout vm in
      if sp_layout st \<noteq> L then Inl (ValueError ''session memory and VM must use the exact same SpatialLayout'')
      else if mem_path \<noteq> path then Inl (ValueError ''SpatialAgentSession requires memory bound to the executable frame'')
      else
        (case load_resident_snapshot (sn_png env) st of
           (Inl e, st1) \<Rightarrow> Inl e
         | (Inr (f, vs, _, artifact), st1) \<Rightarrow>
             rbind (check_session_abi env L (sp_region st) requested) (\<lambda>a.
             rbind (check_persisted_abi env L a (sget vs ''agent_abi'')) (\<lambda>_.
             rbind (resume_vm env (dset (ascii ''agent_abi'') (json_sval (abi_to_dict a)) vs) initial (sv_vm vm)) (\<lambda>(v, vs1).
             rbind (ckpt_init st1 interval (Some artifact) manifest) (\<lambda>m.
               Inr \<lparr>se_path = path, se_vm = vm\<lparr>sv_vm := v\<rparr>, se_frame = f, se_values = dict_merge (session_metadata L path) vs1,
                    se_manager = m, se_abi = a, se_mailboxes = [], se_has_memory = False, se_closed = False,
                    se_dirty = (sget vs ''agent_abi'' = SNone \<or>
                      list_ex (\<lambda>p. \<not> value_eq (case dget vs1 (fst p) of None \<Rightarrow> SNone | Some x \<Rightarrow> x) (snd p)) (session_metadata L path))\<rparr>))))))"

definition session_mark_dirty :: "agent_session \<Rightarrow> unit result \<times> agent_session" where
  "session_mark_dirty s =
     (case session_ensure_open s of Inl e \<Rightarrow> (Inl e, s) | Inr _ \<Rightarrow> (Inr (), s\<lparr>se_dirty := True\<rparr>))"

text \<open>The memory manager works on the values and the dirty flag of the session.\<close>

definition memory_view :: "agent_session \<Rightarrow> (ustr \<times> (ns_policy + sval)) list option \<Rightarrow> agent_memory result" where
  "memory_view s policies = memory_open (ck_store (se_manager s)) (se_dirty s) (se_values s) policies"

definition with_memory :: "agent_memory \<Rightarrow> agent_session \<Rightarrow> agent_session" where
  "with_memory am s = s\<lparr>se_values := session_values am, se_dirty := am_dirty am\<rparr>"

definition session_memory_manager ::
    "(ustr \<times> (ns_policy + sval)) list option \<Rightarrow> agent_session \<Rightarrow> agent_memory result \<times> agent_session" where
  "session_memory_manager policies s =
     (case session_ensure_open s of
        Inl e \<Rightarrow> (Inl e, s)
      | Inr _ \<Rightarrow>
          if se_has_memory s \<and> policies \<noteq> None
          then (Inl (ValueError ''memory manager is already initialized; policies cannot change mid-session''), s)
          else
            (case memory_view s policies of
               Inl e \<Rightarrow> (Inl e, s)
             | Inr am \<Rightarrow> (Inr am, if se_has_memory s then s else (with_memory am s)\<lparr>se_has_memory := True\<rparr>)))"

section \<open>Waiting for the worker\<close>

definition finish_write :: "session_env \<Rightarrow> ckpt \<Rightarrow> ckpt" where
  "finish_write env m =
     (case ck_writing m of
        None \<Rightarrow> m
      | Some r \<Rightarrow> (case worker_commit (sn_png env) (sn_disk env (rq_id r)) m of None \<Rightarrow> m | Some m' \<Rightarrow> m'))"

definition worker_turn :: "session_env \<Rightarrow> ckpt \<Rightarrow> ckpt" where
  "worker_turn env m = finish_write env (case worker_take m of None \<Rightarrow> m | Some m' \<Rightarrow> m')"

text \<open>The write under way, the pending request, and the stop of a closed manager.\<close>

definition worker_finish :: "session_env \<Rightarrow> ckpt \<Rightarrow> ckpt" where
  "worker_finish env m = worker_turn env (worker_turn env (finish_write env m))"

definition session_submit ::
    "session_env \<Rightarrow> frame \<Rightarrow> mem_values \<Rightarrow> vm_marker \<Rightarrow> bool \<Rightarrow> ckpt \<Rightarrow> (nat result \<times> ckpt) option" where
  "session_submit env f vs mk barrier m =
     (case submit_start (sn_png env) f vs (mk_generation mk) (mk_hash mk) barrier m of
        (Inl e, m1) \<Rightarrow> Some (Inl e, m1)
      | (Inr (r, placed), m1) \<Rightarrow>
          (case (if placed then Some (Inr (), m1) else submit_resume r (worker_finish env m1)) of
             None \<Rightarrow> None
           | Some (Inl e, m2) \<Rightarrow> Some (Inl e, m2)
           | Some (Inr _, m2) \<Rightarrow>
               if \<not> barrier then Some (Inr (rq_id r), m2)
               else
                 (let m3 = worker_finish env m2 in
                  case wait_for_request (rq_id r) False m3 of
                    None \<Rightarrow> None
                  | Some (Inl e) \<Rightarrow> Some (Inl e, m3)
                  | Some (Inr _) \<Rightarrow> Some (Inr (rq_id r), m3))))"

section \<open>Operations\<close>

definition activate_vm :: "session_env \<Rightarrow> agent_session \<Rightarrow> vm result" where
  "activate_vm env s =
     rbind (rbind (member (se_values s) ''vm_checkpoint'') as_dict) (\<lambda>marker.
     rbind (member marker ''generation'') (\<lambda>g.
     rbind (member marker ''checkpoint_hash'') (\<lambda>h.
     (let v = sv_vm (se_vm s); current = checkpoint_marker v in
      if g = SInt (mk_generation current) \<and> h = SStr (ascii (mk_hash current)) then Inr v
      else
        rbind (member (se_values s) ''register_state'') (\<lambda>regs.
        rbind (member (se_values s) ''shared_state'') (\<lambda>sh.
          restore_values (sn_sha env) marker regs sh v))))))"

definition set_vm :: "vm \<Rightarrow> agent_session \<Rightarrow> agent_session" where
  "set_vm v s = s\<lparr>se_vm := (se_vm s)\<lparr>sv_vm := v\<rparr>\<rparr>"

definition resident_state :: "agent_session \<Rightarrow> mem_values" where
  "resident_state s = capture_vm_state (sv_vm (se_vm s)) @ [(ascii ''agent_abi'', json_sval (abi_to_dict (se_abi s)))] @
     session_metadata (sv_layout (se_vm s)) (se_path s)"

definition capture_state :: "agent_session \<Rightarrow> vm_marker \<times> agent_session" where
  "capture_state s = (checkpoint_marker (sv_vm (se_vm s)), s\<lparr>se_values := dict_merge (resident_state s) (se_values s)\<rparr>)"

definition session_generation :: "agent_session \<Rightarrow> int result" where
  "session_generation s =
     rbind (rbind (member (se_values s) ''vm_checkpoint'') as_dict) (\<lambda>marker. rbind (member marker ''generation'') value_int)"

definition session_checkpoint_hash :: "session_env \<Rightarrow> agent_session \<Rightarrow> string result" where
  "session_checkpoint_hash env s =
     rbind (rbind (member (se_values s) ''vm_checkpoint'') as_dict) (\<lambda>marker.
     rbind (member marker ''checkpoint_hash'') (\<lambda>v. Inr (py_str (sn_repr env) (value_json (sn_text env) v))))"

text \<open>Submitting the captured state; the dirty flag is cleared when the submission returned.\<close>

definition submit_state :: "session_env \<Rightarrow> vm_marker \<Rightarrow> bool \<Rightarrow> agent_session \<Rightarrow> (unit result \<times> agent_session) option" where
  "submit_state env mk barrier s =
     (case session_submit env (se_frame s) (se_values s) mk barrier (se_manager s) of
        None \<Rightarrow> None
      | Some (Inl e, m) \<Rightarrow> Some (Inl e, s\<lparr>se_manager := m\<rparr>)
      | Some (Inr _, m) \<Rightarrow> Some (Inr (), s\<lparr>se_manager := m, se_dirty := False\<rparr>))"

definition session_execute :: "session_env \<Rightarrow> agent_session \<Rightarrow> (thread_regs list result \<times> agent_session) option" where
  "session_execute env s =
     (case rbind (session_ensure_open s) (\<lambda>_. activate_vm env s) of
        Inl e \<Rightarrow> Some (Inl e, s)
      | Inr v \<Rightarrow>
          (case execute_spatial_frame (sn_sha env) (sn_load env) (sn_exists env) (se_frame s) (se_vm (set_vm v s)) of
             (Inl e, sv) \<Rightarrow> Some (Inl e, s\<lparr>se_vm := sv\<rparr>)
           | (Inr regs, sv) \<Rightarrow>
               (case capture_state (s\<lparr>se_vm := sv\<rparr>) of
                  (mk, s1) \<Rightarrow>
                    (let s2 = s1\<lparr>se_dirty := True\<rparr> in
                     if due (mk_generation mk) (se_manager s2)
                     then (case submit_state env mk False s2 of
                             None \<Rightarrow> None
                           | Some (Inl e, s3) \<Rightarrow> Some (Inl e, s3)
                           | Some (Inr _, s3) \<Rightarrow> Some (Inr (registers (sv_vm (se_vm s3))), s3))
                     else Some (Inr (registers (sv_vm (se_vm s2))), s2)))))"

definition session_checkpoint :: "session_env \<Rightarrow> bool \<Rightarrow> agent_session \<Rightarrow> (vm_marker result \<times> agent_session) option" where
  "session_checkpoint env barrier s =
     (case rbind (session_ensure_open s) (\<lambda>_. activate_vm env s) of
        Inl e \<Rightarrow> Some (Inl e, s)
      | Inr v \<Rightarrow>
          (case capture_state (set_vm v s) of
             (mk, s1) \<Rightarrow>
               (case submit_state env mk barrier s1 of
                  None \<Rightarrow> None
                | Some (Inl e, s2) \<Rightarrow> Some (Inl e, s2)
                | Some (Inr _, s2) \<Rightarrow> Some (Inr mk, s2))))"

definition session_mailbox :: "string \<Rightarrow> int \<Rightarrow> agent_session \<Rightarrow> (mailbox \<times> agent_session) result" where
  "session_mailbox role slot_size s =
     rbind (session_ensure_open s) (\<lambda>_.
       if role \<noteq> ''mailbox_in'' \<and> role \<noteq> ''mailbox_out'' then Inl (ValueError ''mailbox role must be mailbox_in or mailbox_out'')
       else
         rbind (require_region (se_abi s) role) (\<lambda>region.
           case dget (se_mailboxes s) role of
             None \<Rightarrow>
               rbind (mailbox_init (se_frame s) region slot_size) (\<lambda>(mb, f).
                 Inr (mb, s\<lparr>se_frame := f, se_mailboxes := dset role mb (se_mailboxes s), se_dirty := True\<rparr>))
           | Some mb \<Rightarrow>
               if int (mb_slot_size mb) \<noteq> slot_size then Inl (ValueError ''mailbox already opened with a different slot size'')
               else Inr (mb, s)))"

text \<open>A failing \<open>send\<close> or \<open>receive\<close> keeps the mailbox it may have opened.\<close>

definition session_send :: "session_env \<Rightarrow> string \<Rightarrow> post \<Rightarrow> agent_session \<Rightarrow> message result \<times> agent_session" where
  "session_send env role p s =
     (case session_mailbox role 256 s of
        Inl e \<Rightarrow> (Inl e, s)
      | Inr (mb, s1) \<Rightarrow>
          (case enqueue (sn_sha env) mb p (se_frame s1) of
             Inl e \<Rightarrow> (Inl e, s1)
           | Inr (msg, f) \<Rightarrow> (Inr msg, s1\<lparr>se_frame := f, se_dirty := True\<rparr>)))"

definition session_receive :: "session_env \<Rightarrow> string \<Rightarrow> agent_session \<Rightarrow> message option result \<times> agent_session" where
  "session_receive env role s =
     (case session_mailbox role 256 s of
        Inl e \<Rightarrow> (Inl e, s)
      | Inr (mb, s1) \<Rightarrow>
          (case dequeue (sn_sha env) mb (se_frame s1) of
             Inl e \<Rightarrow> (Inl e, s1)
           | Inr (None, f) \<Rightarrow> (Inr None, s1)
           | Inr (Some msg, f) \<Rightarrow> (Inr (Some msg), s1\<lparr>se_frame := f, se_dirty := True\<rparr>)))"

text \<open>\<open>flush\<close> and \<open>close\<close> without a timeout.\<close>

definition session_flush :: "session_env \<Rightarrow> agent_session \<Rightarrow> (bool result \<times> agent_session) option" where
  "session_flush env s =
     (case session_ensure_open s of
        Inl e \<Rightarrow> Some (Inl e, s)
      | Inr _ \<Rightarrow>
          (case (if se_dirty s then session_checkpoint env True s else Some (Inr (checkpoint_marker (sv_vm (se_vm s))), s)) of
             None \<Rightarrow> None
           | Some (Inl e, s1) \<Rightarrow> Some (Inl e, s1)
           | Some (Inr _, s1) \<Rightarrow>
               (let m = worker_finish env (se_manager s1) in
                case ckpt_flush (ck_submitted (se_manager s1)) False m of
                  None \<Rightarrow> None
                | Some res \<Rightarrow> Some (res, s1\<lparr>se_manager := m\<rparr>))))"

definition close_manager :: "session_env \<Rightarrow> bool \<Rightarrow> ckpt \<Rightarrow> (unit result \<times> ckpt) option" where
  "close_manager env flush m =
     (let m1 = (if flush then worker_finish env m else m) in
      case (if flush then ckpt_flush (ck_submitted m) False m1 else Some (Inr True)) of
        None \<Rightarrow> None
      | Some (Inl e) \<Rightarrow> Some (Inl e, m1)
      | Some (Inr _) \<Rightarrow>
          (let m2 = worker_finish env (ckpt_close m1) in
           case close_outcome False m2 of None \<Rightarrow> None | Some res \<Rightarrow> Some (res, m2)))"

definition session_close :: "session_env \<Rightarrow> bool \<Rightarrow> agent_session \<Rightarrow> (unit result \<times> agent_session) option" where
  "session_close env flush s =
     (if se_closed s then Some (Inr (), s)
      else
        (case (if flush \<and> se_dirty s then session_checkpoint env True s else Some (Inr (checkpoint_marker (sv_vm (se_vm s))), s)) of
           None \<Rightarrow> None
         | Some (Inl e, s1) \<Rightarrow> Some (Inl e, s1)
         | Some (Inr _, s1) \<Rightarrow>
             (case close_manager env flush (se_manager s1) of
                None \<Rightarrow> None
              | Some (Inl e, m) \<Rightarrow> Some (Inl e, s1\<lparr>se_manager := m\<rparr>)
              | Some (Inr _, m) \<Rightarrow> Some (Inr (), s1\<lparr>se_manager := m, se_closed := True, se_mailboxes := [], se_has_memory := False\<rparr>))))"

text \<open>A step of the worker thread between two operations.\<close>

definition session_worker :: "session_env \<Rightarrow> agent_session \<Rightarrow> agent_session" where
  "session_worker env s =
     s\<lparr>se_manager := (if ck_writing (se_manager s) = None then (case worker_take (se_manager s) of None \<Rightarrow> se_manager s | Some m \<Rightarrow> m)
                      else finish_write env (se_manager s))\<rparr>"

section \<open>Stored machine state\<close>

lemma char_ascii [simp]: "map char_of (ascii s) = s"
  by (simp add: ascii_def comp_def)

lemma ascii_le: "ascii s \<le> ascii t \<longleftrightarrow> s \<le> t"
proof (induction s arbitrary: t)
  case (Cons c s)
  then show ?case by (cases t) (auto simp: ascii_def less_char_def)
qed (simp add: ascii_def)

lemma json_utext_ascii: "json_utext (ascii s) = json_string s"
proof -
  have "json_code (of_char c) = json_char c" for c :: char
    by (simp add: json_code_def)
  then show ?thesis by (simp add: json_utext_def json_string_def ascii_def comp_def)
qed

text \<open>A dictionary whose values are stored as such, in key order.\<close>

definition entries :: "('v \<Rightarrow> sval) \<Rightarrow> (string, 'v) dict \<Rightarrow> (ustr \<times> sval) list" where
  "entries g d = map (\<lambda>p. (ascii (fst p), g (snd p))) d"

lemma sort_entries: "sort_key fst (entries g d) = entries g (sort_key fst d)"
  unfolding entries_def by (rule sort_key_map) (simp add: ascii_le)

lemma canon_entries: "(\<And>v. canon (g v) = g v) \<Longrightarrow> canon_values (entries g d) = entries g (sort_key fst d)"
  unfolding canon_values_def sort_entries by (simp add: entries_def)

lemma dget_entries: "dget (entries g d) (ascii k) = map_option g (dget d k)"
  by (induction d) (auto simp: entries_def)

lemma dkeys_entries: "dkeys (entries g d) = ascii ` dkeys d"
  by (simp add: entries_def image_image)

lemma sort_key_sort [simp]: "sort_key f (sort_key f xs) = sort_key f xs"
  by (rule sort_key_sorted) simp

lemma int_members_entries: "int_members (entries SInt d) = Inr (map (\<lambda>p. (ascii (fst p), int_str (snd p))) d)"
  by (induction d) (auto simp: entries_def)

lemma regs_text:
  "int_members (sort_key fst (entries SInt [(''A'', a), (''B'', b), (''OUT'', c), (''T'', t)])) =
     Inr [(ascii ''A'', int_str a), (ascii ''B'', int_str b), (ascii ''OUT'', int_str c), (ascii ''T'', int_str t)]"
  "canon (regs_value r) = regs_value r"
proof -
  have "sort_key fst [(''A'', a), (''B'', b), (''OUT'', c), (''T'', t)] = [(''A'', a), (''B'', b), (''OUT'', c), (''T'', t)]"
    by (rule sort_key_sorted) (simp add: less_char_def)
  then show "int_members (sort_key fst (entries SInt [(''A'', a), (''B'', b), (''OUT'', c), (''T'', t)])) =
     Inr [(ascii ''A'', int_str a), (ascii ''B'', int_str b), (ascii ''OUT'', int_str c), (ascii ''T'', int_str t)]"
    unfolding sort_entries by (simp add: int_members_entries)
  have "sort_key fst [(''A'', reg_A r), (''B'', reg_B r), (''OUT'', reg_OUT r), (''T'', reg_T r)] =
      [(''A'', reg_A r), (''B'', reg_B r), (''OUT'', reg_OUT r), (''T'', reg_T r)]"
    by (rule sort_key_sorted) (simp add: less_char_def)
  moreover have "regs_value r = SDict (entries SInt [(''A'', reg_A r), (''B'', reg_B r), (''OUT'', reg_OUT r), (''T'', reg_T r)])"
    by (simp add: regs_value_def entries_def)
  ultimately show "canon (regs_value r) = regs_value r"
    by (simp only: canon_dict) (simp add: canon_entries)
qed

abbreviation captured_regs :: "vm \<Rightarrow> (ustr \<times> sval) list" where
  "captured_regs v \<equiv> entries regs_value (registers_dict (registers v))"

abbreviation captured_shared :: "vm \<Rightarrow> (ustr \<times> sval) list" where
  "captured_shared v \<equiv> entries SInt (shared_dict (shared v))"

lemma capture_eq: "capture_vm_state v =
    [(ascii ''vm_checkpoint'', marker_value (checkpoint_marker v)), (ascii ''register_state'', SDict (captured_regs v)),
     (ascii ''shared_state'', SDict (captured_shared v))]"
  by (simp add: capture_vm_state_def entries_def)

lemma json_members_dumps:
  assumes "sort_key fst kvs = kvs" "list_all2 (\<lambda>p q. fst q = ascii (fst p) \<and> snd q = json_dumps (snd p)) kvs ms"
  shows "json_members ms = json_dumps (JObj kvs)"
proof -
  have "map (\<lambda>p. json_utext (fst p) @ '':'' @ snd p) ms = map (\<lambda>p. json_string (fst p) @ '':'' @ json_dumps (snd p)) kvs"
    using assms(2) by (induction rule: list_all2_induct) (simp_all add: json_utext_ascii)
  with assms(1) show ?thesis by (simp add: json_members_def)
qed

lemma register_members_entries:
  "register_members (entries regs_value d) = Inr (map (\<lambda>p. (ascii (fst p), json_dumps (regs_json (snd p)))) d)"
proof (induction d)
  case (Cons p d)
  obtain k r where p: "p = (k, r)" by fastforce
  let ?kvs = "[(''A'', reg_A r), (''B'', reg_B r), (''OUT'', reg_OUT r), (''T'', reg_T r)]"
  have v: "regs_value r = SDict (entries SInt ?kvs)" by (simp add: regs_value_def entries_def)
  have "sort_key fst [(''A'', JInt (reg_A r)), (''B'', JInt (reg_B r)), (''OUT'', JInt (reg_OUT r)), (''T'', JInt (reg_T r))] =
      [(''A'', JInt (reg_A r)), (''B'', JInt (reg_B r)), (''OUT'', JInt (reg_OUT r)), (''T'', JInt (reg_T r))]"
    by (rule sort_key_sorted) (simp add: less_char_def)
  then have "json_members [(ascii ''A'', int_str (reg_A r)), (ascii ''B'', int_str (reg_B r)), (ascii ''OUT'', int_str (reg_OUT r)),
      (ascii ''T'', int_str (reg_T r))] = json_dumps (regs_json r)"
    unfolding regs_json_def by (intro json_members_dumps) simp_all
  moreover have "entries regs_value (p # d) = (ascii k, SDict (entries SInt ?kvs)) # entries regs_value d"
    by (simp add: p v entries_def)
  ultimately show ?case using Cons regs_text(1) [of "reg_A r" "reg_B r" "reg_OUT r" "reg_T r"]
    by (simp del: json_dumps.simps) (simp add: p)
qed (simp add: entries_def)

text \<open>The hash of a document with the captured state is the machine's own, whatever the order of the entries.\<close>

lemma document_hash_captured:
  assumes "sort_key fst regs = sort_key fst (captured_regs v)" "sort_key fst sh = sort_key fst (captured_shared v)"
  shows "document_hash sha (SInt (int (execution_generation v))) (SInt (clock v)) regs sh = Inr (vm_hash sha v)"
proof -
  let ?rs = "sort_key fst (registers_dict (registers v))" and ?ms = "sort_key fst (shared_dict (shared v))"
  let ?rj = "JObj (map (\<lambda>(n, r). (n, regs_json r)) ?rs)" and ?sj = "JObj (map (\<lambda>(n, v). (n, JInt v)) ?ms)"
  have sorted: "sort_key fst (map (\<lambda>(n, x). (n, g x)) (sort_key fst d)) = map (\<lambda>(n, x). (n, g x)) (sort_key fst d)"
    for g :: "'a \<Rightarrow> json" and d :: "(string \<times> 'a) list"
    by (rule sort_key_sorted) (simp add: comp_def split_def)
  have r: "json_members (map (\<lambda>p. (ascii (fst p), json_dumps (regs_json (snd p)))) ?rs) = json_dumps ?rj"
    by (rule json_members_dumps [OF sorted]) (simp add: list_all2_conv_all_nth split_def)
  have s: "json_members (map (\<lambda>p. (ascii (fst p), int_str (snd p))) ?ms) = json_dumps ?sj"
    by (rule json_members_dumps [OF sorted]) (simp add: list_all2_conv_all_nth split_def)
  have top: "sort_key fst [(''generation'', JInt g), (''clock'', JInt c), (''registers'', x), (''shared'', y)] =
      [(''clock'', JInt c), (''generation'', JInt g), (''registers'', x), (''shared'', y)]" for g c x y
    by (simp add: less_char_def)
  have "json_members [(ascii ''clock'', int_str (clock v)), (ascii ''generation'', int_str (int (execution_generation v))),
      (ascii ''registers'', json_dumps ?rj), (ascii ''shared'', json_dumps ?sj)] =
      json_dumps (JObj [(''clock'', JInt (clock v)), (''generation'', JInt (int (execution_generation v))), (''registers'', ?rj), (''shared'', ?sj)])"
    by (rule json_members_dumps) (simp_all add: less_char_def del: json_dumps.simps(6))
  also have "\<dots> = json_dumps (checkpoint_payload (int (execution_generation v)) (clock v) (registers_dict (registers v)) (shared_dict (shared v)))"
    unfolding checkpoint_payload_def json_dumps.simps(6) [of "_ # _"] top by (simp add: less_char_def)
  finally show ?thesis
    unfolding document_hash_def assms sort_entries register_members_entries int_members_entries
    by (simp add: r s vm_hash_def del: json_dumps.simps)
qed

text \<open>The document \<open>vs\<close> holds the state of the machine \<open>v\<close>, in any order of its entries.\<close>

definition carries :: "mem_values \<Rightarrow> vm \<Rightarrow> bool" where
  "carries vs v \<longleftrightarrow> (\<exists>marker regs sh.
     dget vs (ascii ''vm_checkpoint'') = Some (SDict marker) \<and> dget vs (ascii ''register_state'') = Some (SDict regs) \<and>
     dget vs (ascii ''shared_state'') = Some (SDict sh) \<and>
     dget marker (ascii ''generation'') = Some (SInt (int (execution_generation v))) \<and>
     dget marker (ascii ''clock'') = Some (SInt (clock v)) \<and>
     dget marker (ascii ''checkpoint_hash'') = Some (SStr (ascii (last_checkpoint_hash v))) \<and>
     sort_key fst regs = sort_key fst (captured_regs v) \<and> sort_key fst sh = sort_key fst (captured_shared v))"

lemma carries_hash: "carries vs v \<Longrightarrow> checkpoint_hash_from_memory sha vs = Inr (vm_hash sha v)"
  by (auto simp: carries_def checkpoint_hash_from_memory_def sget_def document_hash_captured)

lemma same_entries:
  fixes xs ys :: "(ustr \<times> sval) list"
  assumes "sort_key fst xs = sort_key fst ys" "distinct (map fst ys)"
  shows "dget xs k = dget ys k" "dkeys xs = dkeys ys"
proof -
  have m: "mset xs = mset ys" using assms(1) by (metis mset_sort)
  then have "mset (map fst xs) = mset (map fst ys)" by simp
  then have "distinct (map fst xs)" using assms(2) by (metis mset_eq_imp_distinct_iff)
  moreover have "set xs = set ys" using m by (metis set_mset_mset)
  ultimately have "map_of xs = map_of ys" using assms(2) by (simp add: map_of_inject_set)
  then show "dget xs k = dget ys k" by simp
  show "dkeys xs = dkeys ys" using \<open>set xs = set ys\<close> by simp
qed

lemma collect_Inr: "(\<And>i. i \<in> set is \<Longrightarrow> f i = Inr (g i)) \<Longrightarrow> collect f is = Inr (map g is)"
  by (induction "is") auto

lemma value_regs_value: "value_regs (regs_value r) = Inr r"
  by (simp add: value_regs_def regs_value_def as_dict_def member_def)

lemma distinct_ascii: "distinct (map ascii xs) = distinct xs"
  by (simp add: distinct_map inj_on_def)

lemma entries_keys: "map fst (entries g d) = map ascii (map fst d)"
  by (simp add: entries_def)

lemma captured_distinct: "distinct (map fst (captured_regs v))" "distinct (map fst (captured_shared v))"
  unfolding entries_keys distinct_ascii by (simp_all add: registers_dict_def shared_dict_def comp_def distinct_map inj_on_def)

lemma captured_lookup:
  "i < length (registers v) \<Longrightarrow> dget (captured_regs v) (ascii (thread_name i)) = Some (regs_value (registers v ! i))"
  "i < length (shared v) \<Longrightarrow> dget (captured_shared v) (ascii (slot_name i)) = Some (SInt (shared v ! i))"
  by (simp_all add: dget_entries)

lemma carries_restore:
  assumes "last_checkpoint_hash v = vm_hash sha v" "length (registers v) = threads w" "length (shared v) = length (shared w)"
    and "dget marker (ascii ''generation'') = Some (SInt (int (execution_generation v)))" "dget marker (ascii ''clock'') = Some (SInt (clock v))"
    and "dget marker (ascii ''checkpoint_hash'') = Some (SStr (ascii (last_checkpoint_hash v)))"
    and s: "sort_key fst regs = sort_key fst (captured_regs v)" "sort_key fst sh = sort_key fst (captured_shared v)"
  shows "restore_values sha marker (SDict regs) (SDict sh) w =
    Inr (w\<lparr>registers := registers v, shared := shared v, execution_generation := execution_generation v, clock := clock v,
      last_checkpoint_hash := last_checkpoint_hash v\<rparr>)"
proof -
  note d = same_entries [OF s(1) captured_distinct(1)] same_entries [OF s(2) captured_distinct(2)]
  have rs: "collect (\<lambda>i. rbind (member regs (thread_name i)) value_regs) [0..<threads w] = Inr (map (\<lambda>i. registers v ! i) [0..<threads w])"
    by (rule collect_Inr) (simp add: member_def d captured_lookup value_regs_value flip: assms(2))
  have ms: "collect (\<lambda>i. rbind (member sh (slot_name i)) value_int) [0..<length (shared w)] = Inr (map (\<lambda>i. shared v ! i) [0..<length (shared w)])"
    by (rule collect_Inr) (simp add: member_def d captured_lookup flip: assms(3))
  have keys: "dkeys regs = ascii ` thread_name ` {0..<threads w}" "dkeys sh = ascii ` slot_name ` {0..<length (shared w)}"
    unfolding d dkeys_entries by (simp_all add: registers_dict_def shared_dict_def image_image flip: assms(2,3))
  have "map (\<lambda>i. registers v ! i) [0..<threads w] = registers v" "map (\<lambda>i. shared v ! i) [0..<length (shared w)] = shared v"
    by (simp_all add: map_nth flip: assms(2,3))
  with rs ms keys show ?thesis
    using assms(1,4-6) document_hash_captured [OF s, of sha]
    by (simp add: restore_values_def member_def as_dict_def)
qed

lemma dget_dict_merge:
  "distinct (map fst new) \<Longrightarrow> dget (dict_merge new d) k = (case dget new k of Some x \<Rightarrow> Some x | None \<Rightarrow> dget d k)"
proof (induction new arbitrary: d)
  case (Cons p new)
  then have "dget (dict_merge (p # new) d) k = (case dget new k of Some x \<Rightarrow> Some x | None \<Rightarrow> dget (dset (fst p) (snd p) d) k)"
    by (simp add: dict_merge_def)
  moreover have "k = fst p \<Longrightarrow> dget new k = None" using Cons.prems by (simp add: dget_None_iff)
  ultimately show ?case by (auto split: option.splits)
qed (simp add: dict_merge_def)

lemma sval_ok_merge: "sval_ok (SDict d) \<Longrightarrow> list_all (\<lambda>p. sval_ok (snd p)) new \<Longrightarrow> sval_ok (SDict (dict_merge new d))"
proof (induction new arbitrary: d)
  case (Cons p new)
  then show ?case using sval_ok_dset [of d "snd p" "fst p"] by (simp add: dict_merge_def del: sval_ok.simps)
qed (simp add: dict_merge_def)

lemma carries_lookups:
  assumes "\<And>k. k \<in> {''vm_checkpoint'', ''register_state'', ''shared_state''} \<Longrightarrow> dget vs' (ascii k) = dget vs (ascii k)"
  shows "carries vs v \<Longrightarrow> carries vs' v"
  using assms unfolding carries_def by simp

lemma carries_dset: "carries vs v \<Longrightarrow> k \<notin> {''vm_checkpoint'', ''register_state'', ''shared_state''} \<Longrightarrow> carries (dset (ascii k) x vs) v"
  by (erule carries_lookups [rotated]) auto

lemma resident_keys: "map fst (resident_state s) = map ascii [''vm_checkpoint'', ''register_state'', ''shared_state'', ''agent_abi'',
    ''spatial_layout'', ''source_frame'']"
  by (simp add: resident_state_def capture_eq session_metadata_def)

lemma resident_distinct: "distinct (map fst (resident_state s))"
  unfolding resident_keys distinct_ascii by simp

lemma resident_lookup:
  "dget (resident_state s) (ascii ''vm_checkpoint'') = Some (marker_value (checkpoint_marker (sv_vm (se_vm s))))"
  "dget (resident_state s) (ascii ''register_state'') = Some (SDict (captured_regs (sv_vm (se_vm s))))"
  "dget (resident_state s) (ascii ''shared_state'') = Some (SDict (captured_shared (sv_vm (se_vm s))))"
  "dget (resident_state s) (ascii ''agent_abi'') = Some (json_sval (abi_to_dict (se_abi s)))"
  by (simp_all add: resident_state_def capture_eq)

lemma carries_captured: "carries (dict_merge (resident_state s) vs) (sv_vm (se_vm s))"
  unfolding carries_def dget_dict_merge [OF resident_distinct] resident_lookup
  by (simp add: marker_value_def checkpoint_marker_def)

lemma carries_canon:
  assumes "sval_ok (SDict vs)" "carries vs v"
  shows "carries (canon_values vs) v"
proof -
  obtain marker regs sh where c: "dget vs (ascii ''vm_checkpoint'') = Some (SDict marker)"
      "dget vs (ascii ''register_state'') = Some (SDict regs)" "dget vs (ascii ''shared_state'') = Some (SDict sh)"
      "dget marker (ascii ''generation'') = Some (SInt (int (execution_generation v)))"
      "dget marker (ascii ''clock'') = Some (SInt (clock v))"
      "dget marker (ascii ''checkpoint_hash'') = Some (SStr (ascii (last_checkpoint_hash v)))"
      "sort_key fst regs = sort_key fst (captured_regs v)" "sort_key fst sh = sort_key fst (captured_shared v)"
    using assms(2) unfolding carries_def by blast
  have "distinct (map fst vs)" using assms(1) by simp
  note top = dget_canon_values [OF this]
  have "sval_ok (SDict marker)"
    using assms(1) map_of_SomeD [OF c(1)] unfolding sval_ok.simps(2) [of vs] list_all_iff by (metis snd_conv)
  then have "distinct (map fst marker)" by simp
  note mk = dget_canon_values [OF this]
  have "canon_values regs = sort_key fst (captured_regs v)" "canon_values sh = sort_key fst (captured_shared v)"
    unfolding canon_values_def c(7,8) sort_entries by (simp_all add: entries_def regs_text(2))
  then show ?thesis
    unfolding carries_def by (simp add: top mk c canon_dict del: canon.simps(2))
qed

lemma sval_ok_layout: "sval_ok (json_sval (layout_to_dict L))"
  by (simp add: layout_to_dict_def region_to_json_def list_all_iff)

lemma dict_ok_fold: "dict_ok d \<Longrightarrow> dict_ok (fold (\<lambda>x d. dset (f x) (g x) d) xs d)"
  by (induction xs arbitrary: d) simp_all

lemma dict_values_fold: "\<forall>p \<in> set d. P (snd p) \<Longrightarrow> \<forall>x \<in> set xs. P (g x) \<Longrightarrow> \<forall>p \<in> set (fold (\<lambda>x d. dset (f x) (g x) d) xs d). P (snd p)"
proof (induction xs arbitrary: d)
  case (Cons x xs)
  have "\<forall>p \<in> set (dset (f x) (g x) d). P (snd p)" using set_dset_subset [of "f x" "g x" d] Cons.prems by auto
  with Cons show ?case by simp
qed simp

lemma sval_ok_abi: "sval_ok (json_sval (abi_to_dict a))"
proof -
  let ?d = "fold (\<lambda>b d. dset (b_role b) (JStr (b_region b)) d) (abi_bindings a) []"
  have "distinct (map fst ?d)" using dict_ok_fold [of "[]" b_role "\<lambda>b. JStr (b_region b)"] by (simp add: dict_ok_def)
  then have "distinct (map (ascii \<circ> fst) ?d)" using distinct_ascii [of "map fst ?d"] by (simp add: comp_def)
  moreover have "\<forall>p \<in> set ?d. sval_ok (json_sval (snd p))"
    using dict_values_fold [of "[]" "\<lambda>j. sval_ok (json_sval j)" "abi_bindings a" "\<lambda>b. JStr (b_region b)" b_role] by simp
  ultimately show ?thesis by (simp add: abi_to_dict_def list_all_iff comp_def)
qed

lemma captured_ok: "sval_ok (SDict (captured_regs v))" "sval_ok (SDict (captured_shared v))"
  using captured_distinct [of v] by (auto simp: entries_def list_all_iff regs_value_def)

lemma resident_ok: "list_all (\<lambda>p. sval_ok (snd p)) (resident_state s)"
proof -
  show ?thesis
    by (simp add: captured_ok resident_state_def capture_eq session_metadata_def marker_value_def sval_ok_layout sval_ok_abi del: sval_ok.simps(2))
      simp
qed

section \<open>The worker under a barrier\<close>

text \<open>Every request the manager knows was drawn before \<open>n\<close>.\<close>

definition ids_below :: "nat \<Rightarrow> ckpt \<Rightarrow> bool" where
  "ids_below n m \<longleftrightarrow> ck_committed m < n \<and> (\<forall>r. ck_writing m = Some r \<longrightarrow> rq_id r < n) \<and> (\<forall>r. ck_pending m = Some r \<longrightarrow> rq_id r < n)"

lemma finish_write_idle: "ck_writing m = None \<Longrightarrow> finish_write env m = m"
  by (simp add: finish_write_def)

lemma worker_commit_frame:
  assumes "worker_commit env saved m = Some m'" "ck_writing m = Some r"
  shows "ck_writing m' = None" "ck_pending m' = ck_pending m" "ck_closed m' = ck_closed m" "ck_next m' = ck_next m"
    "sp_layout (ck_store m') = sp_layout (ck_store m)" "sp_region (ck_store m') = sp_region (ck_store m)" "ck_committed m' = ck_committed m \<or> ck_committed m' = rq_id r"
proof -
  obtain res st where s: "commit_snapshot env (rq_frame r) (rq_values r) (nat (rq_generation r)) (rq_hash r) (ck_artifact m) (ck_store m) = (res, st)"
    by (meson surj_pair)
  have "sp_layout st = sp_layout (ck_store m)" "sp_region st = sp_region (ck_store m)"
    by (cases rule: commit_snapshot_cases [OF s]; simp add: atomic_write_bytes_def)+
  then show "ck_writing m' = None" "ck_pending m' = ck_pending m" "ck_closed m' = ck_closed m" "ck_next m' = ck_next m"
    "sp_layout (ck_store m') = sp_layout (ck_store m)" "sp_region (ck_store m') = sp_region (ck_store m)" "ck_committed m' = ck_committed m \<or> ck_committed m' = rq_id r"
    using assms(1) unfolding worker_commit_def worker_write_def assms(2) option.case s
    by (auto split: sum.splits)
qed

lemma finish_write_frame:
  shows "ck_writing (finish_write env m) = None" "ck_pending (finish_write env m) = ck_pending m"
    "ck_closed (finish_write env m) = ck_closed m" "ck_next (finish_write env m) = ck_next m"
    "sp_layout (ck_store (finish_write env m)) = sp_layout (ck_store m)" "sp_region (ck_store (finish_write env m)) = sp_region (ck_store m)"
    "ids_below n m \<Longrightarrow> ids_below n (finish_write env m)"
proof -
  have "ck_writing (finish_write env m) = None \<and> ck_pending (finish_write env m) = ck_pending m \<and>
    ck_closed (finish_write env m) = ck_closed m \<and> ck_next (finish_write env m) = ck_next m \<and>
    sp_layout (ck_store (finish_write env m)) = sp_layout (ck_store m) \<and> sp_region (ck_store (finish_write env m)) = sp_region (ck_store m) \<and> (ids_below n m \<longrightarrow> ids_below n (finish_write env m))"
  proof (cases "ck_writing m")
    case None
    then show ?thesis by (simp add: finish_write_idle)
  next
    case (Some r)
    then obtain m' where m': "worker_commit (sn_png env) (sn_disk env (rq_id r)) m = Some m'" by (simp add: worker_commit_def)
    with Some have "finish_write env m = m'" by (simp add: finish_write_def)
    with worker_commit_frame [OF m' Some] Some show ?thesis by (auto simp: ids_below_def)
  qed
  then show "ck_writing (finish_write env m) = None" "ck_pending (finish_write env m) = ck_pending m"
    "ck_closed (finish_write env m) = ck_closed m" "ck_next (finish_write env m) = ck_next m"
    "sp_layout (ck_store (finish_write env m)) = sp_layout (ck_store m)" "sp_region (ck_store (finish_write env m)) = sp_region (ck_store m)"
    "ids_below n m \<Longrightarrow> ids_below n (finish_write env m)" by blast+
qed

lemma worker_turn_frame:
  "ck_writing (worker_turn env m) = None" "ck_next (worker_turn env m) = ck_next m"
  "sp_layout (ck_store (worker_turn env m)) = sp_layout (ck_store m)" "sp_region (ck_store (worker_turn env m)) = sp_region (ck_store m)" "ck_closed (worker_turn env m) = ck_closed m"
  "ids_below n m \<Longrightarrow> ids_below n (worker_turn env m)"
proof -
  have "ck_next (case worker_take m of None \<Rightarrow> m | Some m' \<Rightarrow> m') = ck_next m \<and> ck_store (case worker_take m of None \<Rightarrow> m | Some m' \<Rightarrow> m') = ck_store m \<and>
    ck_closed (case worker_take m of None \<Rightarrow> m | Some m' \<Rightarrow> m') = ck_closed m \<and>
    (ids_below n m \<longrightarrow> ids_below n (case worker_take m of None \<Rightarrow> m | Some m' \<Rightarrow> m'))"
    by (auto simp: worker_take_def ids_below_def split: option.splits)
  then show "ck_writing (worker_turn env m) = None" "ck_next (worker_turn env m) = ck_next m"
    "sp_layout (ck_store (worker_turn env m)) = sp_layout (ck_store m)" "sp_region (ck_store (worker_turn env m)) = sp_region (ck_store m)" "ck_closed (worker_turn env m) = ck_closed m"
    "ids_below n m \<Longrightarrow> ids_below n (worker_turn env m)"
    using finish_write_frame unfolding worker_turn_def by metis+
qed

lemma worker_finish_frame:
  "ck_writing (worker_finish env m) = None" "ck_next (worker_finish env m) = ck_next m"
  "sp_layout (ck_store (worker_finish env m)) = sp_layout (ck_store m)" "sp_region (ck_store (worker_finish env m)) = sp_region (ck_store m)"
  "ids_below n m \<Longrightarrow> ids_below n (worker_finish env m)"
  by (simp_all add: worker_finish_def worker_turn_frame finish_write_frame)

lemma worker_turn_stopped: "ck_stopped m \<Longrightarrow> ck_writing m = None \<Longrightarrow> worker_turn env m = m"
  by (simp add: worker_turn_def worker_take_def finish_write_idle)

text \<open>With nothing pending a turn at most stops the worker.\<close>

lemma worker_turn_idle:
  assumes "ck_writing m = None" "ck_pending m = None"
  shows "ck_store (worker_turn env m) = ck_store m" "ck_error (worker_turn env m) = ck_error m"
    "ck_committed (worker_turn env m) = ck_committed m"
  using assms by (auto simp: worker_turn_def worker_take_def finish_write_idle)

lemma worker_finish_barrier:
  assumes env: "sha_ok (sn_png env)" "png_lossless (sn_png env) (sp_layout (ck_store m))"
    and r: "ck_pending m = Some r" "request_ok (sp_layout (ck_store m)) r" "ck_committed m < rq_id r"
      "\<And>w. ck_writing m = Some w \<Longrightarrow> rq_id w < rq_id r"
    and w: "wait_for_request (rq_id r) False (worker_finish env m) = Some (Inr x)"
  shows "on_disk (sn_png env) (ck_store (worker_finish env m)) r \<and> x"
proof -
  let ?m1 = "finish_write env m"
  have m1: "ck_writing ?m1 = None" "ck_pending ?m1 = Some r" "sp_layout (ck_store ?m1) = sp_layout (ck_store m)"
    using finish_write_frame r(1) by simp_all
  have c1: "ck_committed ?m1 < rq_id r"
  proof (cases "ck_writing m")
    case (Some q)
    then obtain m' where "worker_commit (sn_png env) (sn_disk env (rq_id q)) m = Some m'" by (simp add: worker_commit_def)
    with Some worker_commit_frame(7) [OF this Some] r(3) r(4) [OF Some] show ?thesis by (auto simp: finish_write_def)
  qed (use r(3) in \<open>simp add: finish_write_idle\<close>)
  have res: "ck_error (worker_finish env m) = None" "rq_id r \<le> ck_committed (worker_finish env m)" "x"
    using w by (auto simp: wait_for_request_def wait_outcome_def split: if_splits)
  have "\<not> ck_stopped ?m1"
  proof
    assume "ck_stopped ?m1"
    then have "worker_finish env m = ?m1" using worker_turn_stopped m1(1) by (simp add: worker_finish_def)
    then show False using res(2) c1 by simp
  qed
  let ?m2 = "?m1\<lparr>ck_writing := Some r, ck_pending := None\<rparr>"
  have "worker_turn env ?m1 = finish_write env ?m2"
    using m1 \<open>\<not> ck_stopped ?m1\<close> by (simp add: worker_turn_def worker_take_def)
  moreover obtain m3 where m3: "worker_commit (sn_png env) (sn_disk env (rq_id r)) ?m2 = Some m3" by (simp add: worker_commit_def)
  ultimately have t: "worker_turn env ?m1 = m3" by (simp add: finish_write_def)
  have lay: "sp_layout (ck_store ?m2) = sp_layout (ck_store m)" using m1(3) by simp
  from worker_commit_spec [OF env(1) _ _ m3, unfolded lay, OF env(2) r(2)] have
    c3: "ck_writing m3 = None" "ck_pending m3 = None" "ck_error m3 \<noteq> None \<or> on_disk (sn_png env) (ck_store m3) r" by auto
  then show ?thesis using res worker_turn_idle [OF c3(1,2), of env] t by (simp add: worker_finish_def)
qed

lemma session_submit_durable:
  assumes env: "sha_ok (sn_png env)" "png_lossless (sn_png env) (sp_layout (ck_store m))"
    and f: "frame_ok f" "f_layout f = sp_layout (ck_store m)" "sval_ok (SDict vs)" "ids_below (ck_next m) m"
    and s: "session_submit env f vs mk True m = Some (Inr i, m')"
  shows "(\<exists>g. holds (sn_png env) (ck_store m') (canon_values vs) g) \<and> checkpoint_hash_from_memory (sn_sha env) vs = Inr (mk_hash mk) \<and>
    sp_layout (ck_store m') = sp_layout (ck_store m) \<and> sp_region (ck_store m') = sp_region (ck_store m)"
proof -
  obtain r placed m1 where st: "submit_start (sn_png env) f vs (mk_generation mk) (mk_hash mk) True m = (Inr (r, placed), m1)"
    using s by (auto simp: session_submit_def split: prod.splits sum.splits)
  have hash: "checkpoint_hash_from_memory (sn_sha env) vs = Inr (mk_hash mk)"
    using st by (auto simp: submit_start_def split: sum.splits if_splits)
  have r: "rq_id r = ck_next m" "rq_frame r = f" "rq_values r = vs"
    "if placed then m1 = place r (m\<lparr>ck_next := Suc (ck_next m)\<rparr>) else m1 = m\<lparr>ck_next := Suc (ck_next m)\<rparr>"
    using st by (auto simp: submit_start_def Let_def split: sum.splits if_splits option.splits)
  have "\<exists>m2 x. (if placed then Some (Inr (), m1) else submit_resume r (worker_finish env m1)) = Some (Inr (), m2) \<and>
      wait_for_request (rq_id r) False (worker_finish env m2) = Some (Inr x) \<and> m' = worker_finish env m2"
    using s unfolding session_submit_def st prod.case sum.case Let_def by (auto split: option.splits prod.splits sum.splits if_splits)
  then obtain m2 x where m2: "(if placed then Some (Inr (), m1) else submit_resume r (worker_finish env m1)) = Some (Inr (), m2)"
      "wait_for_request (rq_id r) False (worker_finish env m2) = Some (Inr x)" "m' = worker_finish env m2" by blast
  obtain m0 where m0: "m2 = place r m0" "ids_below (ck_next m) m0" "sp_layout (ck_store m0) = sp_layout (ck_store m)"
      "sp_region (ck_store m0) = sp_region (ck_store m)"
  proof (cases placed)
    case True
    then show ?thesis using m2(1) r(4) f(4) that [of "m\<lparr>ck_next := Suc (ck_next m)\<rparr>"] by (simp add: ids_below_def)
  next
    case False
    then have "m2 = place r (worker_finish env m1)" using m2(1) by (auto simp: submit_resume_def split: if_splits)
    moreover have "ids_below (ck_next m) m1" "ck_store m1 = ck_store m" using False r(4) f(4) by (simp_all add: ids_below_def)
    ultimately show ?thesis using that worker_finish_frame by metis
  qed
  have lay: "sp_layout (ck_store m2) = sp_layout (ck_store m)" "sp_region (ck_store m2) = sp_region (ck_store m)"
    using m0 by (simp_all add: place_def)
  have "ck_pending m2 = Some r" "ck_committed m2 < rq_id r" "\<And>w. ck_writing m2 = Some w \<Longrightarrow> rq_id w < rq_id r"
    using m0(2) r(1) by (auto simp: m0(1) place_def ids_below_def)
  moreover have "request_ok (sp_layout (ck_store m)) r" using f r(2,3) by (simp add: request_ok_def)
  ultimately have "on_disk (sn_png env) (ck_store m') r"
    using worker_finish_barrier [OF env(1), of m2 r x] env(2) m2(2,3) lay by simp
  with hash r(3) lay show ?thesis by (simp add: on_disk_def m2(3) worker_finish_frame)
qed

section \<open>Persisted bindings\<close>

lemma abi_dict_entries:
  assumes "distinct (map b_role (abi_bindings a))"
  shows "json_sval (abi_to_dict a) = SDict (entries json_sval [(''version'', JInt (abi_version a)), (''layout_sha256'', JStr (abi_layout_sha256 a)),
    (''bindings'', JObj (map (\<lambda>b. (b_role b, JStr (b_region b))) (abi_bindings a)))])"
  using fold_dset_fresh [OF assms, of "[]" "\<lambda>b. JStr (b_region b)"] by (simp add: abi_to_dict_def entries_def)

lemma canon_bindings:
  "canon (SDict (map (\<lambda>b. (ascii (b_role b), SStr (ascii (b_region b)))) bs)) =
    SDict (map (\<lambda>b. (ascii (b_role b), SStr (ascii (b_region b)))) (sort_key b_role bs))"
proof -
  have "sort_key fst (map (\<lambda>b. (ascii (b_role b), SStr (ascii (b_region b)))) bs) =
      map (\<lambda>b. (ascii (b_role b), SStr (ascii (b_region b)))) (sort_key b_role bs)"
    by (rule sort_key_map) (simp add: ascii_le)
  then show ?thesis by simp
qed

lemma canon_abi:
  assumes "distinct (map b_role (abi_bindings a))"
  shows "canon (json_sval (abi_to_dict a)) = SDict
    [(ascii ''bindings'', SDict (map (\<lambda>b. (ascii (b_role b), SStr (ascii (b_region b)))) (sort_key b_role (abi_bindings a)))),
     (ascii ''layout_sha256'', SStr (ascii (abi_layout_sha256 a))), (ascii ''version'', SInt (abi_version a))]"
proof -
  have "sort_key fst [(''version'', JInt (abi_version a)), (''layout_sha256'', JStr (abi_layout_sha256 a)),
      (''bindings'', JObj (map (\<lambda>b. (b_role b, JStr (b_region b))) (abi_bindings a)))] =
      [(''bindings'', JObj (map (\<lambda>b. (b_role b, JStr (b_region b))) (abi_bindings a))),
       (''layout_sha256'', JStr (abi_layout_sha256 a)), (''version'', JInt (abi_version a))]"
    by (simp add: less_char_def)
  then show ?thesis
    unfolding abi_dict_entries [OF assms] canon_dict canon_values_def sort_entries
    using canon_bindings [of "abi_bindings a"] by (simp add: entries_def comp_def del: canon.simps(2))
qed

text \<open>The stored bindings of a valid ABI are accepted when the session is opened again with that ABI.\<close>

lemma persisted_abi_accepted:
  assumes v: "abi_validate (sn_sha env) L a = Inr a" and b: "\<forall>b \<in> set (abi_bindings a). mk_binding (b_role b) (b_region b) = Inr b"
  shows "check_persisted_abi env L a (canon (json_sval (abi_to_dict a))) = Inr ()"
proof -
  let ?bs = "sort_key b_role (abi_bindings a)"
  let ?raw = "map (\<lambda>b. (b_role b, JStr (b_region b))) ?bs"
  let ?a = "\<lparr>abi_version = abi_version a, abi_layout_sha256 = abi_layout_sha256 a, abi_bindings = ?bs\<rparr>"
  have ok: "abi_ok L a" "abi_layout_sha256 a = layout_digest (sn_sha env) L" using v by (simp_all add: abi_validate_iff)
  then have d: "distinct (map b_role (abi_bindings a))" by (simp add: abi_ok_def)
  have ms: "mset (map b_role ?bs) = mset (map b_role (abi_bindings a))" "mset (map b_region ?bs) = mset (map b_region (abi_bindings a))" by simp_all
  then have d': "distinct (map b_role ?bs)" "distinct (map b_region ?bs)"
    using ok(1) unfolding abi_ok_def by (metis mset_eq_imp_distinct_iff)+
  then have va: "abi_validate (sn_sha env) L ?a = Inr ?a" using ok by (simp add: abi_validate_iff abi_ok_def)
  have "sort_key fst ?raw = ?raw" by (rule sort_key_sorted) (simp add: comp_def)
  moreover have "mk_bindings (map (\<lambda>b. (b_role b, b_region b)) ?bs) = Inr ?bs"
  proof -
    have "map (\<lambda>x. \<lparr>b_role = b_role x, b_region = b_region x\<rparr>) xs = xs" for xs :: "binding list" by (induction xs) simp_all
    then show ?thesis using b by (auto simp: mk_bindings_iff mk_binding_def comp_def split: if_splits)
  qed
  ultimately have "abi_from_dict (sn_sha env) (sn_repr env)
      (value_json (sn_text env) (canon (json_sval (abi_to_dict a)))) L = Inr ?a"
    unfolding canon_abi [OF d] using va by (simp add: abi_from_dict_def comp_def)
  moreover have "dict_eq (abi_to_dict ?a) (abi_to_dict a)"
    unfolding dict_eq_def canon_abi [OF d] using canon_abi [of ?a] d'(1) by simp
  moreover have "canon (json_sval (abi_to_dict a)) \<noteq> SNone" unfolding canon_abi [OF d] by simp
  ultimately show ?thesis by (simp add: check_persisted_abi_def raise_if_def)
qed

section \<open>Properties\<close>

lemma canon_idem: "sval_ok v \<Longrightarrow> canon (canon v) = canon v"
proof (induction v rule: canon.induct)
  case (2 kvs)
  have s: "sort_key fst (map canon_entry (sort_key fst kvs)) = map canon_entry (sort_key fst kvs)"
    by (rule sort_key_sorted) (simp add: comp_def)
  have "canon (canon (snd p)) = canon (snd p)" if "p \<in> set kvs" for p
    using 2 that by (auto simp: list_all_iff)
  then have "map canon_entry (map canon_entry (sort_key fst kvs)) = map canon_entry (sort_key fst kvs)" by simp
  with s show ?case by (simp only: canon.simps)
qed (auto simp: list_all_iff)

lemma resume_carried:
  assumes "carries vs v" "last_checkpoint_hash v = vm_hash (sn_sha env) v"
    and "length (registers v) = threads w" "length (shared v) = length (shared w)"
  shows "resume_vm env vs initial w = Inr (w\<lparr>registers := registers v, shared := shared v,
    execution_generation := execution_generation v, clock := clock v, last_checkpoint_hash := last_checkpoint_hash v\<rparr>, vs)"
proof -
  obtain marker regs sh where c: "dget vs (ascii ''vm_checkpoint'') = Some (SDict marker)"
      "dget vs (ascii ''register_state'') = Some (SDict regs)" "dget vs (ascii ''shared_state'') = Some (SDict sh)"
      "dget marker (ascii ''generation'') = Some (SInt (int (execution_generation v)))"
      "dget marker (ascii ''clock'') = Some (SInt (clock v))"
      "dget marker (ascii ''checkpoint_hash'') = Some (SStr (ascii (last_checkpoint_hash v)))"
      "sort_key fst regs = sort_key fst (captured_regs v)" "sort_key fst sh = sort_key fst (captured_shared v)"
    using assms(1) unfolding carries_def by blast
  from carries_restore [OF assms(2-4) c(4-8)] carries_hash [OF assms(1), of "sn_sha env"] assms(2) c(1-3,6) show ?thesis
    by (simp add: resume_vm_def sget_def member_def as_dict_def raise_if_def)
qed

definition session_ok :: "session_env \<Rightarrow> agent_session \<Rightarrow> bool" where
  "session_ok env s \<longleftrightarrow> (let L = sv_layout (se_vm s); m = se_manager s in
     frame_ok (se_frame s) \<and> f_layout (se_frame s) = L \<and> sp_layout (ck_store m) = L \<and> sval_ok (SDict (se_values s)) \<and>
     ids_below (ck_next m) m \<and> check_session_abi env L (sp_region (ck_store m)) (Some (se_abi s)) = Inr (se_abi s) \<and>
     (\<forall>b \<in> set (abi_bindings (se_abi s)). mk_binding (b_role b) (b_region b) = Inr b))"

text \<open>What a checkpoint with a barrier leaves behind.\<close>

lemma session_checkpoint_spec:
  assumes env: "sha_ok (sn_png env)" "png_lossless (sn_png env) (sv_layout (se_vm s))" and ok: "session_ok env s"
    and c: "session_checkpoint env True s = Some (Inr mk, s')"
  shows "\<exists>v g. s' = (set_vm v s)\<lparr>se_values := dict_merge (resident_state (set_vm v s)) (se_values s), se_manager := se_manager s', se_dirty := False\<rparr> \<and>
    mk = checkpoint_marker v \<and> last_checkpoint_hash v = vm_hash (sn_sha env) v \<and>
    holds (sn_png env) (ck_store (se_manager s')) (canon_values (se_values s')) g \<and>
    sp_layout (ck_store (se_manager s')) = sp_layout (ck_store (se_manager s)) \<and>
    sp_region (ck_store (se_manager s')) = sp_region (ck_store (se_manager s)) \<and> sval_ok (SDict (se_values s'))"
proof -
  obtain v where v: "rbind (session_ensure_open s) (\<lambda>_. activate_vm env s) = Inr v"
    using c by (cases "rbind (session_ensure_open s) (\<lambda>_. activate_vm env s)") (auto simp: session_checkpoint_def)
  let ?s1 = "(set_vm v s)\<lparr>se_values := dict_merge (resident_state (set_vm v s)) (se_values s)\<rparr>"
  let ?mk = "checkpoint_marker v"
  have cap: "capture_state (set_vm v s) = (?mk, ?s1)" by (simp add: capture_state_def set_vm_def)
  obtain i m' where sub: "session_submit env (se_frame s) (se_values ?s1) ?mk True (se_manager s) = Some (Inr i, m')"
      "s' = ?s1\<lparr>se_manager := m', se_dirty := False\<rparr>" "mk = ?mk"
    using c unfolding session_checkpoint_def v sum.case cap prod.case submit_state_def
    by (auto simp: set_vm_def split: option.splits prod.splits sum.splits)
  have o: "frame_ok (se_frame s)" "f_layout (se_frame s) = sp_layout (ck_store (se_manager s))"
      "ids_below (ck_next (se_manager s)) (se_manager s)" "sval_ok (SDict (se_values s))"
      "sp_layout (ck_store (se_manager s)) = sv_layout (se_vm s)"
    using ok by (simp_all add: session_ok_def Let_def)
  have vs: "sval_ok (SDict (se_values ?s1))" using sval_ok_merge [OF o(4) resident_ok] by (simp del: sval_ok.simps)
  note d = session_submit_durable [OF env(1) _ o(1,2) vs o(3) sub(1), unfolded o(5), OF env(2)]
  have "carries (se_values ?s1) v" using carries_captured [of "set_vm v s" "se_values s"] by (simp add: set_vm_def)
  from carries_hash [OF this] d have "last_checkpoint_hash v = vm_hash (sn_sha env) v" by (simp add: checkpoint_marker_def)
  with d sub vs o(5) show ?thesis
    by (intro exI [of _ v]) (auto simp: set_vm_def simp del: sval_ok.simps)
qed

text \<open>C40. A checkpointed session resumes: after a checkpoint with a barrier returned, opening the stored frame with
  the same ABI on a machine of the same geometry succeeds, with the machine at the registers, shared
  memory, generation, clock and lineage hash of the checkpointed one, the same document, and nothing left
  to save.\<close>

theorem session_resumes:
  assumes "sha_ok (sn_png env)" "png_lossless (sn_png env) (sv_layout (se_vm s))" "session_ok env s"
    and "session_checkpoint env True s = Some (Inr mk, s')" "1 \<le> interval" "sv_layout w = sv_layout (se_vm s)"
    and "length (registers (sv_vm (se_vm s'))) = threads (sv_vm w)" "length (shared (sv_vm (se_vm s'))) = length (shared (sv_vm w))"
  shows "\<exists>s2. session_open env (se_path s) (se_path s) (ck_store (se_manager s')) w interval (Some (se_abi s)) initial manifest = Inr s2 \<and>
    sv_vm (se_vm s2) = (sv_vm w)\<lparr>registers := registers (sv_vm (se_vm s')), shared := shared (sv_vm (se_vm s')),
      execution_generation := execution_generation (sv_vm (se_vm s')), clock := clock (sv_vm (se_vm s')),
      last_checkpoint_hash := mk_hash mk\<rparr> \<and>
    (\<forall>k. map_option canon (dget (se_values s2) k) = map_option canon (dget (se_values s') k)) \<and> \<not> se_dirty s2"
proof -
  let ?L = "sv_layout (se_vm s)" and ?st = "ck_store (se_manager s')" and ?vs = "se_values s'" and ?a = "se_abi s"
  obtain v g where c: "s' = (set_vm v s)\<lparr>se_values := dict_merge (resident_state (set_vm v s)) (se_values s),
      se_manager := se_manager s', se_dirty := False\<rparr>" "mk = checkpoint_marker v" "last_checkpoint_hash v = vm_hash (sn_sha env) v"
      "holds (sn_png env) ?st (canon_values ?vs) g" "sp_layout ?st = sp_layout (ck_store (se_manager s))"
      "sp_region ?st = sp_region (ck_store (se_manager s))" "sval_ok (SDict ?vs)"
    using session_checkpoint_spec [OF assms(1-4)] by blast
  have ok: "sp_layout (ck_store (se_manager s)) = ?L" "check_session_abi env ?L (sp_region ?st) (Some ?a) = Inr ?a"
      "\<forall>b \<in> set (abi_bindings ?a). mk_binding (b_role b) (b_region b) = Inr b"
    using assms(3) c(6) by (simp_all add: session_ok_def Let_def)
  have v: "sv_vm (se_vm s') = v" "?vs = dict_merge (resident_state (set_vm v s)) (se_values s)" by (subst c(1), simp add: set_vm_def)+
  have dist: "distinct (map fst ?vs)" using c(7) by simp
  have fresh: "dget ?vs (fst p) = Some (snd p)" if "p \<in> set (resident_state (set_vm v s))" for p
    using map_of_is_SomeI [OF resident_distinct, of "fst p" "snd p"] that by (simp add: v(2) dget_dict_merge [OF resident_distinct])
  obtain f h where load: "load_resident_snapshot (sn_png env) ?st = (Inr (f, canon_values ?vs, g, h), ?st)"
    using load_holds [OF c(4)] by blast
  have "(ascii ''agent_abi'', json_sval (abi_to_dict ?a)) \<in> set (resident_state (set_vm v s))"
    by (simp add: resident_state_def set_vm_def)
  note abi = fresh [OF this, unfolded fst_conv snd_conv]
  have valid: "abi_validate (sn_sha env) ?L ?a = Inr ?a" using ok(2) by (auto simp: check_session_abi_def abi_validate_iff)
  have abi': "sget (canon_values ?vs) ''agent_abi'' = canon (json_sval (abi_to_dict ?a))" by (simp add: sget_def dget_canon_values [OF dist] abi)
  let ?vs1 = "dset (ascii ''agent_abi'') (json_sval (abi_to_dict ?a)) (canon_values ?vs)"
  have "carries ?vs v" using carries_captured [of "set_vm v s" "se_values s"] by (simp add: v(2) set_vm_def)
  then have car: "carries ?vs1 v" using carries_dset carries_canon [OF c(7)] by simp
  have geo: "length (registers v) = threads (sv_vm w)" "length (shared v) = length (shared (sv_vm w))" using assms(7,8) v(1) by simp_all
  let ?w = "(sv_vm w)\<lparr>registers := registers v, shared := shared v, execution_generation := execution_generation v, clock := clock v,
      last_checkpoint_hash := last_checkpoint_hash v\<rparr>"
  have res: "resume_vm env ?vs1 initial (sv_vm w) = Inr (?w, ?vs1)" by (rule resume_carried [OF car c(3) geo])
  obtain m where m: "ckpt_init ?st interval (Some h) manifest = Inr m" using assms(5) by (simp add: ckpt_init_def)
  have meta: "set (session_metadata ?L (se_path s)) \<subseteq> set (resident_state (set_vm v s))" by (auto simp: resident_state_def set_vm_def)
  have clean: "value_eq (case dget ?vs1 (fst p) of None \<Rightarrow> SNone | Some x \<Rightarrow> x) (snd p)" if "p \<in> set (session_metadata ?L (se_path s))" for p
  proof -
    have "sval_ok (snd p)" using resident_ok that meta unfolding list_all_iff by blast
    moreover have "fst p \<noteq> ascii ''agent_abi''" using that by (auto simp: session_metadata_def)
    moreover have "dget ?vs (fst p) = Some (snd p)" using fresh that meta by blast
    ultimately show ?thesis
      using canon_idem by (simp add: value_eq_def dget_canon_values [OF dist])
  qed
  have dm: "distinct (map fst (session_metadata ?L (se_path s)))" by (simp add: session_metadata_def)
  have vals: "map_option canon (dget (dict_merge (session_metadata ?L (se_path s)) ?vs1) k) = map_option canon (dget ?vs k)" for k
  proof (cases "dget (session_metadata ?L (se_path s)) k")
    case (Some x)
    then have "dget ?vs k = Some x" using fresh [of "(k, x)"] meta map_of_SomeD [OF Some] by auto
    with Some show ?thesis by (simp add: dget_dict_merge [OF dm])
  next
    case None
    have "canon (canon x) = canon x" if "dget ?vs k = Some x" for x
      using c(7) map_of_SomeD [OF that] by (intro canon_idem) (auto simp: list_all_iff)
    with None show ?thesis using abi by (cases "dget ?vs k") (auto simp: dget_dict_merge [OF dm] dget_canon_values [OF dist])
  qed
  have "canon (json_sval (abi_to_dict ?a)) \<noteq> SNone"
    using canon_abi [of ?a] valid by (simp add: abi_validate_iff abi_ok_def)
  then have "\<exists>s2. session_open env (se_path s) (se_path s) ?st w interval (Some ?a) initial manifest = Inr s2 \<and> sv_vm (se_vm s2) = ?w \<and>
      se_values s2 = dict_merge (session_metadata ?L (se_path s)) ?vs1 \<and> \<not> se_dirty s2"
    using ok c(5) assms(6) load persisted_abi_accepted [OF valid ok(3)] res m clean
    by (simp add: session_open_def Let_def abi' list_ex_iff)
  moreover have "?w = (sv_vm w)\<lparr>registers := registers (sv_vm (se_vm s')), shared := shared (sv_vm (se_vm s')),
      execution_generation := execution_generation (sv_vm (se_vm s')), clock := clock (sv_vm (se_vm s')), last_checkpoint_hash := mk_hash mk\<rparr>"
    by (simp add: v(1) c(2) checkpoint_marker_def)
  ultimately show ?thesis using vals by metis
qed

section \<open>Examples\<close>

text \<open>The first checkpoint of a store without a file.\<close>

lemma first_commit:
  assumes "sha_ok env" "frame_ok f" "f_layout f = sp_layout st" "sp_primary st = None" "encode_document env vs (Suc 0) st = Inr doc"
  shows "\<exists>receipt st'. commit_snapshot env f vs vg vh None st = (Inr receipt, st')"
proof -
  obtain f' where f': "write_frame env vs 0 st f = Inr f'" using write_frame_fits [OF assms(2,3,5,1)] by blast
  have "\<exists>e. open_frame env (sp_primary st) st = Inl e" using assms(4) by (simp add: open_frame_def frame_open_def)
  then show ?thesis using f' by (auto simp: commit_snapshot_def Let_def)
qed

lemma first_submit:
  assumes env: "sha_ok (sn_png env)" "sn_disk env (ck_next m) = Inr ()"
    and m: "ck_pending m = None" "ck_writing m = None" "\<not> ck_stopped m" "\<not> ck_closed m" "ck_error m = None" "ck_artifact m = None"
      "ck_generation m \<le> mk_generation mk" "sp_primary (ck_store m) = None"
    and d: "checkpoint_hash_from_memory (sn_sha env) vs = Inr (mk_hash mk)" "frame_ok f" "f_layout f = sp_layout (ck_store m)"
      "encode_document (sn_png env) vs (Suc 0) (ck_store m) = Inr doc"
  shows "\<exists>m'. session_submit env f vs mk True m = Some (Inr (ck_next m), m')"
proof -
  let ?r = "\<lparr>rq_id = ck_next m, rq_frame = f, rq_values = vs, rq_generation = mk_generation mk, rq_hash = mk_hash mk, rq_barrier = True\<rparr>"
  let ?m1 = "place ?r (m\<lparr>ck_next := Suc (ck_next m)\<rparr>)"
  have s: "submit_start (sn_png env) f vs (mk_generation mk) (mk_hash mk) True m = (Inr (?r, True), ?m1)"
    using m d(1) by (simp add: submit_start_def Let_def)
  obtain receipt st' where c: "commit_snapshot (sn_png env) f vs (nat (mk_generation mk)) (mk_hash mk) None (ck_store m) = (Inr receipt, st')"
    using first_commit [OF env(1) d(2,3) m(8) d(4)] by blast
  let ?m2 = "?m1\<lparr>ck_writing := Some ?r, ck_pending := None\<rparr>"
  obtain m3 where m3: "worker_commit (sn_png env) (Inr ()) ?m2 = Some m3" "ck_writing m3 = None" "ck_pending m3 = None" "ck_error m3 = None"
      "ck_committed m3 = ck_next m"
    using c d(1) m by (simp add: worker_commit_def worker_write_def place_def raise_if_def)
  have "worker_turn env ?m1 = m3"
    using m(2,3) m3(1) env(2) by (simp add: worker_turn_def worker_take_def finish_write_def place_def)
  moreover have "finish_write env ?m1 = ?m1" using m(2) by (simp add: finish_write_idle place_def)
  ultimately have "worker_finish env ?m1 = worker_turn env m3" by (simp add: worker_finish_def)
  then have "wait_for_request (ck_next m) False (worker_finish env ?m1) = Some (Inr True)"
    using worker_turn_idle [OF m3(2,3), of env] m3(4,5) by (simp add: wait_for_request_def wait_outcome_def)
  with s show ?thesis by (simp add: session_submit_def Let_def)
qed

text \<open>A size every plain value keeps to: ASCII text, integers that encode.\<close>

fun plain :: "sval \<Rightarrow> bool" where
  "plain (SInt i) = (case encode_int i of Inl e \<Rightarrow> False | Inr b \<Rightarrow> True)"
| "plain (SStr s) = list_all (\<lambda>c. c < 128) s"
| "plain (SList xs) = list_all plain xs"
| "plain (SDict d) = list_all (\<lambda>p. list_all (\<lambda>c. c < 128) (fst p) \<and> plain (snd p)) d"
| "plain (SFloat w) = False"
| "plain (SBytes b) = False"
| "plain v = True"

fun weight :: "sval \<Rightarrow> nat" where
  "weight (SInt i) = (case encode_int i of Inl e \<Rightarrow> 0 | Inr b \<Rightarrow> length b)"
| "weight (SStr s) = 5 + length s"
| "weight (SList xs) = 5 + sum_list (map (\<lambda>x. 4 + weight x) xs)"
| "weight (SDict d) = 5 + sum_list (map (\<lambda>p. 6 + length (fst p) + weight (snd p)) d)"
| "weight v = 1"

abbreviation entry_weight :: "ustr \<times> sval \<Rightarrow> nat" where
  "entry_weight p \<equiv> 6 + length (fst p) + weight (snd p)"

lemma block32_small: "length raw < 65536 \<Longrightarrow> \<exists>b. block32 raw = Inr b \<and> length b = 4 + length raw"
  by (simp add: block32_def u32_def)

lemma sum_entries_sort: "sum_list (map entry_weight (sort_key fst d)) = sum_list (map entry_weight d)"
  by (simp add: sum_mset_sum_list [symmetric] del: sum_mset_sum_list)

lemma length_le_sum: "(\<And>x. 0 < f x) \<Longrightarrow> length d \<le> sum_list (map f d)"
proof (induction d)
  case (Cons x d)
  then have "0 < f x" "length d \<le> sum_list (map f d)" by blast+
  then show ?case by simp
qed simp

lemma plain_encodes:
  "plain v \<Longrightarrow> weight v < 65536 \<Longrightarrow> \<exists>bs. encode_value v = Inr bs \<and> length bs \<le> weight v"
  "list_all plain xs \<Longrightarrow> sum_list (map (\<lambda>x. 4 + weight x) xs) < 65536 \<Longrightarrow>
     \<exists>es body. encode_list xs = Inr es \<and> length es = length xs \<and> blocks32 es = Inr body \<and> length body \<le> sum_list (map (\<lambda>x. 4 + weight x) xs)"
  "list_all (\<lambda>p. list_all (\<lambda>c. c < 128) (fst p) \<and> plain (snd p)) d \<Longrightarrow> sum_list (map entry_weight d) < 65536 \<Longrightarrow>
     \<exists>body. encode_entries d = Inr body \<and> length body \<le> sum_list (map entry_weight d)"
proof (induction v and xs and d rule: encode_value_encode_list_encode_entries.induct)
  case (3 i)
  then show ?case by (cases "encode_int i") auto
next
  case (5 s)
  then show ?case using block32_small [of "map of_nat s"] by (auto simp: utf8_encode_ascii)
next
  case (7 xs)
  then obtain es body where e: "encode_list xs = Inr es" "length es = length xs" "blocks32 es = Inr body"
      "length body \<le> sum_list (map (\<lambda>x. 4 + weight x) xs)" by auto
  have "length xs < 65536" using 7(3) length_le_sum [of "\<lambda>x. 4 + weight x" xs] by simp
  with e 7(3) show ?case by (simp add: u32_def)
next
  case (8 kvs)
  have len: "length kvs < 65536" using 8(3) length_le_sum [of entry_weight kvs] by simp
  then obtain n where n: "u32 (length kvs) = Inr n" "length n = 4" by (simp add: u32_def)
  have "list_all (\<lambda>p. list_all (\<lambda>c. c < 128) (fst p) \<and> plain (snd p)) (sort_key fst kvs)" using 8(2) by (simp add: list_all_iff)
  then obtain body where "encode_entries (sort_key fst kvs) = Inr body" "length body \<le> sum_list (map entry_weight kvs)"
    using 8(1) [OF n(1)] 8(3) by (auto simp: sum_entries_sort)
  with n show ?case by simp
next
  case (10 x xs)
  then obtain e es body where e: "encode_value x = Inr e" "length e \<le> weight x" "encode_list xs = Inr es" "length es = length xs"
      "blocks32 es = Inr body" "length body \<le> sum_list (map (\<lambda>x. 4 + weight x) xs)" by auto
  then obtain b where "block32 e = Inr b" "length b = 4 + length e" using block32_small [of e] 10(4) by auto
  with e show ?case by auto
next
  case (12 k v rest)
  have k: "utf8_encode k = Inr (map of_nat k)" using 12(3) by (simp add: utf8_encode_ascii)
  obtain e where e: "encode_value v = Inr e" "length e \<le> weight v" using 12(1) [OF k] 12(3,4) by auto
  obtain b where b: "block32 e = Inr b" "length b = 4 + length e" using block32_small [of e] e(2) 12(4) by auto
  obtain kl where kl: "u16 (length (map of_nat k :: bytes)) = Inr kl" "length kl = 2" using 12(4) by (auto simp: u16_def)
  obtain body where "encode_entries rest = Inr body" "length body \<le> sum_list (map entry_weight rest)"
    using 12(2) [OF k e(1) kl(1) b(1)] 12(3,4) by auto
  with k e b kl show ?case by auto
qed auto

definition home_layout :: layout where
  "home_layout = \<lparr>lwidth = 8, lheight = 65, execution_rows = 1, lregions = []\<rparr>"

definition home_png :: png_env where
  "home_png = (flat_env home_layout)\<lparr>e_sha := \<lambda>_. replicate 32 0\<rparr>"

definition home_env :: session_env where
  "home_env = \<lparr>sn_png = home_png, sn_load = (\<lambda>_. None), sn_exists = (\<lambda>_. False), sn_repr = (\<lambda>_. []), sn_text = (\<lambda>_. []),
     sn_disk = (\<lambda>_. Inr ())\<rparr>"

definition home_vm :: vm where
  "home_vm = (demo_vm 1 True)\<lparr>clock := 7, last_checkpoint_hash := replicate 64 (CHR ''0'')\<rparr>"

definition home_session :: agent_session where
  "home_session = \<lparr>se_path = ''f'', se_vm = \<lparr>sv_layout = home_layout, sv_vm = home_vm\<rparr>,
     se_frame = \<lparr>f_image = \<lparr>rwidth = 8, rheight = 65, rcells = replicate 520 (0, 0, 0)\<rparr>, f_layout = home_layout, f_dirty = []\<rparr>,
     se_values = capture_vm_state home_vm,
     se_manager = demo_manager\<lparr>ck_store := \<lparr>sp_layout = home_layout, sp_region = None, sp_primary = None, sp_backup = None, sp_quarantine = []\<rparr>\<rparr>,
     se_abi = \<lparr>abi_version = 1, abi_layout_sha256 = replicate 64 (CHR ''0''), abi_bindings = []\<rparr>,
     se_mailboxes = [], se_has_memory = False, se_closed = False, se_dirty = True\<rparr>"

lemma home_hex: "hexdigest (replicate 32 0) = replicate 64 (CHR ''0'')"
proof -
  have "char_of (48 :: nat) = CHR ''0''" by code_simp
  then have "hexdigest (replicate n 0) = replicate (2 * n) (CHR ''0'')" for n
    by (induction n) (simp_all add: hexdigest_def hex_digit_def)
  from this [of 32] show ?thesis by simp
qed

lemma home_sha: "sha_ok home_png" "png_lossless home_png home_layout"
  using flat_env_ok(2) [of home_layout] by (simp_all add: sha_ok_def home_png_def png_lossless_def)

lemma home_hash: "vm_hash (e_sha home_png) v = replicate 64 (CHR ''0'')"
  by (simp add: vm_hash_def home_png_def home_hex)

lemma home_session_ok: "session_ok home_env home_session"
proof -
  have "sval_ok (SDict (capture_vm_state home_vm))"
    using sval_ok_merge [of "[]", OF _ resident_ok [of home_session]] captured_ok [of home_vm]
    by (simp add: capture_eq marker_value_def del: sval_ok.simps(2)) simp
  moreover have "abi_validate (e_sha home_png) home_layout (se_abi home_session) = Inr (se_abi home_session)"
    by (simp add: abi_validate_def home_session_def AGENT_ABI_VERSION_def layout_digest_def home_png_def home_hex)
  ultimately show ?thesis
    by (simp add: session_ok_def home_session_def home_env_def check_session_abi_def ids_below_def demo_manager_def frame_ok_def
        raster_ok_def size_matches_def rects_ok_def home_layout_def layout_ok_def total_cells_def MAX_SPATIAL_CELLS_def
        del: sval_ok.simps)
qed

lemma home_capacity: "capacity_bytes (ck_store (se_manager home_session)) = Inr 1536"
  by (simp add: home_session_def capacity_bytes_def layout_region_def Let_def storage_region_def home_layout_def
      region_capacity_bytes_def region_cells_def)

abbreviation home_values :: mem_values where
  "home_values \<equiv> dict_merge (resident_state home_session) (se_values home_session)"

lemma home_set_vm: "set_vm home_vm home_session = home_session"
  by (simp add: set_vm_def home_session_def)

lemma home_digits:
  "digit_char 0 = CHR ''0''" "digit_char (Suc 0) = CHR ''1''" "digit_char (Suc (Suc 0)) = CHR ''2''" "digit_char (Suc (Suc (Suc 0))) = CHR ''3''"
  "digit_char (Suc (Suc (Suc (Suc 0)))) = CHR ''4''" "digit_char (Suc (Suc (Suc (Suc (Suc 0))))) = CHR ''5''"
  "digit_char (Suc (Suc (Suc (Suc (Suc (Suc 0)))))) = CHR ''6''" "digit_char (Suc (Suc (Suc (Suc (Suc (Suc (Suc 0))))))) = CHR ''7''"
  by code_simp+

lemma home_state:
  "registers_dict [r] = [(''T0'', r)]"
  "shared_dict [a, b, c, d, e, f, g, h] =
     [(''M0'', a), (''M1'', b), (''M2'', c), (''M3'', d), (''M4'', e), (''M5'', f), (''M6'', g), (''M7'', h)]"
  by (simp_all add: registers_dict_def shared_dict_def thread_name_def slot_name_def upt_rec del: upt_Suc)
    (simp_all add: nat_str.simps home_digits)

lemma home_ints:
  "plain (SInt 0)" "plain (SInt 1)" "plain (SInt 7)" "plain (SInt 8)" "plain (SInt 65)" "plain (SInt 1536)" "plain (SInt 1560)"
  "weight (SInt 0) = 4" "weight (SInt 1) = 5" "weight (SInt 7) = 5" "weight (SInt 8) = 5" "weight (SInt 65) = 5" "weight (SInt 1536) = 6"
  "weight (SInt 1560) = 6"
  by (simp_all add: encode_simps)

lemma home_shared: "shared_dict (replicate 8 0) =
    [(''M0'', 0), (''M1'', 0), (''M2'', 0), (''M3'', 0), (''M4'', 0), (''M5'', 0), (''M6'', 0), (''M7'', 0)]"
  using home_state(2) [of 0 0 0 0 0 0 0 0] by (simp add: numeral_eq_Suc)

lemma home_storage: "storage_capacity_bytes home_layout = 1536" "raw_capacity_bytes home_layout = 1560"
  by (simp_all add: storage_capacity_bytes_def raw_capacity_bytes_def total_cells_def storage_region_def region_capacity_bytes_def
      region_cells_def home_layout_def)

lemma list_all_replicate: "list_all P (replicate n x) \<longleftrightarrow> n = 0 \<or> P x"
  by (auto simp: list_all_iff)

lemmas home_simps = resident_state_def capture_eq entries_def session_metadata_def layout_to_dict_def home_session_def home_storage
  abi_to_dict_def marker_value_def checkpoint_marker_def home_state(1) home_shared regs_value_def home_vm_def demo_vm_def zero_regs_def
  home_ints list_all_replicate

lemma home_plain: "plain (SDict (resident_state home_session))"
  by (simp add: home_simps del: plain.simps(1)) (simp add: ascii_def home_layout_def home_ints list_all_replicate del: plain.simps(1))

lemma home_weight: "weight (SDict (resident_state home_session)) \<le> 1472"
  by (simp add: home_simps del: weight.simps(1)) (simp add: ascii_def home_layout_def home_ints del: weight.simps(1))

lemma home_values_eq: "home_values = resident_state home_session"
  by (simp add: dict_merge_def resident_state_def capture_eq session_metadata_def home_session_def)

lemma home_document: "\<exists>doc. encode_document home_png home_values (Suc 0) (ck_store (se_manager home_session)) = Inr doc"
proof -
  obtain bs where bs: "encode_value (SDict home_values) = Inr bs" "length bs \<le> 1472"
    using plain_encodes(1) [OF home_plain] home_weight unfolding home_values_eq by fastforce
  have "length home_values = 6" unfolding home_values_eq by (simp add: resident_state_def capture_eq session_metadata_def)
  with bs show ?thesis unfolding encode_document_def home_capacity
    by (simp add: HEADER_SIZE_def header_pack_def del: encode_value.simps)
qed

lemma home_activate: "activate_vm home_env home_session = Inr home_vm"
  by (simp add: activate_vm_def home_session_def capture_eq member_def as_dict_def marker_value_def)

lemma home_checkpoint: "\<exists>mk s'. session_checkpoint home_env True home_session = Some (Inr mk, s') \<and> sv_vm (se_vm s') = home_vm"
proof -
  let ?m = "se_manager home_session" and ?mk = "checkpoint_marker home_vm"
  have "checkpoint_hash_from_memory (sn_sha home_env) home_values = Inr (mk_hash ?mk)"
    using carries_hash [OF carries_captured [of home_session "se_values home_session"], of "sn_sha home_env"] home_hash
    by (simp add: home_env_def checkpoint_marker_def home_session_def home_vm_def)
  moreover obtain doc where "encode_document (sn_png home_env) home_values (Suc 0) (ck_store ?m) = Inr doc"
    using home_document by (auto simp: home_env_def)
  moreover have "frame_ok (se_frame home_session)" "f_layout (se_frame home_session) = sp_layout (ck_store ?m)"
    using home_session_ok by (simp_all add: session_ok_def Let_def)
  ultimately have "\<exists>m'. session_submit home_env (se_frame home_session) home_values ?mk True ?m = Some (Inr (ck_next ?m), m')"
    using home_sha(1)
    by (intro first_submit) (simp_all add: home_env_def home_session_def demo_manager_def checkpoint_marker_def)
  moreover have "\<not> se_closed home_session" "sv_vm (se_vm home_session) = home_vm" by (simp_all add: home_session_def)
  ultimately show ?thesis
    by (auto simp: session_checkpoint_def home_activate home_set_vm capture_state_def submit_state_def session_ensure_open_def raise_if_def)
qed

theorem session_resumes_witness:
  "\<exists>mk s' s2. session_checkpoint home_env True home_session = Some (Inr mk, s') \<and>
    session_open home_env ''f'' ''f'' (ck_store (se_manager s')) \<lparr>sv_layout = home_layout, sv_vm = demo_vm 1 False\<rparr> 1
      (Some (se_abi home_session)) None None = Inr s2 \<and>
    clock (sv_vm (se_vm s2)) = 7 \<and> registers (sv_vm (se_vm s2)) = [zero_regs] \<and> \<not> se_dirty s2"
proof -
  obtain mk s' where c: "session_checkpoint home_env True home_session = Some (Inr mk, s')" "sv_vm (se_vm s') = home_vm"
    using home_checkpoint by blast
  let ?w = "\<lparr>sv_layout = home_layout, sv_vm = demo_vm 1 False\<rparr>"
  have f: "sv_layout (se_vm home_session) = home_layout" "se_path home_session = ''f''" "sn_png home_env = home_png"
    by (simp_all add: home_session_def home_env_def)
  show ?thesis
    using session_resumes [of home_env home_session mk s' 1 ?w None None] home_sha home_session_ok c f
    by (fastforce simp: home_vm_def demo_vm_def)
qed

end
