(* ===== verification/Spec2Isabelle.thy ===== *)
theory Spec2Isabelle
  imports Pyxel_Compiler Spatial_Mailbox Agent_ABI Karma Auth_Pipeline Compute Spatial_Store Cluster Tool_Gateway Agent_Session
begin

text \<open>
  Verification library for ZDX Pyxel: a virtual machine that executes the pixels of an image, the spatial
  PNG frames its agents live in, and the distributed layer that schedules and authenticates their work.

  \<^bold>\<open>The program and its parts.\<close>
  The machine of \<^verbatim>\<open>zdx_parallel_vm.py\<close> runs an RGB raster column by column on all threads; compilers in the
  same file produce such rasters. \<^verbatim>\<open>zdx_spatial_frame.py\<close> divides an image into execution rows and data
  regions, so that program and memory share one PNG file: \<^verbatim>\<open>zdx_spatial_mailbox.py\<close> keeps a message ring in a
  region, \<^verbatim>\<open>zdx_agent_abi.py\<close> says which region has which role, and
  \<^verbatim>\<open>zdx_pixel_memory/spatial_store.py\<close> keeps a typed dictionary in one. On that dictionary stand the
  namespaces of \<^verbatim>\<open>zdx_agent_memory_manager.py\<close>, the checkpoints of \<^verbatim>\<open>zdx_checkpoint.py\<close> and the tool calls of
  \<^verbatim>\<open>zdx_agent_tool_gateway.py\<close>; \<^verbatim>\<open>zdx_spatial_agent_session.py\<close> holds one frame with its machine, memory, mailboxes
  and checkpoint manager together. Between nodes, \<^verbatim>\<open>zdx_auth_pipeline.py\<close> admits messages,
  \<^verbatim>\<open>zdx_karma_system.py\<close> keeps reputation and elects a master, \<^verbatim>\<open>zdx_compute_core.py\<close> and \<^verbatim>\<open>zdx_compute.py\<close> hand out
  tasks under leases and run them, and \<^verbatim>\<open>zdx_cluster.py\<close> replicates a task queue as an operation log.

  \<^bold>\<open>Theories, in order of import.\<close>
  \<^item> \<^verbatim>\<open>Prelude\<close>: exceptions as values, dictionaries as association lists, bytes, slices, rounding to 53 bits.
  \<^item> \<^verbatim>\<open>Py_Text\<close>, \<^verbatim>\<open>Utf8\<close>: the string, JSON and UTF-8 functions of Python the sources call.
  \<^item> \<^verbatim>\<open>Pyxel_VM\<close>: \<open>ParallelPyxelVM\<close>. \<^verbatim>\<open>vm\<close> is the object, \<^verbatim>\<open>exec_instr\<close> to \<^verbatim>\<open>execute_texture\<close> its execution from
    one instruction to a chain of frames, \<^verbatim>\<open>restore_checkpoint\<close> and \<^verbatim>\<open>vm_hash\<close> its lineage. Shown: byte
    range of registers and shared memory, independence of the storage rows, termination of jump-free
    frames, the effect of success and failure on generation and hash, restore round trip and verification.
  \<^item> \<^verbatim>\<open>Pyxel_Compiler\<close>: \<open>SimpleCompiler\<close>, \<open>ThoughtCompiler\<close>, program patterns. Shown: the machine decodes what the
    compiler meant under maps that leave R = 0 free, what an assigned R = 0 does, and what the patterns compute.
  \<^item> \<^verbatim>\<open>Spatial_Layout\<close>, \<^verbatim>\<open>Spatial_Frame\<close>: \<open>SpatialLayout\<close>, \<open>SpatialFrame\<close>, \<open>SpatialCompiler\<close>, \<open>SpatialPyxelVM\<close>. Shown:
    accepted layouts keep regions apart and off the execution rows, bytes written are read back and nothing
    else changes, dirty rectangles cover every change, data writes leave execution alone.
  \<^item> \<^verbatim>\<open>Spatial_Mailbox\<close>: \<open>SpatialMailbox\<close>. Shown: refinement of a bounded first-in first-out queue (a locale
    interpreted on the ring), and that only intact messages are delivered.
  \<^item> \<^verbatim>\<open>Agent_ABI\<close>: \<open>SpatialAgentABI\<close>. Shown: in a validated ABI every bound region is off the execution
    rows and large enough for its role, and bindings other than to the whole storage plane share no cell.
  \<^item> \<^verbatim>\<open>Spatial_Codec\<close>, \<^verbatim>\<open>Spatial_Store\<close>: the typed encoding and \<open>SpatialPixelStore\<close>. Shown: decoding inverts
    encoding, the store refines a dictionary with a generation counter, writing outside
    the execution region keeps the program, and when a damaged file is recovered from its backup and when not.
  \<^item> \<^verbatim>\<open>Agent_Memory\<close>: \<open>SpatialAgentMemoryManager\<close>. Shown: quotas hold after every history; what a write keeps and
    evicts.
  \<^item> \<^verbatim>\<open>Checkpoint\<close>: \<open>checkpoint_hash_from_memory\<close> and \<open>SpatialCheckpointManager\<close> as a step relation that interleaves
    callers with the worker thread. Shown: a returning barrier means the snapshot is on the disk (for
    callers under one lock), barriers complete, and a history in which concurrent callers lose one.
  \<^item> \<^verbatim>\<open>Agent_Session\<close>: \<open>SpatialAgentSession\<close>, which owns a frame, a machine, mailboxes, the memory and the checkpoint
    manager behind one lock; \<^verbatim>\<open>agent_session\<close> is the object, \<^verbatim>\<open>session_open\<close> to \<^verbatim>\<open>session_close\<close> its methods.
    Shown: a session checkpointed with a barrier resumes from its frame where it was.
  \<^item> \<^verbatim>\<open>Tool_Gateway\<close>: \<open>AgentToolGateway\<close> over the agent memory, which it uses through the locale \<^verbatim>\<open>journal\<close>. Shown:
    at most one run per action across failures and crashes, only granted actions run, completed actions are
    replayed from their record. Its histories have calls that do not overlap, and at most once needs
    that nobody else touches the two namespaces of the gateway; two lemmas show that the code enforces neither.
  \<^item> \<^verbatim>\<open>Karma\<close>: \<open>KarmaSystem\<close>. Shown: the invariant of scores and clusters over every history, what evicts
    and that eviction is permanent, capacity of clusters, what an election returns.
  \<^item> \<^verbatim>\<open>Auth_Pipeline\<close>: \<open>AuthPipeline\<close>, replay guard, rate limiter. Shown: only authenticated messages are
    dispatched, sequences increase as long as the replay state is not cleared, the bound of the rate window.
  \<^item> \<^verbatim>\<open>Compute_Task\<close>, \<^verbatim>\<open>Compute\<close>: \<open>ComputeTask\<close>, \<open>execute_task\<close>, \<open>ComputeCoordinator\<close> with its accounting subclass.
    Shown: table invariant and conservation of tasks, no overcommitment, bounded attempts, leases end only
    by their holder, contributions match the completed tasks whose elapsed time can be read.
  \<^item> \<^verbatim>\<open>Cluster\<close>: \<open>ReplicatedClusterState\<close> and its runtime. Shown: in any sequence of merges replicas that
    heard from the same replicas agree, a live lease can be completed, a stale one is rejected, and three histories in which the log misbehaves.

  \<^bold>\<open>How the code is modelled.\<close>
  A Python object is a record, a method a function from the object (and its arguments) to the result and
  the object after it; a method that raises returns \<open>Inl\<close> of the exception. Where an exception can leave a
  half-changed object, the model returns that object too. Integers are unbounded as in Python; bytes and
  header fields are words or are range-checked as \<open>struct\<close> does. Dictionaries keep insertion order.
  Operations that run under a lock are one step; the checkpoint manager, whose lock is released while it
  waits, is split at its waits, and a session that waits for it lets its worker run until it is idle.

  \<^bold>\<open>Parameters.\<close>
  SHA-256 (some results ask that digests have 32 bytes), PNG coding (\<^verbatim>\<open>png_lossless\<close>: decoding an encoded raster
  gives it back), image files and their existence, float rounding in masses, the iteration order of sets, clock
  readings and fresh identifiers, signature and revocation checks, tool handlers and the external authoriser
  (both may answer differently at each call), \<open>float\<close> of a text,
  the outcome of saving a manifest and of a checkpoint as the gateway sees it. No result assumes that a
  parameter behaves well unless its statement says so.

  \<^bold>\<open>Bounds.\<close>
  No fuel is added anywhere. The column budget \<open>max_col_steps\<close> and the chain limit \<open>max_chain\<close> are the source's
  own and are the recursion arguments of the two execution loops; every other loop has a termination proof
  (a shrinking list, an absorbed rectangle, a shorter byte string, an evicted entry).

  \<^bold>\<open>Not modelled.\<close>
  Sockets, TLS, threads of servers and workers, command line, window, benchmarks; the cryptography library
  and key files; the JSON envelope of state files and failures of the file system (a state file is the value
  last saved); crashes in the middle of an atomic file replacement; the agent runtime, which builds
  sessions from configuration files; the legacy pixel memory; printing.
\<close>

end
